(* ===== verification/Prelude.thy ===== *)
theory Prelude
  imports Main "HOL-Library.Word" "HOL-Library.AList" "HOL-Library.Multiset"
begin

text \<open>
  Shared vocabulary of the development: Go's machine types, the outcomes of a Go call, effectful
  calls over an abstract world, Go slices and maps, and the invariant rule for step relations.

  A Go call ends in one of four ways: it returns, it returns a non-nil \<open>error\<close>, it panics, or the
  process exits (\<open>log.Fatalf\<close>). These are the constructors of \<open>outcome\<close>. A call that has effects
  (an RPC, a clock read, a channel operation) is a function of the world it runs in; the world is
  a type variable everywhere, so that nothing is assumed of it.
\<close>

named_theorems io_inv \<open>inversion of a completed effectful call into its parts\<close>
named_theorems go_eval \<open>evaluation of the Go primitives on concrete arguments\<close>

section \<open>Machine types\<close>

type_synonym u8 = "8 word"
type_synonym u32 = "32 word"
type_synonym u64 = "64 word"
type_synonym i64 = "64 word"
type_synonym bytes = "u8 list"

text \<open>\<open>common.Address\<close> is a \<open>[20]byte\<close> and \<open>common.Hash\<close> a \<open>[32]byte\<close>: byte lists of a fixed
  length. An ECDSA private key is its secret scalar.\<close>

type_synonym address = bytes
type_synonym hash = bytes
type_synonym priv_key = int

definition zero_address :: address where
  "zero_address = replicate 20 0"

section \<open>Outcomes\<close>

text \<open>One constructor per error site of the relayer, and \<open>LibError\<close> for an error that a library
  call returned.\<close>

datatype go_error =
    LibError string
  | Wrapf string go_error
  | ErrBadParliaBlock
  | ErrBadBlockSigner address address
  | ErrQuorumNotReached u64 nat nat
  | ErrBadEpochBlock u64
  | ErrTxNotMined hash
  | ErrCorruptedReply nat nat
  | ErrBadEventPayload
  | ErrContextDone

datatype go_panic =
    SliceBounds
  | IndexOutOfRange
  | DivideByZero
  | NilDereference
  | TypeAssertion
  | PanicError string go_error
  | PanicMessage string

datatype 'a outcome = Ret 'a | Fail go_error | Panic go_panic | Exit string

fun outcome_bind :: "'a outcome \<Rightarrow> ('a \<Rightarrow> 'b outcome) \<Rightarrow> 'b outcome" where
  "outcome_bind (Ret x) f = f x"
| "outcome_bind (Fail e) f = Fail e"
| "outcome_bind (Panic p) f = Panic p"
| "outcome_bind (Exit m) f = Exit m"

lemma outcome_bind_Ret_iff [io_inv]:
  "outcome_bind m f = Ret y \<longleftrightarrow> (\<exists>x. m = Ret x \<and> f x = Ret y)"
  by (cases m) auto

lemma outcome_bind_assoc [simp]:
  "outcome_bind (outcome_bind m f) g = outcome_bind m (\<lambda>x. outcome_bind (f x) g)"
  by (cases m) auto

lemma outcome_bind_Ret_right [simp]: "outcome_bind m Ret = m"
  by (cases m) auto

text \<open>\<open>must\<close>-style use of an error as a panic, \<open>log.Fatalf\<close> on an error, and \<open>errors.Wrapf\<close>.\<close>

fun fatal_on_error :: "string \<Rightarrow> 'a outcome \<Rightarrow> 'a outcome" where
  "fatal_on_error msg (Fail e) = Exit msg"
| "fatal_on_error msg r = r"

fun panic_on_error :: "string \<Rightarrow> 'a outcome \<Rightarrow> 'a outcome" where
  "panic_on_error msg (Fail e) = Panic (PanicError msg e)"
| "panic_on_error msg r = r"

fun wrap_error :: "string \<Rightarrow> 'a outcome \<Rightarrow> 'a outcome" where
  "wrap_error msg (Fail e) = Fail (Wrapf msg e)"
| "wrap_error msg r = r"

lemma wrap_error_Ret [simp]: "wrap_error msg r = Ret x \<longleftrightarrow> r = Ret x"
  by (cases r) auto

lemma fatal_on_error_Ret [simp]: "fatal_on_error msg r = Ret x \<longleftrightarrow> r = Ret x"
  by (cases r) auto

lemma panic_on_error_Ret [simp]: "panic_on_error msg r = Ret x \<longleftrightarrow> r = Ret x"
  by (cases r) auto

section \<open>Effectful calls\<close>

type_synonym ('w, 'a) io = "'w \<Rightarrow> 'a outcome \<times> 'w"

definition io_lift :: "'a outcome \<Rightarrow> ('w, 'a) io" where
  "io_lift r = (\<lambda>w. (r, w))"

definition io_ret :: "'a \<Rightarrow> ('w, 'a) io" where
  "io_ret x = (\<lambda>w. (Ret x, w))"

definition io_bind :: "('w, 'a) io \<Rightarrow> ('a \<Rightarrow> ('w, 'b) io) \<Rightarrow> ('w, 'b) io" where
  "io_bind m f = (\<lambda>w. case m w of
      (Ret x, w') \<Rightarrow> f x w'
    | (Fail e, w') \<Rightarrow> (Fail e, w')
    | (Panic p, w') \<Rightarrow> (Panic p, w')
    | (Exit s, w') \<Rightarrow> (Exit s, w'))"

definition io_map :: "('a outcome \<Rightarrow> 'b outcome) \<Rightarrow> ('w, 'a) io \<Rightarrow> ('w, 'b) io" where
  "io_map g m = (\<lambda>w. case m w of (r, w') \<Rightarrow> (g r, w'))"

abbreviation io_wrap :: "string \<Rightarrow> ('w, 'a) io \<Rightarrow> ('w, 'a) io" where
  "io_wrap msg \<equiv> io_map (wrap_error msg)"

lemma io_bind_Ret_iff [io_inv]:
  "io_bind m f w = (Ret y, w') \<longleftrightarrow> (\<exists>x v. m w = (Ret x, v) \<and> f x v = (Ret y, w'))"
  by (auto simp: io_bind_def split: prod.splits outcome.splits)

lemma io_ret_iff [io_inv]: "io_ret x w = (r, w') \<longleftrightarrow> r = Ret x \<and> w' = w"
  by (auto simp: io_ret_def)

lemma io_lift_iff [io_inv]: "io_lift m w = (r, w') \<longleftrightarrow> m = r \<and> w' = w"
  by (auto simp: io_lift_def)

lemma io_wrap_Ret_iff [io_inv]: "io_wrap msg m w = (Ret x, w') \<longleftrightarrow> m w = (Ret x, w')"
  by (auto simp: io_map_def split: prod.splits)

lemma io_bind_eval [go_eval]:
  "m w = (Ret x, v) \<Longrightarrow> io_bind m f w = f x v"
  "m w = (Fail e, v) \<Longrightarrow> io_bind m f w = (Fail e, v)"
  "m w = (Panic p, v) \<Longrightarrow> io_bind m f w = (Panic p, v)"
  "m w = (Exit s, v) \<Longrightarrow> io_bind m f w = (Exit s, v)"
  by (auto simp: io_bind_def)

lemma io_bind_ret [simp]: "io_bind (io_ret x) f = f x"
  by (auto simp: io_bind_def io_ret_def)

lemma io_bind_lift_Ret [simp]: "io_bind (io_lift (Ret x)) f = f x"
  by (auto simp: io_bind_def io_lift_def)

section \<open>Calls that may not return\<close>

text \<open>A call that waits in a loop may run forever: \<open>None\<close> stands for that.\<close>

type_synonym ('w, 'a) lio = "'w \<Rightarrow> ('a outcome \<times> 'w) option"

definition lio_of :: "('w, 'a) io \<Rightarrow> ('w, 'a) lio" where
  "lio_of m = (\<lambda>w. Some (m w))"

definition lio_bind :: "('w, 'a) lio \<Rightarrow> ('a \<Rightarrow> ('w, 'b) lio) \<Rightarrow> ('w, 'b) lio" where
  "lio_bind m f = (\<lambda>w. case m w of
      None \<Rightarrow> None
    | Some (Ret x, w') \<Rightarrow> f x w'
    | Some (Fail e, w') \<Rightarrow> Some (Fail e, w')
    | Some (Panic p, w') \<Rightarrow> Some (Panic p, w')
    | Some (Exit s, w') \<Rightarrow> Some (Exit s, w'))"

lemma lio_bind_Ret_iff [io_inv]:
  "lio_bind m f w = Some (Ret y, w') \<longleftrightarrow> (\<exists>x v. m w = Some (Ret x, v) \<and> f x v = Some (Ret y, w'))"
  by (auto simp: lio_bind_def split: prod.splits outcome.splits option.splits)

lemma lio_of_iff [io_inv]: "lio_of m w = Some r \<longleftrightarrow> m w = r"
  by (auto simp: lio_of_def)

lemma lio_bind_eval [go_eval]:
  "m w = Some (Ret x, v) \<Longrightarrow> lio_bind m f w = f x v"
  "m w = Some (Fail e, v) \<Longrightarrow> lio_bind m f w = Some (Fail e, v)"
  "m w = None \<Longrightarrow> lio_bind m f w = None"
  by (auto simp: lio_bind_def)

section \<open>Slices\<close>

text \<open>\<open>xs[lo:hi]\<close>; every slice expression of the relayer has \<open>hi\<close> at most the length.\<close>

definition go_slice :: "'a list \<Rightarrow> int \<Rightarrow> int \<Rightarrow> 'a list outcome" where
  "go_slice xs lo hi =
     (if 0 \<le> lo \<and> lo \<le> hi \<and> hi \<le> int (length xs)
      then Ret (take (nat (hi - lo)) (drop (nat lo) xs)) else Panic SliceBounds)"

definition go_index :: "'a list \<Rightarrow> nat \<Rightarrow> 'a outcome" where
  "go_index xs i = (if i < length xs then Ret (xs ! i) else Panic IndexOutOfRange)"

text \<open>The builtin \<open>copy\<close>: the destination keeps its length.\<close>

definition go_copy :: "'a list \<Rightarrow> 'a list \<Rightarrow> 'a list" where
  "go_copy dst src = take (length dst) src @ drop (length src) dst"

lemma length_go_copy [simp]: "length (go_copy dst src) = length dst"
  by (simp add: go_copy_def)

lemma go_copy_same [simp]: "length src = length dst \<Longrightarrow> go_copy dst src = src"
  by (simp add: go_copy_def)

lemma go_slice_Ret_iff:
  "go_slice xs lo hi = Ret ys \<longleftrightarrow>
     0 \<le> lo \<and> lo \<le> hi \<and> hi \<le> int (length xs) \<and> ys = take (nat (hi - lo)) (drop (nat lo) xs)"
  by (auto simp: go_slice_def)

lemma go_slice_append_mid [simp]:
  "go_slice (xs @ ys @ zs) (int (length xs)) (int (length xs) + int (length ys)) = Ret ys"
  by (simp add: go_slice_def)

text \<open>The chunk \<open>xs[i*k:(i+1)*k]\<close> of a concatenation of \<open>k\<close>-element pieces is the piece.\<close>

lemma take_drop_concat:
  "\<forall>x\<in>set xs. length x = k \<Longrightarrow> i < length xs \<Longrightarrow> take k (drop (i * k) (concat xs)) = xs ! i"
proof (induction xs arbitrary: i)
  case (Cons x xs)
  then show ?case by (cases i) auto
qed simp

lemma length_concat_uniform:
  "\<forall>x\<in>set xs. length x = k \<Longrightarrow> length (concat xs) = length xs * k"
  by (induction xs) auto

section \<open>Integers\<close>

text \<open>Signed division and remainder truncate towards zero.\<close>

definition trunc_div :: "int \<Rightarrow> int \<Rightarrow> int" where
  "trunc_div a b = sgn a * sgn b * (\<bar>a\<bar> div \<bar>b\<bar>)"

definition trunc_rem :: "int \<Rightarrow> int \<Rightarrow> int" where
  "trunc_rem a b = a - b * trunc_div a b"

definition go_div :: "i64 \<Rightarrow> i64 \<Rightarrow> i64 outcome" where
  "go_div a b = (if b = 0 then Panic DivideByZero else Ret (word_of_int (trunc_div (sint a) (sint b))))"

definition go_rem :: "i64 \<Rightarrow> i64 \<Rightarrow> i64" where
  "go_rem a b = word_of_int (trunc_rem (sint a) (sint b))"

lemma trunc_div_nonneg: "0 \<le> a \<Longrightarrow> 0 < b \<Longrightarrow> trunc_div a b = a div b"
  by (cases "a = 0") (auto simp: trunc_div_def)

lemma trunc_rem_nonneg: "0 \<le> a \<Longrightarrow> 0 < b \<Longrightarrow> trunc_rem a b = a mod b"
  by (simp add: trunc_rem_def trunc_div_nonneg minus_mult_div_eq_mod)

lemma trunc_rem_neg: "a \<le> 0 \<Longrightarrow> 0 < b \<Longrightarrow> trunc_rem a b \<le> 0"
proof -
  assume "a \<le> 0" and "0 < b"
  have "b * (- a div b) \<le> - a"
    using \<open>0 < b\<close> by (simp add: minus_mod_eq_mult_div [symmetric])
  then show ?thesis
    using \<open>a \<le> 0\<close> \<open>0 < b\<close> by (cases "a = 0") (auto simp: trunc_rem_def trunc_div_def)
qed

lemma sint_small: "- (2 ^ 63) \<le> k \<Longrightarrow> k < 2 ^ 63 \<Longrightarrow> sint (word_of_int k :: i64) = k"
  using signed_take_bit_int_eq_self [of 63 k] by (simp add: sint_sbintrunc')

lemma sint_of_small_word: "uint (g :: u64) < 2 ^ 63 \<Longrightarrow> sint g = uint g"
  using sint_small [of "uint g"] by (simp add: order.trans [OF _ uint_ge_0])

lemma go_div_pos:
  assumes "go_div a b = Ret c" and "0 < sint b"
  shows "sint c = trunc_div (sint a) (sint b)"
proof -
  have ab: "\<bar>sint a\<bar> div sint b \<le> \<bar>sint a\<bar>" "0 \<le> \<bar>sint a\<bar> div sint b"
    using assms(2) zdiv_mono2 [of "\<bar>sint a\<bar>" 1 "sint b"] pos_imp_zdiv_nonneg_iff [of "sint b" "\<bar>sint a\<bar>"]
    by simp_all
  have a: "- (2 ^ 63) \<le> sint a" "sint a < 2 ^ 63"
    using sint_ge [of a] sint_lt [of a] by simp_all
  have "trunc_div (sint a) (sint b) = sgn (sint a) * (\<bar>sint a\<bar> div sint b)"
    using assms(2) by (simp add: trunc_div_def)
  then have "- (2 ^ 63) \<le> trunc_div (sint a) (sint b)" "trunc_div (sint a) (sint b) < 2 ^ 63"
    using a ab by (auto simp: sgn_if)
  then show ?thesis
    using assms by (auto simp: go_div_def sint_small split: if_splits)
qed

section \<open>Maps\<close>

text \<open>
  A Go map is an association list with distinct keys; iteration order is not specified by the
  language, so every \<open>range\<close> over a map takes the order as a parameter, a function that permutes
  the entries.
\<close>

type_synonym ('k, 'v) gomap = "('k \<times> 'v) list"

definition wf_map :: "('k, 'v) gomap \<Rightarrow> bool" where
  "wf_map m \<longleftrightarrow> distinct (map fst m)"

definition range_order :: "(('k, 'v) gomap \<Rightarrow> ('k, 'v) gomap) \<Rightarrow> bool" where
  "range_order ord \<longleftrightarrow> (\<forall>m. mset (ord m) = mset m)"

definition go_put :: "'k \<Rightarrow> 'v \<Rightarrow> ('k, 'v) gomap \<Rightarrow> ('k, 'v) gomap" where
  "go_put k v m = AList.update k v m"

lemma wf_map_Nil [simp]: "wf_map []"
  by (simp add: wf_map_def)

lemma wf_map_put [simp]: "wf_map m \<Longrightarrow> wf_map (go_put k v m)"
  by (simp add: wf_map_def go_put_def distinct_update)

lemma map_of_put [simp]: "map_of (go_put k v m) = (map_of m)(k \<mapsto> v)"
  by (simp add: go_put_def update_conv')

lemma keys_put: "fst ` set (go_put k v m) = insert k (fst ` set m)"
  by (simp add: go_put_def dom_update)

lemma length_put: "length (go_put k v m) = (if k \<in> fst ` set m then length m else Suc (length m))"
  by (induction m) (auto simp: go_put_def)

lemma range_order_set: "range_order ord \<Longrightarrow> set (ord m) = set m"
  by (metis range_order_def set_mset_mset)

lemma range_order_length: "range_order ord \<Longrightarrow> length (ord m) = length m"
  by (metis range_order_def size_mset)

lemma range_order_single: "range_order ord \<Longrightarrow> ord [x] = [x]"
proof -
  assume "range_order ord"
  then have "mset (ord [x]) = mset [x]" by (simp only: range_order_def)
  then show ?thesis by simp
qed

lemma range_order_wf: "range_order ord \<Longrightarrow> wf_map m \<Longrightarrow> wf_map (ord m)"
proof -
  assume "range_order ord" and "wf_map m"
  then have "mset (map fst (ord m)) = mset (map fst m)"
    by (simp add: range_order_def)
  then show ?thesis
    using \<open>wf_map m\<close> mset_eq_imp_distinct_iff unfolding wf_map_def by blast
qed

lemma range_order_map_of:
  "range_order ord \<Longrightarrow> wf_map m \<Longrightarrow> map_of (ord m) = map_of m"
  using range_order_set [of ord m] range_order_wf [of ord m] map_of_inject_set [of "ord m" m]
  by (simp add: wf_map_def)

lemma wf_map_length: "wf_map m \<Longrightarrow> length m = card (fst ` set m)"
  by (metis distinct_card length_map list.set_map wf_map_def)

lemma map_of_rev_distinct: "distinct (map fst xs) \<Longrightarrow> map_of (rev xs) = map_of xs"
  using map_of_inject_set [of "rev xs" xs] by (simp add: rev_map [symmetric])

lemma map_of_perm:
  assumes "mset xs = mset ys" and "distinct (map fst xs)"
  shows "map_of xs = map_of ys"
proof -
  have "distinct (map fst ys)"
    using assms mset_eq_imp_distinct_iff [of "map fst xs" "map fst ys"] by simp
  then show ?thesis
    using assms map_of_inject_set [of xs ys] mset_eq_setD by blast
qed

text \<open>Running an operation on a state for a list of arguments, keeping the last state.\<close>

definition run_with :: "('x \<Rightarrow> 's \<Rightarrow> 'r \<times> 's) \<Rightarrow> 'x list \<Rightarrow> 's \<Rightarrow> 's" where
  "run_with op xs s = fold (\<lambda>x s. snd (op x s)) xs s"

lemma run_with_simps [simp]:
  "run_with op [] s = s" "run_with op (x # xs) s = run_with op xs (snd (op x s))"
  by (simp_all add: run_with_def)

section \<open>Invariants of step relations\<close>

locale invariant_system =
  fixes start :: "'s \<Rightarrow> bool"
    and step :: "'s \<Rightarrow> 's \<Rightarrow> bool"
    and inv :: "'s \<Rightarrow> bool"
  assumes inv_start: "start s \<Longrightarrow> inv s"
    and inv_step: "inv s \<Longrightarrow> step s t \<Longrightarrow> inv t"
begin

lemma inv_steps: "step\<^sup>*\<^sup>* s t \<Longrightarrow> inv s \<Longrightarrow> inv t"
  by (induction rule: rtranclp_induct) (auto intro: inv_step)

lemma reachable_inv: "start s \<Longrightarrow> step\<^sup>*\<^sup>* s t \<Longrightarrow> inv t"
  using inv_start inv_steps by blast

end

end
