(* ===== verification/Ethereum.thy ===== *)
theory Ethereum
  imports Prelude
begin

text \<open>
  The part of go-ethereum and of the Go runtime that the relayer calls. None of it is under
  \<open>src/\<close>, so every operation is a field of a record that the model takes as an argument, and what
  a proof relies on is a named predicate (\<open>codec_laws\<close>, \<open>crypto_laws\<close>) that states the documented
  behaviour. The \<open>sample_\<close> instances at the end show that the laws can be met and serve the
  concrete examples of the other theories.
\<close>

section \<open>Headers and blocks\<close>

record header =
  hdrParentHash :: hash
  hdrUncleHash :: hash
  hdrCoinbase :: address
  hdrRoot :: hash
  hdrTxHash :: hash
  hdrReceiptHash :: hash
  hdrBloom :: bytes
  hdrDifficulty :: int
  hdrNumber :: int
  hdrGasLimit :: u64
  hdrGasUsed :: u64
  hdrTime :: u64
  hdrExtra :: bytes
  hdrMixDigest :: hash
  hdrNonce :: bytes

text \<open>A block through the methods the relayer calls on it: \<open>Header()\<close>, \<open>Coinbase()\<close>, \<open>Hash()\<close>.\<close>

record block =
  blkHeader :: header
  blkCoinbase :: address
  blkHash :: hash

section \<open>Library operations\<close>

text \<open>The values that the relayer puts into the list that it RLP-encodes.\<close>

datatype rlp_val =
    RlpBig int
  | RlpHash hash
  | RlpAddress address
  | RlpBloom bytes
  | RlpUint u64
  | RlpBytes bytes
  | RlpNonce bytes

record rlp_lib =
  rlpEncode :: "rlp_val list \<Rightarrow> bytes outcome"
  rlpEncodeHeader :: "header \<Rightarrow> bytes outcome"
  rlpEncodeUint :: "u64 \<Rightarrow> bytes outcome"

record codec_lib =
  bytesToAddress :: "bytes \<Rightarrow> address"
  addressBytes :: "address \<Rightarrow> bytes"
  bytesToHash :: "bytes \<Rightarrow> hash"
  hashBytes :: "hash \<Rightarrow> bytes"
  hexToAddress :: "string \<Rightarrow> address"

record crypto_lib =
  keccak256 :: "bytes \<Rightarrow> bytes"
  ecrecover :: "bytes \<Rightarrow> bytes \<Rightarrow> bytes outcome"
  ecSign :: "bytes \<Rightarrow> priv_key \<Rightarrow> bytes outcome"
  keyToAddress :: "priv_key \<Rightarrow> address"
  hexToECDSA :: "string \<Rightarrow> priv_key outcome"

text \<open>An \<open>ethclient.Client\<close>: every call is an RPC that reads and changes the outside world.\<close>

record 'w eth_client =
  ethBlockNumber :: "('w, u64) io"
  ethChainID :: "('w, int) io"
  ethBlockByNumber :: "int \<Rightarrow> ('w, block) io"
  ethHasReceipt :: "hash \<Rightarrow> 'w \<Rightarrow> bool \<times> 'w"

text \<open>The runtime's clock: \<open>time.Sleep\<close> in seconds and \<open>time.Now().Unix()\<close>.\<close>

record 'w runtime =
  rtSleep :: "nat \<Rightarrow> 'w \<Rightarrow> 'w"
  rtNow :: "'w \<Rightarrow> i64 \<times> 'w"

text \<open>A transaction through the methods the relayer calls on it, the options it is created with, and
  \<open>types.SignTx\<close> under an EIP-155 signer for a chain.\<close>

record transaction =
  tx_hash :: hash
  tx_gas :: u64

record transact_opts =
  optFrom :: address
  optSigner :: "(address \<Rightarrow> transaction \<Rightarrow> transaction outcome) option"
  optNoSend :: bool
  optGasLimit :: u64

definition new_transact_opts :: transact_opts where
  "new_transact_opts = \<lparr>optFrom = zero_address, optSigner = None, optNoSend = False, optGasLimit = 0\<rparr>"

type_synonym sign_tx = "int \<Rightarrow> priv_key \<Rightarrow> transaction \<Rightarrow> transaction outcome"

text \<open>A Go value that is passed as an \<open>interface{}\<close> to the ABI encoder or comes back from it.\<close>

datatype go_val =
    VBool bool
  | VUint32 u32
  | VUint64 u64
  | VBig int
  | VAddress address
  | VAddresses "address list"
  | VBytes bytes
  | VBytes32 hash
  | VBytesList "bytes list"

text \<open>The ABI package: \<open>abi.NewType\<close>, the \<open>ID\<close> of \<open>abi.NewMethod\<close> and \<open>Arguments.Pack\<close>; \<open>'t\<close> is
  \<open>abi.Type\<close>.\<close>

record 't abi_argument =
  argType :: 't
  argName :: string

record 't abi_lib =
  abiNewType :: "string \<Rightarrow> string \<Rightarrow> 't outcome"
  abiMethodID :: "string \<Rightarrow> string \<Rightarrow> 't abi_argument list \<Rightarrow> bytes"
  abiPack :: "'t abi_argument list \<Rightarrow> go_val list \<Rightarrow> bytes outcome"

text \<open>\<open>client.BlockByNumber(ctx, big.NewInt(int64(i)))\<close>: the cast is to a signed integer.\<close>

definition fetch_block :: "'w eth_client \<Rightarrow> u64 \<Rightarrow> ('w, block) io" where
  "fetch_block client i = ethBlockByNumber client (sint i)"

section \<open>Documented behaviour\<close>

definition codec_laws :: "codec_lib \<Rightarrow> bool" where
  "codec_laws cd \<longleftrightarrow>
     (\<forall>a. length a = 20 \<longrightarrow> length (addressBytes cd a) = 20 \<and> bytesToAddress cd (addressBytes cd a) = a) \<and>
     (\<forall>h. length h = 32 \<longrightarrow> length (hashBytes cd h) = 32 \<and> bytesToHash cd (hashBytes cd h) = h)"

lemma codec_addressD:
  "codec_laws cd \<Longrightarrow> length a = 20 \<Longrightarrow> length (addressBytes cd a) = 20"
  "codec_laws cd \<Longrightarrow> length a = 20 \<Longrightarrow> bytesToAddress cd (addressBytes cd a) = a"
  by (auto simp: codec_laws_def)

lemma codec_hashD:
  "codec_laws cd \<Longrightarrow> length h = 32 \<Longrightarrow> bytesToHash cd (hashBytes cd h) = h"
  by (auto simp: codec_laws_def)

text \<open>
  \<open>Ecrecover\<close> inverts \<open>Sign\<close>: on the digest that was signed it returns the uncompressed public
  key \<open>pub k\<close> of the signing key, and an account's address is the tail of the hash of its key
  without the leading format byte.
\<close>

definition crypto_laws :: "crypto_lib \<Rightarrow> (priv_key \<Rightarrow> bytes) \<Rightarrow> bool" where
  "crypto_laws C pub \<longleftrightarrow>
     (\<forall>b. length (keccak256 C b) = 32) \<and>
     (\<forall>k. length (pub k) = 65 \<and> keyToAddress C k = drop 12 (keccak256 C (drop 1 (pub k)))) \<and>
     (\<forall>d k s. ecSign C d k = Ret s \<longrightarrow> length s = 65 \<and> ecrecover C d s = Ret (pub k))"

lemma crypto_lawsD:
  assumes "crypto_laws C pub"
  shows "length (keccak256 C b) = 32" and "length (pub k) = 65"
    and "keyToAddress C k = drop 12 (keccak256 C (drop 1 (pub k)))"
    and "ecSign C d k = Ret s \<Longrightarrow> length s = 65"
    and "ecSign C d k = Ret s \<Longrightarrow> ecrecover C d s = Ret (pub k)"
  using assms by (auto simp: crypto_laws_def)

section \<open>Sample instances\<close>

definition sample_fit :: "nat \<Rightarrow> bytes \<Rightarrow> bytes" where
  "sample_fit n b = replicate (n - length b) 0 @ drop (length b - n) b"

definition sample_codec :: codec_lib where
  "sample_codec = \<lparr>bytesToAddress = sample_fit 20, addressBytes = id,
     bytesToHash = sample_fit 32, hashBytes = id,
     hexToAddress = (\<lambda>s. replicate 20 (of_nat (length s)))\<rparr>"

definition sample_pub :: "priv_key \<Rightarrow> bytes" where
  "sample_pub k = replicate 64 0 @ [word_of_int k]"

definition sample_keccak :: "bytes \<Rightarrow> bytes" where
  "sample_keccak b = sample_fit 32 b"

definition sample_crypto :: crypto_lib where
  "sample_crypto = \<lparr>keccak256 = sample_keccak, ecrecover = (\<lambda>d s. Ret s),
     ecSign = (\<lambda>d k. Ret (sample_pub k)),
     keyToAddress = (\<lambda>k. drop 12 (sample_keccak (drop 1 (sample_pub k)))),
     hexToECDSA = (\<lambda>s. if s = [] then Fail (LibError ''invalid length'') else Ret (int (length s)))\<rparr>"

definition sample_rlp :: rlp_lib where
  "sample_rlp = \<lparr>rlpEncode = (\<lambda>vs. Ret (replicate (length vs) 1)),
     rlpEncodeHeader = (\<lambda>h. Ret [word_of_int (hdrNumber h)]),
     rlpEncodeUint = (\<lambda>i. Ret [ucast i])\<rparr>"

fun sample_pack :: "go_val \<Rightarrow> bytes" where
  "sample_pack (VBig i) = [word_of_int i]"
| "sample_pack (VBytesList bs) = concat bs"
| "sample_pack v = []"

definition sample_abi :: "string abi_lib" where
  "sample_abi = \<lparr>abiNewType = (\<lambda>t i. Ret t), abiMethodID = (\<lambda>name raw input. [248, 116, 66, 30]),
     abiPack = (\<lambda>input args. if length input = length args then Ret (concat (map sample_pack args))
                         else Fail (LibError ''argument count mismatch''))\<rparr>"

lemma sample_abi_simps [simp]:
  "abiNewType sample_abi t i = Ret t"
  "abiMethodID sample_abi name raw input = [248, 116, 66, 30]"
  "length input = length args \<Longrightarrow> abiPack sample_abi input args = Ret (concat (map sample_pack args))"
  by (simp_all add: sample_abi_def)

text \<open>Block \<open>n\<close> of the sample chain, sealed by \<open>signer\<close> and listing \<open>vals\<close> as the validators of
  its epoch: under \<open>sample_crypto\<close> the seal recovers to \<open>sample_address signer\<close>.\<close>

definition sample_address :: "int \<Rightarrow> address" where
  "sample_address k = replicate 19 0 @ [word_of_int k]"

definition sample_header :: "int \<Rightarrow> int list \<Rightarrow> int \<Rightarrow> header" where
  "sample_header n vals signer = \<lparr>hdrParentHash = replicate 32 0, hdrUncleHash = replicate 32 0,
     hdrCoinbase = sample_address signer, hdrRoot = replicate 32 0, hdrTxHash = replicate 32 0,
     hdrReceiptHash = replicate 32 0, hdrBloom = [], hdrDifficulty = 2, hdrNumber = n,
     hdrGasLimit = 0, hdrGasUsed = 0, hdrTime = 0,
     hdrExtra = replicate 32 0 @ concat (map sample_address vals) @ sample_pub signer,
     hdrMixDigest = replicate 32 0, hdrNonce = replicate 8 0\<rparr>"

definition sample_block :: "int \<Rightarrow> int list \<Rightarrow> int \<Rightarrow> block" where
  "sample_block n vals signer = \<lparr>blkHeader = sample_header n vals signer,
     blkCoinbase = sample_address signer, blkHash = replicate 31 0 @ [word_of_int n]\<rparr>"

lemma length_sample_fit [simp]: "length (sample_fit n b) = n"
  by (simp add: sample_fit_def)

lemma sample_fit_id [simp]: "length b = n \<Longrightarrow> sample_fit n b = b"
  by (simp add: sample_fit_def)

lemma sample_codec_laws [simp]: "codec_laws sample_codec"
  by (auto simp: codec_laws_def sample_codec_def)

lemma sample_crypto_laws [simp]: "crypto_laws sample_crypto sample_pub"
  by (auto simp: crypto_laws_def sample_crypto_def sample_pub_def sample_keccak_def)

lemma sample_codec_simps [simp]:
  "bytesToAddress sample_codec = sample_fit 20" "addressBytes sample_codec = id"
  "bytesToHash sample_codec = sample_fit 32" "hashBytes sample_codec = id"
  by (simp_all add: sample_codec_def)

lemma sample_crypto_simps [simp]:
  "keccak256 sample_crypto = sample_fit 32" "ecrecover sample_crypto d s = Ret s"
  "ecSign sample_crypto d k = Ret (sample_pub k)"
  by (simp_all add: sample_crypto_def sample_keccak_def fun_eq_iff)

lemma length_sample_pub [simp]: "length (sample_pub k) = 65"
  by (simp add: sample_pub_def)

lemma sample_rlp_simps [simp]:
  "rlpEncode sample_rlp vs = Ret (replicate (length vs) 1)"
  "rlpEncodeHeader sample_rlp h = Ret [word_of_int (hdrNumber h)]"
  "rlpEncodeUint sample_rlp i = Ret [ucast i]"
  by (simp_all add: sample_rlp_def)

lemma length_sample_address [simp]: "length (sample_address k) = 20"
  by (simp add: sample_address_def)

lemma sample_address_eq [simp]:
  "sample_address j = sample_address k \<longleftrightarrow> (word_of_int j :: u8) = word_of_int k"
  by (simp add: sample_address_def)

end
