(* ===== verification/GoFloat.thy ===== *)
theory GoFloat
  imports Complex_Main Prelude
begin

text \<open>
  Go's \<open>float64\<close> as far as the relayer uses it: conversion from an integer, division, and
  \<open>math.Floor\<close>. A finite value is a rational; every operation rounds its exact result to 53
  significant bits, to nearest with ties to even. The values that occur lie between
  \<open>2 powi -29\<close> and \<open>2 powi 63\<close> or are 0, so that neither overflow nor subnormal numbers are
  modelled. The result used outside is \<open>floor_f64_divs\<close>: repeated division by small constants,
  then floor, is integer division by their product for all arguments below \<open>2 ^ 50\<close>.
\<close>

section \<open>Rounding\<close>

fun ilog2 :: "nat \<Rightarrow> nat" where
  "ilog2 n = (if n < 2 then 0 else Suc (ilog2 (n div 2)))"

declare ilog2.simps [simp del]

definition f64_exp :: "rat \<Rightarrow> int" where
  "f64_exp x = (if 1 \<le> x then int (ilog2 (nat \<lfloor>x\<rfloor>)) else - int (Suc (ilog2 (nat \<lceil>1 / x\<rceil> - 1))))"

definition round_half_even :: "rat \<Rightarrow> int" where
  "round_half_even x =
     (let f = \<lfloor>x\<rfloor>; d = x - of_int f in
      if d < 1 / 2 then f else if d > 1 / 2 then f + 1 else if even f then f else f + 1)"

definition f64_ulp :: "rat \<Rightarrow> rat" where
  "f64_ulp x = 2 powi (f64_exp \<bar>x\<bar> - 52)"

definition f64_round :: "rat \<Rightarrow> rat" where
  "f64_round x = (if x = 0 then 0 else of_int (round_half_even (x / f64_ulp x)) * f64_ulp x)"

definition f64_of_i64 :: "i64 \<Rightarrow> rat" where
  "f64_of_i64 i = f64_round (of_int (sint i))"

definition f64_div :: "rat \<Rightarrow> rat \<Rightarrow> rat" where
  "f64_div x y = f64_round (x / y)"

definition f64_divs :: "rat \<Rightarrow> nat list \<Rightarrow> rat" where
  "f64_divs x cs = foldl (\<lambda>y c. f64_div y (of_nat c)) x cs"

lemma f64_divs_simps [simp]:
  "f64_divs x [] = x" "f64_divs x (c # cs) = f64_divs (f64_div x (of_nat c)) cs"
  by (simp_all add: f64_divs_def)

section \<open>Bounds\<close>

lemma ilog2_bounds: "0 < n \<Longrightarrow> 2 ^ ilog2 n \<le> n \<and> n < 2 ^ Suc (ilog2 n)"
proof (induction n rule: ilog2.induct)
  case (1 n)
  show ?case
  proof (cases "n < 2")
    case True
    with "1.prems" show ?thesis by (simp add: ilog2.simps [of n])
  next
    case False
    then have "2 ^ ilog2 (n div 2) \<le> n div 2 \<and> n div 2 < 2 ^ Suc (ilog2 (n div 2))"
      using "1.IH" by simp
    with False show ?thesis by (auto simp: ilog2.simps [of n])
  qed
qed

lemma f64_exp_bounds_ge1:
  assumes "1 \<le> (x::rat)"
  shows "2 powi f64_exp x \<le> x \<and> x < 2 powi (f64_exp x + 1)"
proof -
  let ?n = "nat \<lfloor>x\<rfloor>"
  have n: "0 < ?n" "of_nat ?n \<le> x" "x < of_nat ?n + 1"
    using assms floor_less_iff [of x "\<lfloor>x\<rfloor> + 1"] by (auto simp: le_floor_iff)
  have lo: "(2::rat) ^ ilog2 ?n \<le> of_nat ?n"
    using ilog2_bounds [OF n(1)] by (metis of_nat_le_iff of_nat_numeral of_nat_power)
  have "Suc ?n \<le> 2 ^ Suc (ilog2 ?n)"
    using ilog2_bounds [OF n(1)] by simp
  then have "(of_nat (Suc ?n) :: rat) \<le> of_nat (2 ^ Suc (ilog2 ?n))"
    by (simp only: of_nat_le_iff)
  then have hi: "of_nat ?n + 1 \<le> (2::rat) ^ Suc (ilog2 ?n)"
    by simp
  have e: "f64_exp x = int (ilog2 ?n)" "f64_exp x + 1 = int (Suc (ilog2 ?n))"
    using assms by (simp_all add: f64_exp_def)
  have "2 powi f64_exp x \<le> x"
    unfolding e(1) power_int_of_nat using lo n by linarith
  moreover have "x < 2 powi (f64_exp x + 1)"
    unfolding e(2) power_int_of_nat using hi n by linarith
  ultimately show ?thesis ..
qed

lemma f64_exp_bounds_lt1:
  assumes "0 < (x::rat)" and "x < 1"
  shows "2 powi f64_exp x \<le> x \<and> x < 2 powi (f64_exp x + 1)"
proof -
  let ?m = "nat \<lceil>1 / x\<rceil>"
  let ?k = "ilog2 (?m - 1)"
  have "1 < 1 / x" using assms by simp
  then have m: "2 \<le> ?m" "1 / x \<le> of_nat ?m" "of_nat ?m < 1 / x + 1"
    by (auto simp: less_ceiling_iff nat_le_iff) linarith+
  have "0 < ?m - 1" using m(1) by arith
  then have "2 ^ ?k \<le> ?m - 1" "?m - 1 < 2 ^ Suc ?k"
    using ilog2_bounds by blast+
  then have "2 ^ ?k + 1 \<le> ?m" "?m \<le> 2 ^ Suc ?k"
    using m(1) by linarith+
  then have "(of_nat (2 ^ ?k + 1) :: rat) \<le> of_nat ?m" "(of_nat ?m :: rat) \<le> of_nat (2 ^ Suc ?k)"
    by (simp_all only: of_nat_le_iff)
  then have lo: "(2::rat) ^ ?k < 1 / x" and hi: "1 / x \<le> (2::rat) ^ Suc ?k"
    using m unfolding of_nat_add of_nat_power of_nat_numeral of_nat_1 by linarith+
  have e: "f64_exp x = - int (Suc ?k)" "f64_exp x + 1 = - int ?k"
    using assms by (simp_all add: f64_exp_def)
  have "2 powi f64_exp x \<le> x"
    unfolding e(1) power_int_minus power_int_of_nat using hi assms by (simp add: field_simps)
  moreover have "x < 2 powi (f64_exp x + 1)"
    unfolding e(2) power_int_minus power_int_of_nat using lo assms by (simp add: field_simps)
  ultimately show ?thesis ..
qed

lemma f64_exp_bounds: "0 < x \<Longrightarrow> 2 powi f64_exp x \<le> x \<and> x < 2 powi (f64_exp x + 1)"
  using f64_exp_bounds_ge1 [of x] f64_exp_bounds_lt1 [of x] by linarith

lemma f64_ulp_pos [simp]: "0 < f64_ulp x"
  by (simp add: f64_ulp_def zero_less_power_int)

lemma f64_ulp_le: "0 < x \<Longrightarrow> f64_ulp x \<le> x / 2 ^ 52"
  using f64_exp_bounds [of x] by (simp add: f64_ulp_def power_int_diff field_simps)

lemma round_half_even_error: "of_int (round_half_even x) \<le> x + 1 / 2"
  by (simp add: round_half_even_def Let_def) linarith

lemma round_half_even_ge: "of_int k \<le> x \<Longrightarrow> k \<le> round_half_even x"
proof -
  assume "of_int k \<le> x"
  then have "k \<le> \<lfloor>x\<rfloor>" by (simp add: le_floor_iff)
  then show ?thesis by (auto simp: round_half_even_def Let_def)
qed

lemma round_half_even_int [simp]: "round_half_even (of_int k) = k"
  by (simp add: round_half_even_def)

lemma f64_round_nonneg: "0 \<le> x \<Longrightarrow> 0 \<le> f64_round x"
  using round_half_even_ge [of 0 "x / f64_ulp x"] by (auto simp: f64_round_def less_imp_le)

lemma f64_round_nonpos: "x \<le> 0 \<Longrightarrow> f64_round x \<le> 0"
proof -
  assume "x \<le> 0"
  then have le: "x / f64_ulp x \<le> 0"
    by (simp add: divide_nonpos_pos)
  have "round_half_even y \<le> 0" if "y \<le> 0" for y
    using that by (cases "\<lfloor>y\<rfloor> = 0") (auto simp: round_half_even_def Let_def floor_eq_iff)
  with le show ?thesis
    by (simp add: f64_round_def mult_nonpos_nonneg less_imp_le)
qed

lemma f64_round_upper:
  assumes "0 \<le> x"
  shows "f64_round x \<le> x * (1 + 1 / 2 ^ 53)"
proof (cases "x = 0")
  case True
  then show ?thesis by (simp add: f64_round_def)
next
  case False
  have "f64_round x \<le> (x / f64_ulp x + 1 / 2) * f64_ulp x"
    using False round_half_even_error [of "x / f64_ulp x"]
    by (simp add: f64_round_def mult_right_mono less_imp_le)
  also have "\<dots> = x + f64_ulp x / 2"
    using less_imp_neq [OF f64_ulp_pos [of x]] by (simp add: field_simps)
  also have "\<dots> \<le> x + x / 2 ^ 53"
    using f64_ulp_le [of x] False assms by simp
  finally show ?thesis by (simp add: algebra_simps)
qed

text \<open>An integer up to \<open>2 ^ 53\<close> is a multiple of the spacing at every larger-or-equal value below
  the next range, so rounding never crosses it.\<close>

lemma int_div_ulp:
  assumes "0 < x" and "f64_exp x \<le> 52"
  shows "\<exists>k. (of_nat q :: rat) / f64_ulp x = of_int k"
proof -
  have "(1::rat) / f64_ulp x = 2 powi (52 - f64_exp x)"
    using assms by (simp add: f64_ulp_def power_int_diff)
  also have "\<dots> = of_int (2 ^ nat (52 - f64_exp x))"
    using assms by (simp add: power_int_def)
  finally have "(of_nat q :: rat) / f64_ulp x = of_int (int q * 2 ^ nat (52 - f64_exp x))"
    by (metis divide_inverse mult.comm_neutral mult.left_neutral of_int_mult of_int_of_nat_eq times_divide_eq_right)
  then show ?thesis by blast
qed

lemma f64_round_lower:
  assumes "of_nat q \<le> x" and "q \<le> 2 ^ 53"
  shows "of_nat q \<le> f64_round x"
proof (cases "q = 0 \<or> x = 0")
  case True
  with assms f64_round_nonneg [of x] show ?thesis by (auto simp: f64_round_def)
next
  case False
  have pos: "0 < x"
    using False assms(1) of_nat_0_le_iff [of q, where 'a = rat] by linarith
  have mono: "r * f64_ulp x \<le> f64_round x" if "r \<le> x / f64_ulp x" and "r = of_int k" for r k
    using round_half_even_ge [of k "x / f64_ulp x"] that pos
    by (simp add: f64_round_def mult_right_mono less_imp_le)
  show ?thesis
  proof (cases "f64_exp x \<le> 52")
    case True
    then obtain k where "(of_nat q :: rat) / f64_ulp x = of_int k"
      using int_div_ulp [OF pos] by blast
    moreover have "of_nat q / f64_ulp x \<le> x / f64_ulp x"
      using assms(1) by (simp add: divide_right_mono less_imp_le)
    ultimately have "(of_nat q / f64_ulp x) * f64_ulp x \<le> f64_round x"
      by (intro mono)
    then show ?thesis using less_imp_neq [OF f64_ulp_pos [of x]] by simp
  next
    case False
    have "(2::rat) ^ 53 = 2 powi 53" by simp
    also have "\<dots> \<le> 2 powi f64_exp x"
      using False by (intro power_int_increasing) auto
    also have "\<dots> = 2 ^ 52 * f64_ulp x"
      using pos by (simp add: f64_ulp_def power_int_diff)
    also have "\<dots> \<le> f64_round x"
    proof (rule mono [where k = "2 ^ 52"])
      show "2 ^ 52 \<le> x / f64_ulp x"
        using f64_ulp_le [OF pos] by (simp add: field_simps)
    qed simp
    finally have "(2::rat) ^ 53 \<le> f64_round x" .
    moreover have "(of_nat q :: rat) \<le> 2 ^ 53"
      using assms(2) by (metis of_nat_le_iff of_nat_numeral of_nat_power)
    ultimately show ?thesis by linarith
  qed
qed

lemma f64_round_nat:
  assumes "q < 2 ^ 53"
  shows "f64_round (of_nat q) = of_nat q"
proof (cases "q = 0")
  case True
  then show ?thesis by (simp add: f64_round_def)
next
  case False
  let ?x = "of_nat q :: rat"
  have pos: "0 < ?x" using False by simp
  have "2 powi f64_exp ?x < (2::rat) powi 53"
    using f64_exp_bounds [OF pos] assms by (simp add: order_le_less_trans)
  then have "f64_exp ?x \<le> 52"
    using power_int_increasing [of 53 "f64_exp ?x" "2::rat"] by fastforce
  then obtain k where k: "?x / f64_ulp ?x = of_int k"
    using int_div_ulp [OF pos] by blast
  have "f64_round ?x = (?x / f64_ulp ?x) * f64_ulp ?x"
    using False by (simp add: f64_round_def k)
  then show ?thesis using less_imp_neq [OF f64_ulp_pos [of ?x]] by simp
qed

section \<open>Repeated division\<close>

lemma f64_divs_lower:
  assumes "of_nat (q * prod_list cs) \<le> x" and "q * prod_list cs \<le> 2 ^ 53" and "0 \<notin> set cs"
  shows "of_nat q \<le> f64_divs x cs"
  using assms
proof (induction cs arbitrary: x)
  case (Cons c cs)
  have c: "0 < c" using Cons.prems(3) by auto
  have "of_nat (q * prod_list cs) \<le> x / of_nat c"
    using Cons.prems(1) c by (simp add: field_simps)
  moreover have le: "q * prod_list cs \<le> 2 ^ 53"
    using Cons.prems(2) c by (simp add: algebra_simps)
      (metis le_trans mult.commute mult.left_commute mult_le_mono1 nat_mult_1 Suc_leI One_nat_def)
  ultimately have "of_nat (q * prod_list cs) \<le> f64_div x (of_nat c)"
    unfolding f64_div_def by (rule f64_round_lower)
  then show ?case
    using Cons.IH [of "f64_div x (of_nat c)"] le Cons.prems(3) by simp
qed simp

lemma f64_divs_upper:
  assumes "0 \<le> x" and "0 \<notin> set cs"
  shows "f64_divs x cs \<le> x / of_nat (prod_list cs) * (1 + 1 / 2 ^ 53) ^ length cs"
  using assms
proof (induction cs arbitrary: x)
  case (Cons c cs)
  let ?u = "1 + 1 / 2 ^ 53 :: rat"
  have c: "0 < (of_nat c :: rat)" using Cons.prems(2) by auto
  have p: "0 \<le> (of_nat (prod_list cs) :: rat)" by simp
  have y: "0 \<le> f64_div x (of_nat c)" "f64_div x (of_nat c) \<le> x / of_nat c * ?u"
    using f64_round_nonneg f64_round_upper [of "x / of_nat c"] Cons.prems(1) c
    by (auto simp: f64_div_def)
  have "f64_divs x (c # cs) \<le> f64_div x (of_nat c) / of_nat (prod_list cs) * ?u ^ length cs"
    using Cons.IH [OF y(1)] Cons.prems(2) by simp
  also have "\<dots> \<le> (x / of_nat c * ?u) / of_nat (prod_list cs) * ?u ^ length cs"
    using y(2) p by (intro mult_right_mono divide_right_mono) auto
  finally show ?case
    by (simp add: field_simps)
qed simp

lemma floor_f64_divs:
  assumes "n < 2 ^ 50" and "0 \<notin> set cs" and "length cs \<le> 6" and "prod_list cs \<le> 2 ^ 28"
  shows "\<lfloor>f64_divs (of_nat n) cs\<rfloor> = int (n div prod_list cs)"
proof -
  let ?P = "prod_list cs" and ?q = "n div prod_list cs" and ?u = "1 + 1 / 2 ^ 53 :: rat"
  have P: "0 < ?P" using assms(2) by (induction cs) auto
  have le: "?q * ?P \<le> n" by simp
  have lower: "of_nat ?q \<le> f64_divs (of_nat n) cs"
  proof (rule f64_divs_lower)
    show "of_nat (?q * ?P) \<le> (of_nat n :: rat)"
      using le by (simp only: of_nat_le_iff)
    show "?q * ?P \<le> 2 ^ 53"
      by (rule le_trans [OF le]) (use assms(1) in simp)
  qed (rule assms(2))
  have "?u ^ length cs \<le> ?u ^ 6"
    using assms(3) by (intro power_increasing) auto
  also have "\<dots> \<le> 1 + 7 / 2 ^ 53" by (simp add: eval_nat_numeral)
  finally have u: "?u ^ length cs \<le> 1 + 7 / 2 ^ 53" .
  have "n < (?q + 1) * ?P"
    using P by (metis Suc_eq_plus1 dividend_less_div_times mult.commute mult_Suc)
  then have "n + 1 \<le> (?q + 1) * ?P" by simp
  then have top: "(of_nat n :: rat) + 1 \<le> (of_nat ?q + 1) * of_nat ?P"
    by (metis of_nat_1 of_nat_add of_nat_le_iff of_nat_mult)
  have "(of_nat n :: rat) < 2 ^ 50"
    using assms(1) by (metis of_nat_less_iff of_nat_numeral of_nat_power)
  then have small: "of_nat n * (1 + 7 / 2 ^ 53) < (of_nat n + 1 :: rat)"
    by (simp add: algebra_simps)
  have "f64_divs (of_nat n) cs \<le> of_nat n / of_nat ?P * ?u ^ length cs"
    using f64_divs_upper [of "of_nat n" cs] assms(2) by simp
  also have "\<dots> \<le> of_nat n / of_nat ?P * (1 + 7 / 2 ^ 53)"
    using u by (intro mult_left_mono) auto
  also have "\<dots> < (of_nat n + 1) / of_nat ?P"
    using small P by (simp add: field_simps)
  also have "\<dots> \<le> of_nat ?q + 1"
    using top P by (simp add: field_simps)
  finally show ?thesis
    using lower by (intro floor_unique) auto
qed

end
