(* ===== verification/Common.thy ===== *)
theory Common
  imports Ethereum GoFloat
begin

text \<open>
  The helpers of \<open>relayer/common.go\<close>: \<open>must\<close>, the generic map and slice helpers, the polling loop
  that waits for a receipt, the ABI call encoder and the duration formatter.
\<close>

section \<open>Generic helpers\<close>

definition must :: "'a outcome \<Rightarrow> 'a outcome" where
  "must r = panic_on_error '''' r"

text \<open>The loops range over a map in the order \<open>ord\<close> and append to \<open>result\<close>.\<close>

fun mappingKeys_loop :: "'k list \<Rightarrow> ('k, 'v) gomap \<Rightarrow> 'k list" where
  "mappingKeys_loop result [] = result"
| "mappingKeys_loop result ((k, v) # rest) = mappingKeys_loop (result @ [k]) rest"

definition mappingKeys :: "(('k, 'v) gomap \<Rightarrow> ('k, 'v) gomap) \<Rightarrow> ('k, 'v) gomap \<Rightarrow> 'k list" where
  "mappingKeys ord value = mappingKeys_loop [] (ord value)"

fun mappingValues_loop :: "'v list \<Rightarrow> ('k, 'v) gomap \<Rightarrow> 'v list" where
  "mappingValues_loop result [] = result"
| "mappingValues_loop result ((k, v) # rest) = mappingValues_loop (result @ [v]) rest"

definition mappingValues :: "(('k, 'v) gomap \<Rightarrow> ('k, 'v) gomap) \<Rightarrow> ('k, 'v) gomap \<Rightarrow> 'v list" where
  "mappingValues ord value = mappingValues_loop [] (ord value)"

fun arrayApply_loop :: "('i \<Rightarrow> 'o) \<Rightarrow> 'o list \<Rightarrow> 'i list \<Rightarrow> 'o list" where
  "arrayApply_loop fn result [] = result"
| "arrayApply_loop fn result (v # rest) = arrayApply_loop fn (result @ [fn v]) rest"

definition arrayApply :: "'i list \<Rightarrow> ('i \<Rightarrow> 'o) \<Rightarrow> 'o list" where
  "arrayApply value fn = arrayApply_loop fn [] value"

lemma mappingKeys_eq [simp]: "mappingKeys ord m = map fst (ord m)"
proof -
  have "mappingKeys_loop res l = res @ map fst l" for res and l :: "('a, 'b) gomap"
    by (induction res l rule: mappingKeys_loop.induct) auto
  then show ?thesis by (simp add: mappingKeys_def)
qed

lemma mappingValues_eq [simp]: "mappingValues ord m = map snd (ord m)"
proof -
  have "mappingValues_loop res l = res @ map snd l" for res and l :: "('b, 'a) gomap"
    by (induction res l rule: mappingValues_loop.induct) auto
  then show ?thesis by (simp add: mappingValues_def)
qed

lemma arrayApply_eq [simp]: "arrayApply xs fn = map fn xs"
proof -
  have "arrayApply_loop fn res l = res @ map fn l" for res l
    by (induction fn res l rule: arrayApply_loop.induct) auto
  then show ?thesis by (simp add: arrayApply_def)
qed

section \<open>Waiting for a receipt\<close>

text \<open>The error that \<open>TransactionReceipt\<close> returns is dropped by the code; only whether there is a
  receipt is seen.\<close>

fun wait_loop :: "'w eth_client \<Rightarrow> 'w runtime \<Rightarrow> nat \<Rightarrow> hash \<Rightarrow> ('w, unit) io" where
  "wait_loop eth rt 0 txHash w = (Fail (ErrTxNotMined txHash), w)"
| "wait_loop eth rt (Suc tries) txHash w =
     (case ethHasReceipt eth txHash w of
        (True, w') \<Rightarrow> (Ret (), w')
      | (False, w') \<Rightarrow> wait_loop eth rt tries txHash (rtSleep rt 1 w'))"

definition waitTxToBeMined :: "'w eth_client \<Rightarrow> 'w runtime \<Rightarrow> hash \<Rightarrow> ('w, unit) io" where
  "waitTxToBeMined eth rt txHash = wait_loop eth rt 30 txHash"

text \<open>The world after \<open>k\<close> unsuccessful polls, each followed by a second of sleep.\<close>

definition poll_world :: "'w eth_client \<Rightarrow> 'w runtime \<Rightarrow> hash \<Rightarrow> 'w \<Rightarrow> nat \<Rightarrow> 'w" where
  "poll_world eth rt txHash w k = ((\<lambda>v. rtSleep rt 1 (snd (ethHasReceipt eth txHash v))) ^^ k) w"

lemma poll_world_Suc: "poll_world eth rt h w (Suc k) =
    poll_world eth rt h (rtSleep rt 1 (snd (ethHasReceipt eth h w))) k"
  by (simp add: poll_world_def funpow_Suc_right del: funpow.simps)

lemma wait_loop_found:
  "k < n \<Longrightarrow> fst (ethHasReceipt eth h (poll_world eth rt h w k)) \<Longrightarrow>
   \<forall>j<k. \<not> fst (ethHasReceipt eth h (poll_world eth rt h w j)) \<Longrightarrow>
   wait_loop eth rt n h w = (Ret (), snd (ethHasReceipt eth h (poll_world eth rt h w k)))"
proof (induction n arbitrary: k w)
  case (Suc n)
  show ?case
  proof (cases k)
    case 0
    with Suc.prems show ?thesis
      by (cases "ethHasReceipt eth h w") (auto simp: poll_world_def)
  next
    case (Suc k')
    have "\<not> fst (ethHasReceipt eth h w)"
      using Suc.prems(3) Suc by (auto simp: poll_world_def)
    then have "wait_loop eth rt (Suc n) h w =
        wait_loop eth rt n h (rtSleep rt 1 (snd (ethHasReceipt eth h w)))"
      by (auto split: prod.splits bool.splits)
    moreover have "\<forall>j<k'. \<not> fst (ethHasReceipt eth h (poll_world eth rt h
        (rtSleep rt 1 (snd (ethHasReceipt eth h w))) j))"
      using Suc.prems(3) Suc by (metis Suc_less_eq poll_world_Suc)
    ultimately show ?thesis
      using Suc.IH [of k' "rtSleep rt 1 (snd (ethHasReceipt eth h w))"] Suc.prems Suc
      by (simp add: poll_world_Suc)
  qed
qed simp

lemma wait_loop_missing:
  "\<forall>j<n. \<not> fst (ethHasReceipt eth h (poll_world eth rt h w j)) \<Longrightarrow>
   wait_loop eth rt n h w = (Fail (ErrTxNotMined h), poll_world eth rt h w n)"
proof (induction n arbitrary: w)
  case 0
  then show ?case by (simp add: poll_world_def)
next
  case (Suc n)
  have "\<not> fst (ethHasReceipt eth h w)"
    using Suc.prems by (auto simp: poll_world_def)
  then have "wait_loop eth rt (Suc n) h w =
      wait_loop eth rt n h (rtSleep rt 1 (snd (ethHasReceipt eth h w)))"
    by (auto split: prod.splits bool.splits)
  moreover have "\<forall>j<n. \<not> fst (ethHasReceipt eth h (poll_world eth rt h
      (rtSleep rt 1 (snd (ethHasReceipt eth h w))) j))"
    using Suc.prems by (metis Suc_less_eq poll_world_Suc)
  ultimately show ?case
    using Suc.IH by (simp add: poll_world_Suc)
qed

lemma wait_loop_spec:
  "wait_loop eth rt n h w =
     (let mined = (\<lambda>k. fst (ethHasReceipt eth h (poll_world eth rt h w k))) in
      if \<exists>k<n. mined k
      then (Ret (), snd (ethHasReceipt eth h (poll_world eth rt h w (LEAST k. mined k))))
      else (Fail (ErrTxNotMined h), poll_world eth rt h w n))"
proof -
  define mined where "mined = (\<lambda>k. fst (ethHasReceipt eth h (poll_world eth rt h w k)))"
  show ?thesis
  proof (cases "\<exists>k<n. mined k")
    case True
    then obtain k where k: "k < n" "mined k" by blast
    have "mined (LEAST k. mined k)" using k(2) by (rule LeastI)
    moreover have "(LEAST k. mined k) < n"
      using Least_le [of mined k] k by linarith
    moreover have "\<forall>j<(LEAST k. mined k). \<not> mined j"
      using not_less_Least by blast
    ultimately show ?thesis
      using True wait_loop_found [of "LEAST k. mined k" n eth h rt w]
      unfolding mined_def by (simp only: Let_def if_True)
  next
    case False
    then show ?thesis
      using wait_loop_missing [of n eth h rt w]
      unfolding mined_def by (simp add: Let_def)
  qed
qed

section \<open>Encoding a contract call\<close>

text \<open>\<open>strings.Index\<close> and \<open>strings.Split\<close> for a one-character pattern.\<close>

fun str_index :: "string \<Rightarrow> char \<Rightarrow> int" where
  "str_index [] c = - 1"
| "str_index (x # xs) c =
     (if x = c then 0 else let r = str_index xs c in if r < 0 then - 1 else r + 1)"

fun str_split :: "string \<Rightarrow> char \<Rightarrow> string list" where
  "str_split [] c = [[]]"
| "str_split (x # xs) c =
     (if x = c then [] # str_split xs c
      else case str_split xs c of [] \<Rightarrow> [[x]] | y # ys \<Rightarrow> (x # y) # ys)"

fun mustNewArguments_loop ::
    "'t abi_lib \<Rightarrow> 't abi_argument list \<Rightarrow> string list \<Rightarrow> 't abi_argument list outcome" where
  "mustNewArguments_loop lib result [] = Ret result"
| "mustNewArguments_loop lib result (t # types) =
     (let items = str_split t CHR '' '' in
      outcome_bind (if length items = 2 then go_index items 1 else go_index items 0) (\<lambda>name.
      outcome_bind (go_index items 0) (\<lambda>item.
      outcome_bind (panic_on_error '''' (abiNewType lib item item)) (\<lambda>typ.
      mustNewArguments_loop lib (result @ [\<lparr>argType = typ, argName = name\<rparr>]) types))))"

definition mustNewArguments :: "'t abi_lib \<Rightarrow> string list \<Rightarrow> 't abi_argument list outcome" where
  "mustNewArguments lib types = mustNewArguments_loop lib [] types"

definition encodeFunctionCall :: "'t abi_lib \<Rightarrow> string \<Rightarrow> go_val list \<Rightarrow> bytes outcome" where
  "encodeFunctionCall lib functionSignature args =
     outcome_bind (go_slice functionSignature 0 (str_index functionSignature CHR ''('')) (\<lambda>functionName.
     outcome_bind (go_slice functionSignature (str_index functionSignature CHR ''('' + 1)
                     (int (length functionSignature) - 1)) (\<lambda>functionTypes.
     outcome_bind (mustNewArguments lib (str_split functionTypes CHR '','')) (\<lambda>input.
     outcome_bind (fatal_on_error ''failed to pack input params'' (abiPack lib input args)) (\<lambda>packed.
     Ret (abiMethodID lib functionName functionName input @ packed)))))"

fun join_with :: "char \<Rightarrow> string list \<Rightarrow> string" where
  "join_with c [] = []"
| "join_with c [t] = t"
| "join_with c (t # ts) = t @ c # join_with c ts"

lemma str_index_append: "c \<notin> set xs \<Longrightarrow> str_index (xs @ c # ys) c = int (length xs)"
  by (induction xs) auto

lemma str_index_absent: "c \<notin> set xs \<Longrightarrow> str_index xs c = - 1"
  by (induction xs) auto

lemma str_split_absent: "c \<notin> set t \<Longrightarrow> str_split t c = [t]"
  by (induction t) auto

lemma str_split_append: "c \<notin> set t \<Longrightarrow> str_split (t @ c # rest) c = t # str_split rest c"
  by (induction t) auto

lemma str_split_join:
  "ts \<noteq> [] \<Longrightarrow> \<forall>t\<in>set ts. c \<notin> set t \<Longrightarrow> str_split (join_with c ts) c = ts"
  by (induction c ts rule: join_with.induct) (auto simp: str_split_absent str_split_append)

lemma mustNewArguments_eq:
  assumes "\<forall>t\<in>set ts. CHR '' '' \<notin> set t \<and> abiNewType lib t t = Ret (ty t)"
  shows "mustNewArguments lib ts = Ret (map (\<lambda>t. \<lparr>argType = ty t, argName = t\<rparr>) ts)"
proof -
  have "mustNewArguments_loop lib res ts = Ret (res @ map (\<lambda>t. \<lparr>argType = ty t, argName = t\<rparr>) ts)" for res
    using assms by (induction ts arbitrary: res) (auto simp: str_split_absent go_index_def)
  then show ?thesis by (simp add: mustNewArguments_def)
qed

section \<open>Formatting a duration\<close>

definition digit_char :: "nat \<Rightarrow> char" where
  "digit_char d = ''0123456789'' ! d"

text \<open>The decimal digits that \<open>%d\<close> prints for a positive number.\<close>

fun itoa :: "nat \<Rightarrow> string" where
  "itoa n = (if n < 10 then [digit_char n] else itoa (n div 10) @ [digit_char (n mod 10)])"

declare itoa.simps [simp del]

definition fmt_unit :: "int \<Rightarrow> char \<Rightarrow> string" where
  "fmt_unit x c = (if x > 0 then itoa (nat x) @ [c] else [])"

lemma fmt_unit_nonpos: "x \<le> 0 \<Longrightarrow> fmt_unit x c = []"
  by (simp add: fmt_unit_def)

definition prettyFormatTime :: "i64 \<Rightarrow> string" where
  "prettyFormatTime input =
     (let years = \<lfloor>f64_div (f64_div (f64_div (f64_div (f64_div (f64_div
                     (f64_of_i64 input) 60) 60) 24) 7) 30) 12\<rfloor>;
          result = fmt_unit years CHR ''y'';
          seconds = go_rem input (60 * 60 * 24 * 7 * 30 * 12);
          months = \<lfloor>f64_div (f64_div (f64_div (f64_div (f64_div
                     (f64_of_i64 seconds) 60) 60) 24) 7) 30\<rfloor>;
          result = result @ fmt_unit months CHR ''m'';
          seconds = go_rem input (60 * 60 * 24 * 7 * 30);
          weeks = \<lfloor>f64_div (f64_div (f64_div (f64_div (f64_of_i64 seconds) 60) 60) 24) 7\<rfloor>;
          result = result @ fmt_unit weeks CHR ''w'';
          seconds = go_rem input (60 * 60 * 24 * 7);
          days = \<lfloor>f64_div (f64_div (f64_div (f64_of_i64 seconds) 60) 60) 24\<rfloor>;
          result = result @ fmt_unit days CHR ''d'';
          seconds = go_rem input (60 * 60 * 24);
          hours = \<lfloor>f64_div (f64_div (f64_of_i64 seconds) 60) 60\<rfloor>;
          result = result @ fmt_unit hours CHR ''h'';
          seconds = go_rem input (60 * 60);
          minutes = \<lfloor>f64_div (f64_of_i64 seconds) 60\<rfloor>;
          result = result @ fmt_unit minutes CHR ''m'';
          seconds = go_rem input 60
      in result @ fmt_unit (sint seconds) CHR ''s'')"

lemma floor_div_small:
  assumes "0 \<le> sint i" and "sint i < 2 ^ 50" and "0 \<notin> set cs" and "length cs \<le> 6"
    and "prod_list cs \<le> 2 ^ 28"
  shows "\<lfloor>f64_divs (f64_of_i64 i) cs\<rfloor> = sint i div int (prod_list cs)"
proof -
  obtain n where n: "sint i = int n" using assms(1) nonneg_int_cases by blast
  then have "n < 2 ^ 50" using assms(2) by simp
  moreover from this have "f64_of_i64 i = of_nat n"
    using f64_round_nat [of n] by (simp add: f64_of_i64_def n)
  ultimately show ?thesis
    using floor_f64_divs [of n cs] assms(3,4,5) by (simp add: n zdiv_int)
qed

lemma f64_divs_nonpos: "x \<le> 0 \<Longrightarrow> f64_divs x cs \<le> 0"
  by (induction cs arbitrary: x) (auto simp: f64_div_def divide_nonpos_nonneg f64_round_nonpos)

lemma floor_div_nonpos: "sint i \<le> 0 \<Longrightarrow> \<lfloor>f64_divs (f64_of_i64 i) cs\<rfloor> \<le> 0"
proof -
  assume "sint i \<le> 0"
  then have "f64_of_i64 i \<le> 0"
    unfolding f64_of_i64_def by (intro f64_round_nonpos) (simp only: of_int_le_0_iff)
  then have "f64_divs (f64_of_i64 i) cs \<le> 0"
    by (rule f64_divs_nonpos)
  then show ?thesis by (simp add: floor_le_iff)
qed

text \<open>The chains of divisions of \<open>prettyFormatTime\<close> as instances of \<open>f64_divs\<close>.\<close>

lemma pretty_divs:
  "prettyFormatTime input =
     fmt_unit \<lfloor>f64_divs (f64_of_i64 input) [60, 60, 24, 7, 30, 12]\<rfloor> CHR ''y''
     @ fmt_unit \<lfloor>f64_divs (f64_of_i64 (go_rem input 217728000)) [60, 60, 24, 7, 30]\<rfloor> CHR ''m''
     @ fmt_unit \<lfloor>f64_divs (f64_of_i64 (go_rem input 18144000)) [60, 60, 24, 7]\<rfloor> CHR ''w''
     @ fmt_unit \<lfloor>f64_divs (f64_of_i64 (go_rem input 604800)) [60, 60, 24]\<rfloor> CHR ''d''
     @ fmt_unit \<lfloor>f64_divs (f64_of_i64 (go_rem input 86400)) [60, 60]\<rfloor> CHR ''h''
     @ fmt_unit \<lfloor>f64_divs (f64_of_i64 (go_rem input 3600)) [60]\<rfloor> CHR ''m''
     @ fmt_unit (sint (go_rem input 60)) CHR ''s''"
  by (simp add: prettyFormatTime_def Let_def)

lemma sint_go_rem:
  assumes "0 \<le> sint i" and "0 < sint c"
  shows "sint (go_rem i c) = sint i mod sint c"
proof -
  have "sint i mod sint c < sint c" "0 \<le> sint i mod sint c"
    using assms by simp_all
  moreover have "sint c < 2 ^ 63" "- (2 ^ 63) \<le> (0::int)"
    using sint_lt [of c] by simp_all
  ultimately have "signed_take_bit 63 (sint i mod sint c) = sint i mod sint c"
    by (intro signed_take_bit_int_eq_self) auto
  then show ?thesis
    using assms by (simp add: go_rem_def trunc_rem_nonneg sint_sbintrunc')
qed

lemma sint_go_rem_nonpos:
  assumes "sint i \<le> 0" and "0 < sint c"
  shows "sint (go_rem i c) \<le> 0"
proof -
  have "- (2 ^ 63) \<le> sint i" using sint_ge [of i] by simp
  moreover have "sint i \<le> trunc_rem (sint i) (sint c)"
    using assms by (cases "sint i = 0") (auto simp: trunc_rem_def trunc_div_def
        mult_nonneg_nonneg pos_imp_zdiv_nonneg_iff)
  moreover have "trunc_rem (sint i) (sint c) \<le> 0"
    using trunc_rem_neg assms by blast
  ultimately have "signed_take_bit 63 (trunc_rem (sint i) (sint c)) = trunc_rem (sint i) (sint c)"
    by (intro signed_take_bit_int_eq_self) auto
  then show ?thesis
    using \<open>trunc_rem (sint i) (sint c) \<le> 0\<close> by (simp add: go_rem_def sint_sbintrunc')
qed

lemma prettyFormatTime_parts:
  assumes "0 \<le> sint input" and "sint input < 2 ^ 50"
  shows "prettyFormatTime input =
      fmt_unit (sint input div 217728000) CHR ''y'' @ fmt_unit (sint input mod 217728000 div 18144000) CHR ''m''
      @ fmt_unit (sint input mod 18144000 div 604800) CHR ''w'' @ fmt_unit (sint input mod 604800 div 86400) CHR ''d''
      @ fmt_unit (sint input mod 86400 div 3600) CHR ''h'' @ fmt_unit (sint input mod 3600 div 60) CHR ''m''
      @ fmt_unit (sint input mod 60) CHR ''s''"
proof -
  let ?n = "sint input"
  have rem: "sint (go_rem input c) = ?n mod sint c" if "0 < sint c" for c
    using sint_go_rem [OF assms(1) that] .
  have div: "\<lfloor>f64_divs (f64_of_i64 (go_rem input c)) cs\<rfloor> = ?n mod sint c div int (prod_list cs)"
    if "0 < sint c" "sint c < 2 ^ 50" "0 \<notin> set cs" "length cs \<le> 6" "prod_list cs \<le> 2 ^ 28" for c cs
  proof -
    have "?n mod sint c < 2 ^ 50"
      using pos_mod_bound [OF that(1), of ?n] that(2) by linarith
    then show ?thesis
      using floor_div_small [of "go_rem input c" cs] rem [OF that(1)] that by simp
  qed
  show ?thesis
    by (simp add: pretty_divs div rem floor_div_small [OF assms] del: f64_divs_simps)
qed

lemma parts_add_up:
  "n = y * 217728000 + r1 \<Longrightarrow> r1 = mo * 18144000 + r2 \<Longrightarrow> r2 = w * 604800 + r3 \<Longrightarrow>
   r3 = d * 86400 + r4 \<Longrightarrow> r4 = h * 3600 + r5 \<Longrightarrow> r5 = mi * 60 + s \<Longrightarrow>
   n = ((((((y * 12 + mo) * 30 + w) * 7 + d) * 24 + h) * 60 + mi) * 60 + (s::int))"
  by simp

lemma time_parts_sum:
  "n = ((((((n div 217728000 * 12 + n mod 217728000 div 18144000) * 30 + n mod 18144000 div 604800) * 7
       + n mod 604800 div 86400) * 24 + n mod 86400 div 3600) * 60 + n mod 3600 div 60) * 60 + n mod (60::int))"
proof -
  have split: "n mod (a * b) = n mod (a * b) div b * b + n mod b" for a b :: int
    using div_mult_mod_eq [of "n mod (a * b)" b] by (simp add: mod_mod_cancel)
  have "n mod 217728000 = n mod 217728000 div 18144000 * 18144000 + n mod 18144000"
    using split [of 12 18144000] by (simp only: numeral_times_numeral mult_num_simps add_num_simps)
  moreover have "n mod 18144000 = n mod 18144000 div 604800 * 604800 + n mod 604800"
    using split [of 30 604800] by (simp only: numeral_times_numeral mult_num_simps add_num_simps)
  moreover have "n mod 604800 = n mod 604800 div 86400 * 86400 + n mod 86400"
    using split [of 7 86400] by (simp only: numeral_times_numeral mult_num_simps add_num_simps)
  moreover have "n mod 86400 = n mod 86400 div 3600 * 3600 + n mod 3600"
    using split [of 24 3600] by (simp only: numeral_times_numeral mult_num_simps add_num_simps)
  moreover have "n mod 3600 = n mod 3600 div 60 * 60 + n mod 60"
    using split [of 60 60] by (simp only: numeral_times_numeral mult_num_simps add_num_simps)
  ultimately show ?thesis
    by (intro parts_add_up [OF div_mult_mod_eq [of n 217728000, symmetric]])
qed

lemma part_less: "0 < b \<Longrightarrow> x < k * b \<Longrightarrow> x div b < (k::int)"
  by (smt (verit) mult_right_mono minus_mod_eq_div_mult pos_mod_sign)

section \<open>Properties\<close>

text \<open>
  Property C38. \<open>waitTxToBeMined\<close> always returns: with nil as soon as one of the first 30 polls sees
  a receipt, in the world right after the first such poll, and otherwise, after 30 polls and 30
  seconds of sleep, with the error that names the transaction.
\<close>

theorem waitTxToBeMined_spec:
  "waitTxToBeMined eth rt h w =
     (let mined = (\<lambda>k. fst (ethHasReceipt eth h (poll_world eth rt h w k))) in
      if \<exists>k<30. mined k
      then (Ret (), snd (ethHasReceipt eth h (poll_world eth rt h w (LEAST k. mined k))))
      else (Fail (ErrTxNotMined h), poll_world eth rt h w 30))"
  unfolding waitTxToBeMined_def by (rule wait_loop_spec)

text \<open>
  For every number of seconds from 0 up to \<open>2 ^ 50\<close> the formatter prints exact parts:
  although it computes in \<open>float64\<close>, the printed seconds, minutes, hours, days, weeks, months (of 30
  weeks, as the code divides) and years (of 12 such months) are within their ranges and add up to
  the input, and parts that are 0 are left out.
\<close>

theorem prettyFormatTime_exact:
  assumes "0 \<le> sint input" and "sint input < 2 ^ 50"
  shows "\<exists>y mo w d h mi s. sint input = ((((((y * 12 + mo) * 30 + w) * 7 + d) * 24 + h) * 60 + mi) * 60 + s)
           \<and> 0 \<le> y \<and> 0 \<le> mo \<and> mo < 12 \<and> 0 \<le> w \<and> w < 30 \<and> 0 \<le> d \<and> d < 7 \<and> 0 \<le> h \<and> h < 24
           \<and> 0 \<le> mi \<and> mi < 60 \<and> 0 \<le> s \<and> s < 60
           \<and> prettyFormatTime input = fmt_unit y CHR ''y'' @ fmt_unit mo CHR ''m'' @ fmt_unit w CHR ''w''
               @ fmt_unit d CHR ''d'' @ fmt_unit h CHR ''h'' @ fmt_unit mi CHR ''m'' @ fmt_unit s CHR ''s''"
proof (intro exI conjI)
  show "prettyFormatTime input =
      fmt_unit (sint input div 217728000) CHR ''y'' @ fmt_unit (sint input mod 217728000 div 18144000) CHR ''m''
      @ fmt_unit (sint input mod 18144000 div 604800) CHR ''w'' @ fmt_unit (sint input mod 604800 div 86400) CHR ''d''
      @ fmt_unit (sint input mod 86400 div 3600) CHR ''h'' @ fmt_unit (sint input mod 3600 div 60) CHR ''m''
      @ fmt_unit (sint input mod 60) CHR ''s''"
    by (rule prettyFormatTime_parts [OF assms])
qed (use assms(1) time_parts_sum [of "sint input"] in
      \<open>auto intro: part_less simp: pos_imp_zdiv_nonneg_iff\<close>)

theorem prettyFormatTime_exact_witness:
  "\<exists>y mo w d h mi s. sint (93784 :: i64) = ((((((y * 12 + mo) * 30 + w) * 7 + d) * 24 + h) * 60 + mi) * 60 + s)
     \<and> 0 \<le> y \<and> 0 \<le> mo \<and> mo < 12 \<and> 0 \<le> w \<and> w < 30 \<and> 0 \<le> d \<and> d < 7 \<and> 0 \<le> h \<and> h < 24
     \<and> 0 \<le> mi \<and> mi < 60 \<and> 0 \<le> s \<and> s < 60
     \<and> prettyFormatTime 93784 = fmt_unit y CHR ''y'' @ fmt_unit mo CHR ''m'' @ fmt_unit w CHR ''w''
         @ fmt_unit d CHR ''d'' @ fmt_unit h CHR ''h'' @ fmt_unit mi CHR ''m'' @ fmt_unit s CHR ''s''"
  by (rule prettyFormatTime_exact) simp_all

text \<open>
  A duration that is zero or negative (the estimate of the epoch worker is negative
  when the target hub is ahead of the source head) prints as the empty string.
\<close>

theorem prettyFormatTime_nonpos:
  assumes "sint input \<le> 0"
  shows "prettyFormatTime input = []"
proof -
  have "\<lfloor>f64_divs (f64_of_i64 (go_rem input c)) cs\<rfloor> \<le> 0" if "0 < sint c" for c cs
    using floor_div_nonpos [OF sint_go_rem_nonpos [OF assms that]] .
  then show ?thesis
    using floor_div_nonpos [OF assms] sint_go_rem_nonpos [OF assms, of 60]
    by (simp add: pretty_divs fmt_unit_nonpos del: f64_divs_simps floor_le_zero)
qed

theorem prettyFormatTime_nonpos_witness: "prettyFormatTime (- 5) = []"
  by (rule prettyFormatTime_nonpos) simp

text \<open>
  The output is ambiguous: months and minutes share the letter m, so that one minute and
  one month (30 weeks, 18144000 seconds) print alike.
\<close>

theorem prettyFormatTime_ambiguous:
  "prettyFormatTime 60 = ''1m'' \<and> prettyFormatTime 18144000 = ''1m''"
  by (simp add: prettyFormatTime_parts fmt_unit_def itoa.simps digit_char_def)

text \<open>
  The values that \<open>mappingValues\<close> returns are, up to their order, the values of the map,
  each once per key, and they are aligned with the keys that \<open>mappingKeys\<close> returns under the same
  iteration order.
\<close>

theorem mappingValues_entries:
  assumes "range_order ord" and "wf_map m"
  shows "mset (zip (mappingKeys ord m) (mappingValues ord m)) = mset m
         \<and> distinct (mappingKeys ord m) \<and> length (mappingValues ord m) = length m"
  using assms range_order_wf [OF assms] range_order_length [OF assms(1), of m]
  by (simp add: zip_map_fst_snd wf_map_def range_order_def)

theorem mappingValues_entries_witness:
  "mset (zip (mappingKeys rev [(1::nat, ''a''), (2, ''b'')]) (mappingValues rev [(1::nat, ''a''), (2, ''b'')]))
     = mset [(1::nat, ''a''), (2, ''b'')]
   \<and> distinct (mappingKeys rev [(1::nat, ''a''), (2, ''b'')])
   \<and> length (mappingValues rev [(1::nat, ''a''), (2, ''b'')]) = length [(1::nat, ''a''), (2, ''b'')]"
  by (rule mappingValues_entries) (simp_all add: range_order_def wf_map_def)

text \<open>
  \<open>encodeFunctionCall\<close> on a well-formed signature \<open>name(t1,...,tn)\<close> with known types: the
  result is the method id of \<open>name\<close> over the arguments \<open>t1 ... tn\<close> in order, each named after its
  type, followed by the packed values; a value list that does not pack ends the process.
\<close>

theorem encodeFunctionCall_spec:
  assumes "functionSignature = name @ CHR ''('' # join_with CHR '','' ts @ [CHR '')'']"
    and "CHR ''('' \<notin> set name" and "ts \<noteq> []"
    and "\<forall>t\<in>set ts. CHR '','' \<notin> set t \<and> CHR '' '' \<notin> set t \<and> abiNewType lib t t = Ret (ty t)"
  shows "encodeFunctionCall lib functionSignature args =
    (let input = map (\<lambda>t. \<lparr>argType = ty t, argName = t\<rparr>) ts in
     case abiPack lib input args of
       Ret packed \<Rightarrow> Ret (abiMethodID lib name name input @ packed)
     | Fail e \<Rightarrow> Exit ''failed to pack input params''
     | Panic p \<Rightarrow> Panic p
     | Exit m \<Rightarrow> Exit m)"
proof -
  let ?j = "join_with CHR '','' ts" and ?sig = functionSignature
  have idx: "str_index ?sig CHR ''('' = int (length name)"
    using assms(1,2) str_index_append by simp
  have name: "go_slice ?sig 0 (str_index ?sig CHR ''('') = Ret name"
    unfolding idx by (simp add: go_slice_def assms(1))
  have types: "go_slice ?sig (str_index ?sig CHR ''('' + 1) (int (length ?sig) - 1) = Ret ?j"
    unfolding idx by (simp add: go_slice_def assms(1) nat_add_distrib)
  have split: "str_split ?j CHR '','' = ts"
    using assms(3,4) by (intro str_split_join) auto
  have args: "mustNewArguments lib ts = Ret (map (\<lambda>t. \<lparr>argType = ty t, argName = t\<rparr>) ts)"
    using assms(4) by (intro mustNewArguments_eq) auto
  show ?thesis
    unfolding encodeFunctionCall_def name types split args outcome_bind.simps Let_def
    by (cases "abiPack lib (map (\<lambda>t. \<lparr>argType = ty t, argName = t\<rparr>) ts) args") auto
qed

theorem encodeFunctionCall_spec_witness:
  "encodeFunctionCall sample_abi ''set(uint256,bytes[])'' [VBig 97, VBytesList [[1], [2, 3]]] =
     Ret [248, 116, 66, 30, 97, 1, 2, 3]"
  using encodeFunctionCall_spec [of "''set(uint256,bytes[])''" "''set''" "[''uint256'', ''bytes[]'']"
      sample_abi id "[VBig 97, VBytesList [[1], [2, 3]]]"]
  by simp

text \<open>
  A signature without an opening parenthesis makes \<open>encodeFunctionCall\<close> panic: the code
  slices with the result -1 of \<open>strings.Index\<close>.
\<close>

theorem encodeFunctionCall_no_paren:
  assumes "CHR ''('' \<notin> set functionSignature"
  shows "encodeFunctionCall lib functionSignature args = Panic SliceBounds"
  using assms by (simp add: encodeFunctionCall_def str_index_absent go_slice_def)

theorem encodeFunctionCall_no_paren_witness:
  "encodeFunctionCall sample_abi ''transfer'' [] = Panic SliceBounds"
  by (rule encodeFunctionCall_no_paren) simp

end
