(* ===== verification/Config.thy ===== *)
theory Config
  imports Common
begin

text \<open>
  Configuration and signing: \<open>relayer/config.go\<close>, \<open>relayer/viper.go\<close> and \<open>relayer/signer.go\<close>. The
  viper package is a parameter (\<open>viper_lib\<close>): its state \<open>'v\<close> and the calls on it. \<open>filepath.Ext\<close>
  and \<open>strings.Replacer\<close> are the standard library's and are written out.
\<close>

section \<open>The configuration record\<close>

record ChainConfig =
  ChainName :: string
  RpcUrl :: string
  RelayHubAddress :: string
  ChainId :: u64
  Confirmations :: u64
  GasLimit :: u64
  EpochLength :: u64

record RelayerConfig =
  PrivateKey :: priv_key
  GrpcAddress :: string
  RelayerUrls :: "string list"

record Config =
  Root :: ChainConfig
  Child :: ChainConfig
  Relayer :: RelayerConfig

record 'v viper_lib =
  viperNew :: 'v
  viperAutomaticEnv :: "'v \<Rightarrow> 'v"
  viperSetEnvKeyReplacer :: "(string \<Rightarrow> string) \<Rightarrow> 'v \<Rightarrow> 'v"
  viperSetConfigType :: "string \<Rightarrow> 'v \<Rightarrow> 'v"
  viperSetConfigFile :: "string \<Rightarrow> 'v \<Rightarrow> 'v"
  viperReadInConfig :: "'v \<Rightarrow> unit outcome \<times> 'v"
  viperGetString :: "'v \<Rightarrow> string \<Rightarrow> string"
  viperGetUint64 :: "'v \<Rightarrow> string \<Rightarrow> u64"
  viperGetStringSlice :: "'v \<Rightarrow> string \<Rightarrow> string list"

definition chainFromViper :: "'v viper_lib \<Rightarrow> 'v \<Rightarrow> string \<Rightarrow> ChainConfig" where
  "chainFromViper V v side =
     \<lparr>ChainName = viperGetString V v (side @ ''.chain-name''),
      RpcUrl = viperGetString V v (side @ ''.rpc-url''),
      RelayHubAddress = viperGetString V v (side @ ''.relay-hub-address''),
      ChainId = viperGetUint64 V v (side @ ''.chain-id''),
      Confirmations = viperGetUint64 V v (side @ ''.confirmations''),
      GasLimit = viperGetUint64 V v (side @ ''.gas-limit''),
      EpochLength = viperGetUint64 V v (side @ ''.epoch-blocks'')\<rparr>"

definition configFromViper :: "crypto_lib \<Rightarrow> 'v viper_lib \<Rightarrow> 'v \<Rightarrow> Config outcome" where
  "configFromViper C V v =
     outcome_bind (must (hexToECDSA C (viperGetString V v ''relayer.private-key''))) (\<lambda>key.
     Ret \<lparr>Root = chainFromViper V v ''root'',
          Child = chainFromViper V v ''child'',
          Relayer = \<lparr>PrivateKey = key,
                     GrpcAddress = viperGetString V v ''relayer.grpc-address'',
                     RelayerUrls = viperGetStringSlice V v ''relayer.relayer-urls''\<rparr>\<rparr>)"

section \<open>Reading the configuration file\<close>

definition defaultConfigFile :: string where
  "defaultConfigFile = ''./config.yaml''"

text \<open>\<open>filepath.Ext\<close>: the suffix that starts at the last dot of the last path element, or nothing.\<close>

definition filepath_Ext :: "string \<Rightarrow> string" where
  "filepath_Ext path =
     (let element = takeWhile (\<lambda>c. c \<noteq> CHR ''/'') (rev path) in
      if CHR ''.'' \<in> set element then CHR ''.'' # rev (takeWhile (\<lambda>c. c \<noteq> CHR ''.'') element) else [])"

text \<open>\<open>stat\<close> is the file system as \<open>os.Stat\<close> sees it.\<close>

definition readFromFile :: "'v viper_lib \<Rightarrow> (string \<Rightarrow> unit outcome) \<Rightarrow> 'v \<Rightarrow> 'v outcome" where
  "readFromFile V stat v =
     (let configPath = viperGetString V v ''config-path'';
          configPath = (if configPath = [] then defaultConfigFile else configPath) in
      case stat configPath of
        Ret _ \<Rightarrow>
          outcome_bind (go_slice (filepath_Ext configPath) 1 (int (length (filepath_Ext configPath)))) (\<lambda>ext.
          let v = viperSetConfigFile V configPath (viperSetConfigType V ext v) in
          case viperReadInConfig V v of
            (Ret _, v') \<Rightarrow> Ret v'
          | (Fail e, _) \<Rightarrow> Exit ''failed to read config''
          | (Panic p, _) \<Rightarrow> Panic p
          | (Exit m, _) \<Rightarrow> Exit m)
      | Fail _ \<Rightarrow> Ret v
      | Panic p \<Rightarrow> Panic p
      | Exit m \<Rightarrow> Exit m)"

text \<open>The replacer that turns a key into the suffix of an environment variable.\<close>

definition env_replace :: "string \<Rightarrow> string" where
  "env_replace key = map (\<lambda>c. if c = CHR ''.'' \<or> c = CHR ''-'' then CHR ''_'' else c) key"

definition newViper :: "'v viper_lib \<Rightarrow> (string \<Rightarrow> unit outcome) \<Rightarrow> 'v outcome" where
  "newViper V stat =
     readFromFile V stat (viperSetEnvKeyReplacer V env_replace (viperAutomaticEnv V (viperNew V)))"

section \<open>The transaction signer\<close>

definition injectSigner ::
    "crypto_lib \<Rightarrow> sign_tx \<Rightarrow> int \<Rightarrow> priv_key \<Rightarrow> transact_opts option \<Rightarrow> transact_opts" where
  "injectSigner C sign chainId privateKey opts =
     (let opts = (case opts of None \<Rightarrow> new_transact_opts | Some o' \<Rightarrow> o') in
      opts\<lparr>optSigner := Some (\<lambda>address tx. sign chainId privateKey tx),
           optFrom := keyToAddress C privateKey\<rparr>)"

section \<open>Properties\<close>

lemma filepath_Ext_dot:
  "CHR ''/'' \<notin> set ext \<Longrightarrow> CHR ''.'' \<notin> set ext \<Longrightarrow> filepath_Ext (base @ CHR ''.'' # ext) = CHR ''.'' # ext"
  by (auto simp: filepath_Ext_def takeWhile_append Let_def)

lemma filepath_Ext_none:
  "CHR ''/'' \<notin> set name \<Longrightarrow> CHR ''.'' \<notin> set name \<Longrightarrow> dir = [] \<or> last dir = CHR ''/'' \<Longrightarrow>
   filepath_Ext (dir @ name) = []"
  by (cases dir rule: rev_cases)
     (auto simp: filepath_Ext_def takeWhile_append Let_def dest: set_takeWhileD)

text \<open>
  The configuration file: when the path (the default one if none is configured) does
  not exist the settings are kept as they are; when it exists and is \<open>base.ext\<close>, the type is set to
  \<open>ext\<close> and the path is read, and a read error ends the process.
\<close>

theorem readFromFile_spec:
  assumes "path = (if viperGetString V v ''config-path'' = [] then ''./config.yaml''
                   else viperGetString V v ''config-path'')"
    and "path = base @ CHR ''.'' # ext" and "CHR ''/'' \<notin> set ext" and "CHR ''.'' \<notin> set ext"
  shows "(stat path = Fail e \<longrightarrow> readFromFile V stat v = Ret v) \<and>
         (stat path = Ret () \<longrightarrow> readFromFile V stat v =
            (case viperReadInConfig V (viperSetConfigFile V path (viperSetConfigType V ext v)) of
               (Ret _, v') \<Rightarrow> Ret v'
             | (Fail _, _) \<Rightarrow> Exit ''failed to read config''
             | (Panic p, _) \<Rightarrow> Panic p
             | (Exit m, _) \<Rightarrow> Exit m))"
proof -
  have "filepath_Ext path = CHR ''.'' # ext"
    using filepath_Ext_dot [OF assms(3,4)] assms(2) by simp
  then have "go_slice (filepath_Ext path) 1 (int (length (filepath_Ext path))) = Ret ext"
    by (simp add: go_slice_def)
  then show ?thesis
    using assms(1) by (auto simp: readFromFile_def Let_def defaultConfigFile_def)
qed

definition sample_viper :: "(string \<times> string) list viper_lib" where
  "sample_viper = \<lparr>viperNew = [], viperAutomaticEnv = id, viperSetEnvKeyReplacer = (\<lambda>f v. v),
     viperSetConfigType = (\<lambda>t v. (''type'', t) # v), viperSetConfigFile = (\<lambda>f v. (''file'', f) # v),
     viperReadInConfig = (\<lambda>v. (Ret (), v)),
     viperGetString = (\<lambda>v k. case map_of v k of Some s \<Rightarrow> s | None \<Rightarrow> []),
     viperGetUint64 = (\<lambda>v k. 0), viperGetStringSlice = (\<lambda>v k. [])\<rparr>"

theorem readFromFile_spec_witness:
  "readFromFile sample_viper (\<lambda>_. Fail (LibError ''missing'')) [] = Ret [] \<and>
   readFromFile sample_viper (\<lambda>_. Ret ()) [] = Ret [(''file'', ''./config.yaml''), (''type'', ''yaml'')]"
proof -
  have path: "''./config.yaml'' = (if viperGetString sample_viper [] ''config-path'' = []
      then ''./config.yaml'' else viperGetString sample_viper [] ''config-path'')"
    by (simp add: sample_viper_def)
  have parts: "''./config.yaml'' = ''./config'' @ CHR ''.'' # ''yaml''"
    "CHR ''/'' \<notin> set ''yaml''" "CHR ''.'' \<notin> set ''yaml''" by simp_all
  note spec = readFromFile_spec [OF path parts]
  have "readFromFile sample_viper (\<lambda>_. Fail (LibError ''missing'')) [] = Ret []"
    by (rule spec [THEN conjunct1, THEN mp]) (rule refl)
  moreover have "readFromFile sample_viper (\<lambda>_. Ret ()) [] =
      (case viperReadInConfig sample_viper (viperSetConfigFile sample_viper ''./config.yaml''
         (viperSetConfigType sample_viper ''yaml'' [])) of
         (Ret _, v') \<Rightarrow> Ret v' | (Fail _, _) \<Rightarrow> Exit ''failed to read config''
       | (Panic p, _) \<Rightarrow> Panic p | (Exit m, _) \<Rightarrow> Exit m)"
    by (rule spec [THEN conjunct2, THEN mp]) (rule refl)
  ultimately show ?thesis by (simp add: sample_viper_def)
qed

text \<open>
  A configuration file that exists but whose name has no extension makes the relayer
  panic at start: the code drops the first character of the empty extension.
\<close>

theorem readFromFile_no_extension:
  assumes "viperGetString V v ''config-path'' = dir @ name" and "dir @ name \<noteq> []"
    and "dir = [] \<or> last dir = CHR ''/''" and "CHR ''/'' \<notin> set name" and "CHR ''.'' \<notin> set name"
    and "stat (dir @ name) = Ret ()"
  shows "readFromFile V stat v = Panic SliceBounds"
proof -
  let ?path = "dir @ name"
  have "go_slice (filepath_Ext ?path) 1 (int (length (filepath_Ext ?path))) = Panic SliceBounds"
    using filepath_Ext_none [OF assms(4,5,3)] by (simp add: go_slice_def)
  moreover have "(if ?path = [] then defaultConfigFile else ?path) = ?path"
    using assms(2) by (rule if_not_P)
  ultimately show ?thesis
    unfolding readFromFile_def assms(1) by (simp only: Let_def assms(6) outcome.case outcome_bind.simps)
qed

theorem readFromFile_no_extension_witness:
  "readFromFile sample_viper (\<lambda>_. Ret ()) [(''config-path'', ''/etc/relayer'')] = Panic SliceBounds"
  by (rule readFromFile_no_extension [where dir = "''/etc/''" and name = "''relayer''"])
     (simp_all add: sample_viper_def)

end
