(* ===== verification/Binding.thy ===== *)
theory Binding
  imports Config
begin

text \<open>
  The Go binding of the hub contract (\<open>relayer/abigen/basrelayhub.go\<close>): construction, the read-only
  calls, the transactions, and the session wrappers. The generic \<open>bind.BoundContract\<close> is a parameter
  (\<open>bound_contract\<close>) over the world \<open>'w\<close>; so are \<open>abi.JSON\<close>, \<open>bind.NewBoundContract\<close> and
  \<open>abi.ConvertType\<close> (\<open>bind_lib\<close>). The contract's ABI text is the argument \<open>abiText\<close>. The events of the
  contract are in theory Events.
\<close>

section \<open>The generic contract\<close>

record call_opts =
  coPending :: bool
  coFrom :: address
  coBlockNumber :: "int option"

definition new_call_opts :: call_opts where
  "new_call_opts = \<lparr>coPending = False, coFrom = zero_address, coBlockNumber = None\<rparr>"

text \<open>A log of the chain (\<open>types.Log\<close>) and the two events of the contract, into which its logs are
  unpacked. \<open>ChainId\<close> is a pointer, nil in a new event.\<close>

record raw_log =
  logAddress :: address
  logTopics :: "hash list"
  logData :: bytes
  logBlockNumber :: u64
  logTxHash :: hash
  logIndex :: nat
  logRemoved :: bool

definition new_log :: raw_log where
  "new_log = \<lparr>logAddress = zero_address, logTopics = [], logData = [], logBlockNumber = 0,
     logTxHash = replicate 32 0, logIndex = 0, logRemoved = False\<rparr>"

record RelayHubChainRegistered =
  crChainId :: "int option"
  crInitValidatorSet :: "address list"
  crRaw :: raw_log

record RelayHubValidatorSetUpdated =
  vsChainId :: "int option"
  vsNewValidatorSet :: "address list"
  vsRaw :: raw_log

text \<open>Options of a log query and of a subscription, whose context is left out: a range of blocks, and
  a first block. A subscription is seen through its error channel: \<open>None\<close> while it is silent,
  \<open>Some None\<close> when it is closed, \<open>Some (Some e)\<close> when it holds an error.\<close>

record filter_opts =
  foStart :: u64
  foEnd :: "u64 option"

record watch_opts = woStart :: "u64 option"

record subscription = subErr :: "go_error option option"

text \<open>A \<open>bind.BoundContract\<close>. Its log queries return the channel of logs, as the list of those in it, and
  the subscription. \<open>UnpackLog\<close> fills the event it is given, of either type; what it has filled in
  before an error stays.\<close>

record 'w bound_contract =
  bcCall :: "call_opts \<Rightarrow> string \<Rightarrow> go_val list \<Rightarrow> ('w, go_val list) io"
  bcTransact :: "transact_opts \<Rightarrow> string \<Rightarrow> go_val list \<Rightarrow> ('w, transaction) io"
  bcTransfer :: "transact_opts \<Rightarrow> ('w, transaction) io"
  bcFilterLogs :: "filter_opts \<Rightarrow> string \<Rightarrow> go_val list list \<Rightarrow> ('w, raw_log list \<times> subscription) io"
  bcWatchLogs :: "watch_opts \<Rightarrow> string \<Rightarrow> go_val list list \<Rightarrow> ('w, raw_log list \<times> subscription) io"
  bcUnpackChainRegistered ::
    "RelayHubChainRegistered \<Rightarrow> string \<Rightarrow> raw_log \<Rightarrow> unit outcome \<times> RelayHubChainRegistered"
  bcUnpackValidatorSetUpdated ::
    "RelayHubValidatorSetUpdated \<Rightarrow> string \<Rightarrow> raw_log \<Rightarrow> unit outcome \<times> RelayHubValidatorSetUpdated"

record ('b, 'p, 'w) bind_lib =
  abiJSON :: "string \<Rightarrow> 'p outcome"
  newBoundContract :: "address \<Rightarrow> 'p \<Rightarrow> 'b option \<Rightarrow> 'b option \<Rightarrow> 'b option \<Rightarrow> 'w bound_contract"
  convertType :: "go_val \<Rightarrow> go_val \<Rightarrow> go_val outcome"

section \<open>Construction\<close>

record 'w RelayHubCaller = callerContract :: "'w bound_contract"
record 'w RelayHubTransactor = transactorContract :: "'w bound_contract"
record 'w RelayHubFilterer = filtererContract :: "'w bound_contract"

record 'w RelayHub =
  hubCaller :: "'w RelayHubCaller"
  hubTransactor :: "'w RelayHubTransactor"
  hubFilterer :: "'w RelayHubFilterer"

record 'w RelayHubSession =
  sessionContract :: "'w RelayHub"
  sessionCallOpts :: call_opts
  sessionTransactOpts :: transact_opts

record 'w RelayHubCallerSession =
  callerSessionContract :: "'w RelayHubCaller"
  callerSessionCallOpts :: call_opts

record 'w RelayHubTransactorSession =
  transactorSessionContract :: "'w RelayHubTransactor"
  transactorSessionTransactOpts :: transact_opts

record 'w RelayHubRaw = rawContract :: "'w RelayHub"
record 'w RelayHubCallerRaw = callerRawContract :: "'w RelayHubCaller"
record 'w RelayHubTransactorRaw = transactorRawContract :: "'w RelayHubTransactor"

definition bindRelayHub ::
    "('b, 'p, 'w) bind_lib \<Rightarrow> string \<Rightarrow> address \<Rightarrow> 'b option \<Rightarrow> 'b option \<Rightarrow> 'b option \<Rightarrow>
     'w bound_contract outcome" where
  "bindRelayHub B abiText address caller transactor filterer =
     outcome_bind (abiJSON B abiText) (\<lambda>parsed.
     Ret (newBoundContract B address parsed caller transactor filterer))"

definition NewRelayHub ::
    "('b, 'p, 'w) bind_lib \<Rightarrow> string \<Rightarrow> address \<Rightarrow> 'b \<Rightarrow> 'w RelayHub outcome" where
  "NewRelayHub B abiText address backend =
     outcome_bind (bindRelayHub B abiText address (Some backend) (Some backend) (Some backend)) (\<lambda>contract.
     Ret \<lparr>hubCaller = \<lparr>callerContract = contract\<rparr>,
          hubTransactor = \<lparr>transactorContract = contract\<rparr>,
          hubFilterer = \<lparr>filtererContract = contract\<rparr>\<rparr>)"

definition NewRelayHubCaller ::
    "('b, 'p, 'w) bind_lib \<Rightarrow> string \<Rightarrow> address \<Rightarrow> 'b \<Rightarrow> 'w RelayHubCaller outcome" where
  "NewRelayHubCaller B abiText address caller =
     outcome_bind (bindRelayHub B abiText address (Some caller) None None) (\<lambda>contract.
     Ret \<lparr>callerContract = contract\<rparr>)"

definition NewRelayHubTransactor ::
    "('b, 'p, 'w) bind_lib \<Rightarrow> string \<Rightarrow> address \<Rightarrow> 'b \<Rightarrow> 'w RelayHubTransactor outcome" where
  "NewRelayHubTransactor B abiText address transactor =
     outcome_bind (bindRelayHub B abiText address None (Some transactor) None) (\<lambda>contract.
     Ret \<lparr>transactorContract = contract\<rparr>)"

definition NewRelayHubFilterer ::
    "('b, 'p, 'w) bind_lib \<Rightarrow> string \<Rightarrow> address \<Rightarrow> 'b \<Rightarrow> 'w RelayHubFilterer outcome" where
  "NewRelayHubFilterer B abiText address filterer =
     outcome_bind (bindRelayHub B abiText address None None (Some filterer)) (\<lambda>contract.
     Ret \<lparr>filtererContract = contract\<rparr>)"

section \<open>Raw access\<close>

definition Raw_Call :: "'w RelayHubRaw \<Rightarrow> call_opts \<Rightarrow> string \<Rightarrow> go_val list \<Rightarrow> ('w, go_val list) io" where
  "Raw_Call raw opts method params = bcCall (callerContract (hubCaller (rawContract raw))) opts method params"

definition Raw_Transfer :: "'w RelayHubRaw \<Rightarrow> transact_opts \<Rightarrow> ('w, transaction) io" where
  "Raw_Transfer raw opts = bcTransfer (transactorContract (hubTransactor (rawContract raw))) opts"

definition Raw_Transact ::
    "'w RelayHubRaw \<Rightarrow> transact_opts \<Rightarrow> string \<Rightarrow> go_val list \<Rightarrow> ('w, transaction) io" where
  "Raw_Transact raw opts method params =
     bcTransact (transactorContract (hubTransactor (rawContract raw))) opts method params"

definition CallerRaw_Call ::
    "'w RelayHubCallerRaw \<Rightarrow> call_opts \<Rightarrow> string \<Rightarrow> go_val list \<Rightarrow> ('w, go_val list) io" where
  "CallerRaw_Call raw opts method params = bcCall (callerContract (callerRawContract raw)) opts method params"

definition TransactorRaw_Transfer :: "'w RelayHubTransactorRaw \<Rightarrow> transact_opts \<Rightarrow> ('w, transaction) io" where
  "TransactorRaw_Transfer raw opts = bcTransfer (transactorContract (transactorRawContract raw)) opts"

definition TransactorRaw_Transact ::
    "'w RelayHubTransactorRaw \<Rightarrow> transact_opts \<Rightarrow> string \<Rightarrow> go_val list \<Rightarrow> ('w, transaction) io" where
  "TransactorRaw_Transact raw opts method params =
     bcTransact (transactorContract (transactorRawContract raw)) opts method params"

section \<open>Read-only calls\<close>

text \<open>\<open>*abi.ConvertType(out[0], new(T)).(*T)\<close>: the index panics on an empty output, the assertion on
  a value of another type. \<open>proto\<close> is the zero value of \<open>T\<close>.\<close>

fun asBool :: "go_val \<Rightarrow> bool option" where
  "asBool (VBool b) = Some b" | "asBool _ = None"

fun asUint64 :: "go_val \<Rightarrow> u64 option" where
  "asUint64 (VUint64 n) = Some n" | "asUint64 _ = None"

fun asAddress :: "go_val \<Rightarrow> address option" where
  "asAddress (VAddress a) = Some a" | "asAddress _ = None"

fun asAddresses :: "go_val \<Rightarrow> address list option" where
  "asAddresses (VAddresses as) = Some as" | "asAddresses _ = None"

definition convert_out0 ::
    "('b, 'p, 'w) bind_lib \<Rightarrow> go_val \<Rightarrow> (go_val \<Rightarrow> 'a option) \<Rightarrow> go_val list \<Rightarrow> 'a outcome" where
  "convert_out0 B proto assertion out =
     outcome_bind (go_index out 0) (\<lambda>v.
     outcome_bind (convertType B v proto) (\<lambda>c.
     case assertion c of Some x \<Rightarrow> Ret x | None \<Rightarrow> Panic TypeAssertion))"

definition Caller_CheckReceiptProof ::
    "('b, 'p, 'w) bind_lib \<Rightarrow> 'w RelayHubCaller \<Rightarrow> call_opts \<Rightarrow> int \<Rightarrow> bytes list \<Rightarrow> bytes \<Rightarrow> bytes \<Rightarrow> bytes \<Rightarrow> ('w, bool) io" where
  "Caller_CheckReceiptProof B hub opts chainId blockProofs rawReceipt proofSiblings proofPath =
     io_bind (bcCall (callerContract hub) opts ''checkReceiptProof''
       [VBig chainId, VBytesList blockProofs, VBytes rawReceipt, VBytes proofSiblings, VBytes proofPath]) (\<lambda>out.
     io_lift (convert_out0 B (VBool False) asBool out))"

definition Session_CheckReceiptProof ::
    "('b, 'p, 'w) bind_lib \<Rightarrow> 'w RelayHubSession \<Rightarrow> int \<Rightarrow> bytes list \<Rightarrow> bytes \<Rightarrow> bytes \<Rightarrow> bytes \<Rightarrow> ('w, bool) io" where
  "Session_CheckReceiptProof B s chainId blockProofs rawReceipt proofSiblings proofPath =
     Caller_CheckReceiptProof B (hubCaller (sessionContract s)) (sessionCallOpts s)
       chainId blockProofs rawReceipt proofSiblings proofPath"

definition CallerSession_CheckReceiptProof ::
    "('b, 'p, 'w) bind_lib \<Rightarrow> 'w RelayHubCallerSession \<Rightarrow> int \<Rightarrow> bytes list \<Rightarrow> bytes \<Rightarrow> bytes \<Rightarrow> bytes \<Rightarrow> ('w, bool) io" where
  "CallerSession_CheckReceiptProof B s chainId blockProofs rawReceipt proofSiblings proofPath =
     Caller_CheckReceiptProof B (callerSessionContract s) (callerSessionCallOpts s)
       chainId blockProofs rawReceipt proofSiblings proofPath"

definition Caller_CheckValidators ::
    "('b, 'p, 'w) bind_lib \<Rightarrow> 'w RelayHubCaller \<Rightarrow> call_opts \<Rightarrow> int \<Rightarrow> address list \<Rightarrow> u64 \<Rightarrow> ('w, u64) io" where
  "Caller_CheckValidators B hub opts chainId validators epoch =
     io_bind (bcCall (callerContract hub) opts ''checkValidators''
       [VBig chainId, VAddresses validators, VUint64 epoch]) (\<lambda>out.
     io_lift (convert_out0 B (VUint64 0) asUint64 out))"

definition Session_CheckValidators ::
    "('b, 'p, 'w) bind_lib \<Rightarrow> 'w RelayHubSession \<Rightarrow> int \<Rightarrow> address list \<Rightarrow> u64 \<Rightarrow> ('w, u64) io" where
  "Session_CheckValidators B s chainId validators epoch =
     Caller_CheckValidators B (hubCaller (sessionContract s)) (sessionCallOpts s)
       chainId validators epoch"

definition CallerSession_CheckValidators ::
    "('b, 'p, 'w) bind_lib \<Rightarrow> 'w RelayHubCallerSession \<Rightarrow> int \<Rightarrow> address list \<Rightarrow> u64 \<Rightarrow> ('w, u64) io" where
  "CallerSession_CheckValidators B s chainId validators epoch =
     Caller_CheckValidators B (callerSessionContract s) (callerSessionCallOpts s)
       chainId validators epoch"

definition Caller_CheckValidatorsAndQuorumReached ::
    "('b, 'p, 'w) bind_lib \<Rightarrow> 'w RelayHubCaller \<Rightarrow> call_opts \<Rightarrow> int \<Rightarrow> address list \<Rightarrow> u64 \<Rightarrow> ('w, bool) io" where
  "Caller_CheckValidatorsAndQuorumReached B hub opts chainId validatorSet epochNumber =
     io_bind (bcCall (callerContract hub) opts ''checkValidatorsAndQuorumReached''
       [VBig chainId, VAddresses validatorSet, VUint64 epochNumber]) (\<lambda>out.
     io_lift (convert_out0 B (VBool False) asBool out))"

definition Session_CheckValidatorsAndQuorumReached ::
    "('b, 'p, 'w) bind_lib \<Rightarrow> 'w RelayHubSession \<Rightarrow> int \<Rightarrow> address list \<Rightarrow> u64 \<Rightarrow> ('w, bool) io" where
  "Session_CheckValidatorsAndQuorumReached B s chainId validatorSet epochNumber =
     Caller_CheckValidatorsAndQuorumReached B (hubCaller (sessionContract s)) (sessionCallOpts s)
       chainId validatorSet epochNumber"

definition CallerSession_CheckValidatorsAndQuorumReached ::
    "('b, 'p, 'w) bind_lib \<Rightarrow> 'w RelayHubCallerSession \<Rightarrow> int \<Rightarrow> address list \<Rightarrow> u64 \<Rightarrow> ('w, bool) io" where
  "CallerSession_CheckValidatorsAndQuorumReached B s chainId validatorSet epochNumber =
     Caller_CheckValidatorsAndQuorumReached B (callerSessionContract s) (callerSessionCallOpts s)
       chainId validatorSet epochNumber"

definition Caller_GetActiveValidators ::
    "('b, 'p, 'w) bind_lib \<Rightarrow> 'w RelayHubCaller \<Rightarrow> call_opts \<Rightarrow> int \<Rightarrow> ('w, address list) io" where
  "Caller_GetActiveValidators B hub opts chainId =
     io_bind (bcCall (callerContract hub) opts ''getActiveValidators''
       [VBig chainId]) (\<lambda>out.
     io_lift (convert_out0 B (VAddresses []) asAddresses out))"

definition Session_GetActiveValidators ::
    "('b, 'p, 'w) bind_lib \<Rightarrow> 'w RelayHubSession \<Rightarrow> int \<Rightarrow> ('w, address list) io" where
  "Session_GetActiveValidators B s chainId =
     Caller_GetActiveValidators B (hubCaller (sessionContract s)) (sessionCallOpts s)
       chainId"

definition CallerSession_GetActiveValidators ::
    "('b, 'p, 'w) bind_lib \<Rightarrow> 'w RelayHubCallerSession \<Rightarrow> int \<Rightarrow> ('w, address list) io" where
  "CallerSession_GetActiveValidators B s chainId =
     Caller_GetActiveValidators B (callerSessionContract s) (callerSessionCallOpts s)
       chainId"

definition Caller_GetBridgeAddress ::
    "('b, 'p, 'w) bind_lib \<Rightarrow> 'w RelayHubCaller \<Rightarrow> call_opts \<Rightarrow> int \<Rightarrow> ('w, address) io" where
  "Caller_GetBridgeAddress B hub opts chainId =
     io_bind (bcCall (callerContract hub) opts ''getBridgeAddress''
       [VBig chainId]) (\<lambda>out.
     io_lift (convert_out0 B (VAddress zero_address) asAddress out))"

definition Session_GetBridgeAddress ::
    "('b, 'p, 'w) bind_lib \<Rightarrow> 'w RelayHubSession \<Rightarrow> int \<Rightarrow> ('w, address) io" where
  "Session_GetBridgeAddress B s chainId =
     Caller_GetBridgeAddress B (hubCaller (sessionContract s)) (sessionCallOpts s)
       chainId"

definition CallerSession_GetBridgeAddress ::
    "('b, 'p, 'w) bind_lib \<Rightarrow> 'w RelayHubCallerSession \<Rightarrow> int \<Rightarrow> ('w, address) io" where
  "CallerSession_GetBridgeAddress B s chainId =
     Caller_GetBridgeAddress B (callerSessionContract s) (callerSessionCallOpts s)
       chainId"

definition Caller_GetLatestTransitionedEpoch ::
    "('b, 'p, 'w) bind_lib \<Rightarrow> 'w RelayHubCaller \<Rightarrow> call_opts \<Rightarrow> int \<Rightarrow> ('w, u64) io" where
  "Caller_GetLatestTransitionedEpoch B hub opts chainId =
     io_bind (bcCall (callerContract hub) opts ''getLatestTransitionedEpoch''
       [VBig chainId]) (\<lambda>out.
     io_lift (convert_out0 B (VUint64 0) asUint64 out))"

definition Session_GetLatestTransitionedEpoch ::
    "('b, 'p, 'w) bind_lib \<Rightarrow> 'w RelayHubSession \<Rightarrow> int \<Rightarrow> ('w, u64) io" where
  "Session_GetLatestTransitionedEpoch B s chainId =
     Caller_GetLatestTransitionedEpoch B (hubCaller (sessionContract s)) (sessionCallOpts s)
       chainId"

definition CallerSession_GetLatestTransitionedEpoch ::
    "('b, 'p, 'w) bind_lib \<Rightarrow> 'w RelayHubCallerSession \<Rightarrow> int \<Rightarrow> ('w, u64) io" where
  "CallerSession_GetLatestTransitionedEpoch B s chainId =
     Caller_GetLatestTransitionedEpoch B (callerSessionContract s) (callerSessionCallOpts s)
       chainId"

section \<open>Transactions\<close>

definition Transactor_CheckpointTransition ::
    "'w RelayHubTransactor \<Rightarrow> transact_opts \<Rightarrow> int \<Rightarrow> bytes \<Rightarrow> hash \<Rightarrow> bytes list \<Rightarrow> ('w, transaction) io" where
  "Transactor_CheckpointTransition hub opts chainId rawEpochBlock checkpointHash signatures =
     bcTransact (transactorContract hub) opts ''checkpointTransition''
       [VBig chainId, VBytes rawEpochBlock, VBytes32 checkpointHash, VBytesList signatures]"

definition Session_CheckpointTransition ::
    "'w RelayHubSession \<Rightarrow> int \<Rightarrow> bytes \<Rightarrow> hash \<Rightarrow> bytes list \<Rightarrow> ('w, transaction) io" where
  "Session_CheckpointTransition s chainId rawEpochBlock checkpointHash signatures =
     Transactor_CheckpointTransition (hubTransactor (sessionContract s)) (sessionTransactOpts s)
       chainId rawEpochBlock checkpointHash signatures"

definition TransactorSession_CheckpointTransition ::
    "'w RelayHubTransactorSession \<Rightarrow> int \<Rightarrow> bytes \<Rightarrow> hash \<Rightarrow> bytes list \<Rightarrow> ('w, transaction) io" where
  "TransactorSession_CheckpointTransition s chainId rawEpochBlock checkpointHash signatures =
     Transactor_CheckpointTransition (transactorSessionContract s) (transactorSessionTransactOpts s)
       chainId rawEpochBlock checkpointHash signatures"

definition Transactor_Multicall ::
    "'w RelayHubTransactor \<Rightarrow> transact_opts \<Rightarrow> bytes list \<Rightarrow> ('w, transaction) io" where
  "Transactor_Multicall hub opts data =
     bcTransact (transactorContract hub) opts ''multicall''
       [VBytesList data]"

definition Session_Multicall ::
    "'w RelayHubSession \<Rightarrow> bytes list \<Rightarrow> ('w, transaction) io" where
  "Session_Multicall s data =
     Transactor_Multicall (hubTransactor (sessionContract s)) (sessionTransactOpts s)
       data"

definition TransactorSession_Multicall ::
    "'w RelayHubTransactorSession \<Rightarrow> bytes list \<Rightarrow> ('w, transaction) io" where
  "TransactorSession_Multicall s data =
     Transactor_Multicall (transactorSessionContract s) (transactorSessionTransactOpts s)
       data"

definition Transactor_RegisterBAS ::
    "'w RelayHubTransactor \<Rightarrow> transact_opts \<Rightarrow> int \<Rightarrow> address \<Rightarrow> bytes \<Rightarrow> address \<Rightarrow> u32 \<Rightarrow> ('w, transaction) io" where
  "Transactor_RegisterBAS hub opts chainId verificationFunction genesisBlock bridgeAddress epochLength =
     bcTransact (transactorContract hub) opts ''registerBAS''
       [VBig chainId, VAddress verificationFunction, VBytes genesisBlock, VAddress bridgeAddress, VUint32 epochLength]"

definition Session_RegisterBAS ::
    "'w RelayHubSession \<Rightarrow> int \<Rightarrow> address \<Rightarrow> bytes \<Rightarrow> address \<Rightarrow> u32 \<Rightarrow> ('w, transaction) io" where
  "Session_RegisterBAS s chainId verificationFunction genesisBlock bridgeAddress epochLength =
     Transactor_RegisterBAS (hubTransactor (sessionContract s)) (sessionTransactOpts s)
       chainId verificationFunction genesisBlock bridgeAddress epochLength"

definition TransactorSession_RegisterBAS ::
    "'w RelayHubTransactorSession \<Rightarrow> int \<Rightarrow> address \<Rightarrow> bytes \<Rightarrow> address \<Rightarrow> u32 \<Rightarrow> ('w, transaction) io" where
  "TransactorSession_RegisterBAS s chainId verificationFunction genesisBlock bridgeAddress epochLength =
     Transactor_RegisterBAS (transactorSessionContract s) (transactorSessionTransactOpts s)
       chainId verificationFunction genesisBlock bridgeAddress epochLength"

definition Transactor_RegisterCertifiedBAS ::
    "'w RelayHubTransactor \<Rightarrow> transact_opts \<Rightarrow> int \<Rightarrow> bytes \<Rightarrow> address \<Rightarrow> u32 \<Rightarrow> ('w, transaction) io" where
  "Transactor_RegisterCertifiedBAS hub opts chainId genesisBlock bridgeAddress epochLength =
     bcTransact (transactorContract hub) opts ''registerCertifiedBAS''
       [VBig chainId, VBytes genesisBlock, VAddress bridgeAddress, VUint32 epochLength]"

definition Session_RegisterCertifiedBAS ::
    "'w RelayHubSession \<Rightarrow> int \<Rightarrow> bytes \<Rightarrow> address \<Rightarrow> u32 \<Rightarrow> ('w, transaction) io" where
  "Session_RegisterCertifiedBAS s chainId genesisBlock bridgeAddress epochLength =
     Transactor_RegisterCertifiedBAS (hubTransactor (sessionContract s)) (sessionTransactOpts s)
       chainId genesisBlock bridgeAddress epochLength"

definition TransactorSession_RegisterCertifiedBAS ::
    "'w RelayHubTransactorSession \<Rightarrow> int \<Rightarrow> bytes \<Rightarrow> address \<Rightarrow> u32 \<Rightarrow> ('w, transaction) io" where
  "TransactorSession_RegisterCertifiedBAS s chainId genesisBlock bridgeAddress epochLength =
     Transactor_RegisterCertifiedBAS (transactorSessionContract s) (transactorSessionTransactOpts s)
       chainId genesisBlock bridgeAddress epochLength"

definition Transactor_RegisterUsingCheckpoint ::
    "'w RelayHubTransactor \<Rightarrow> transact_opts \<Rightarrow> int \<Rightarrow> bytes \<Rightarrow> hash \<Rightarrow> address \<Rightarrow> u32 \<Rightarrow> ('w, transaction) io" where
  "Transactor_RegisterUsingCheckpoint hub opts chainId checkpointBlock checkpointHash bridgeAddress epochLength =
     bcTransact (transactorContract hub) opts ''registerUsingCheckpoint''
       [VBig chainId, VBytes checkpointBlock, VBytes32 checkpointHash, VAddress bridgeAddress, VUint32 epochLength]"

definition Session_RegisterUsingCheckpoint ::
    "'w RelayHubSession \<Rightarrow> int \<Rightarrow> bytes \<Rightarrow> hash \<Rightarrow> address \<Rightarrow> u32 \<Rightarrow> ('w, transaction) io" where
  "Session_RegisterUsingCheckpoint s chainId checkpointBlock checkpointHash bridgeAddress epochLength =
     Transactor_RegisterUsingCheckpoint (hubTransactor (sessionContract s)) (sessionTransactOpts s)
       chainId checkpointBlock checkpointHash bridgeAddress epochLength"

definition TransactorSession_RegisterUsingCheckpoint ::
    "'w RelayHubTransactorSession \<Rightarrow> int \<Rightarrow> bytes \<Rightarrow> hash \<Rightarrow> address \<Rightarrow> u32 \<Rightarrow> ('w, transaction) io" where
  "TransactorSession_RegisterUsingCheckpoint s chainId checkpointBlock checkpointHash bridgeAddress epochLength =
     Transactor_RegisterUsingCheckpoint (transactorSessionContract s) (transactorSessionTransactOpts s)
       chainId checkpointBlock checkpointHash bridgeAddress epochLength"

definition Transactor_UpdateValidatorSet ::
    "'w RelayHubTransactor \<Rightarrow> transact_opts \<Rightarrow> int \<Rightarrow> bytes list \<Rightarrow> ('w, transaction) io" where
  "Transactor_UpdateValidatorSet hub opts chainId blockProofs =
     bcTransact (transactorContract hub) opts ''updateValidatorSet''
       [VBig chainId, VBytesList blockProofs]"

definition Session_UpdateValidatorSet ::
    "'w RelayHubSession \<Rightarrow> int \<Rightarrow> bytes list \<Rightarrow> ('w, transaction) io" where
  "Session_UpdateValidatorSet s chainId blockProofs =
     Transactor_UpdateValidatorSet (hubTransactor (sessionContract s)) (sessionTransactOpts s)
       chainId blockProofs"

definition TransactorSession_UpdateValidatorSet ::
    "'w RelayHubTransactorSession \<Rightarrow> int \<Rightarrow> bytes list \<Rightarrow> ('w, transaction) io" where
  "TransactorSession_UpdateValidatorSet s chainId blockProofs =
     Transactor_UpdateValidatorSet (transactorSessionContract s) (transactorSessionTransactOpts s)
       chainId blockProofs"

definition Transactor_UpdateValidatorSetUsingEpochBlocks ::
    "'w RelayHubTransactor \<Rightarrow> transact_opts \<Rightarrow> int \<Rightarrow> bytes list \<Rightarrow> ('w, transaction) io" where
  "Transactor_UpdateValidatorSetUsingEpochBlocks hub opts chainId blockProofs =
     bcTransact (transactorContract hub) opts ''updateValidatorSetUsingEpochBlocks''
       [VBig chainId, VBytesList blockProofs]"

definition Session_UpdateValidatorSetUsingEpochBlocks ::
    "'w RelayHubSession \<Rightarrow> int \<Rightarrow> bytes list \<Rightarrow> ('w, transaction) io" where
  "Session_UpdateValidatorSetUsingEpochBlocks s chainId blockProofs =
     Transactor_UpdateValidatorSetUsingEpochBlocks (hubTransactor (sessionContract s)) (sessionTransactOpts s)
       chainId blockProofs"

definition TransactorSession_UpdateValidatorSetUsingEpochBlocks ::
    "'w RelayHubTransactorSession \<Rightarrow> int \<Rightarrow> bytes list \<Rightarrow> ('w, transaction) io" where
  "TransactorSession_UpdateValidatorSetUsingEpochBlocks s chainId blockProofs =
     Transactor_UpdateValidatorSetUsingEpochBlocks (transactorSessionContract s) (transactorSessionTransactOpts s)
       chainId blockProofs"

section \<open>Properties\<close>

text \<open>
  \<open>GetLatestTransitionedEpoch\<close> returns an epoch exactly when the contract call returns
  an output whose first value converts to a \<open>uint64\<close>; an error of the call is returned as it is, and
  an empty or wrongly typed output panics. The world is the one the call leaves behind.
\<close>

theorem GetLatestTransitionedEpoch_cases:
  "Caller_GetLatestTransitionedEpoch B hub opts chainId w =
    (case bcCall (callerContract hub) opts ''getLatestTransitionedEpoch'' [VBig chainId] w of
       (Ret [], w') \<Rightarrow> (Panic IndexOutOfRange, w')
     | (Ret (v # _), w') \<Rightarrow>
         ((case convertType B v (VUint64 0) of
             Ret (VUint64 e) \<Rightarrow> Ret e
           | Ret _ \<Rightarrow> Panic TypeAssertion
           | Fail e \<Rightarrow> Fail e
           | Panic p \<Rightarrow> Panic p
           | Exit m \<Rightarrow> Exit m), w')
     | (Fail e, w') \<Rightarrow> (Fail e, w')
     | (Panic p, w') \<Rightarrow> (Panic p, w')
     | (Exit m, w') \<Rightarrow> (Exit m, w'))"
proof -
  have conv: "outcome_bind r (\<lambda>c. case asUint64 c of Some x \<Rightarrow> Ret x | None \<Rightarrow> Panic TypeAssertion) =
      (case r of Ret (VUint64 e) \<Rightarrow> Ret e | Ret _ \<Rightarrow> Panic TypeAssertion
       | Fail e \<Rightarrow> Fail e | Panic p \<Rightarrow> Panic p | Exit m \<Rightarrow> Exit m)" for r
    by (cases r) (auto split: go_val.splits)
  show ?thesis
    by (auto simp: Caller_GetLatestTransitionedEpoch_def io_bind_def io_lift_def convert_out0_def
        go_index_def conv split: prod.splits outcome.splits list.splits)
qed

end
