(* ===== verification/Parlia.thy ===== *)
theory Parlia
  imports Ethereum
begin

text \<open>
  Parlia block headers (\<open>relayer/parlia.go\<close>): the extra data of a header is a 32 byte vanity, the
  validators of the epoch as 20 byte addresses, and a 65 byte seal. This theory models the two
  encoders of the sealed part, the recovery of the signer from the seal and the parser of the
  validator list.
\<close>

section \<open>Definitions\<close>

definition extraVanity :: nat where "extraVanity = 32"

definition extraSeal :: nat where "extraSeal = 65"

definition addressLength :: nat where "addressLength = 20"

text \<open>The writer is the buffer's content; the encoder appends to it.\<close>

definition encodeSigHeader :: "rlp_lib \<Rightarrow> bytes \<Rightarrow> header \<Rightarrow> int \<Rightarrow> bytes outcome" where
  "encodeSigHeader L w header chainId =
     outcome_bind (go_slice (hdrExtra header) 0 (int (length (hdrExtra header)) - 65)) (\<lambda>extra.
     outcome_bind (panic_on_error ''can't encode: '' (rlpEncode L
       [RlpBig chainId,
        RlpHash (hdrParentHash header),
        RlpHash (hdrUncleHash header),
        RlpAddress (hdrCoinbase header),
        RlpHash (hdrRoot header),
        RlpHash (hdrTxHash header),
        RlpHash (hdrReceiptHash header),
        RlpBloom (hdrBloom header),
        RlpBig (hdrDifficulty header),
        RlpBig (hdrNumber header),
        RlpUint (hdrGasLimit header),
        RlpUint (hdrGasUsed header),
        RlpUint (hdrTime header),
        RlpBytes extra,
        RlpHash (hdrMixDigest header),
        RlpNonce (hdrNonce header)])) (\<lambda>encoded.
     Ret (w @ encoded)))"

definition parliaRlp :: "rlp_lib \<Rightarrow> header \<Rightarrow> int \<Rightarrow> bytes outcome" where
  "parliaRlp L header chainId = encodeSigHeader L [] header chainId"

definition recoverParliaBlockSigner ::
    "crypto_lib \<Rightarrow> rlp_lib \<Rightarrow> header \<Rightarrow> int \<Rightarrow> address outcome" where
  "recoverParliaBlockSigner C L header chainId =
     (let n = length (hdrExtra header) in
      if n < extraSeal then Fail ErrBadParliaBlock
      else
        outcome_bind (go_slice (hdrExtra header) (int n - int extraSeal) (int n)) (\<lambda>signature.
        outcome_bind (go_slice (hdrExtra header) 0 (int n - 65)) (\<lambda>extra.
        outcome_bind (panic_on_error ''can't encode: '' (rlpEncode L
          [RlpBig chainId,
           RlpHash (hdrParentHash header),
           RlpHash (hdrUncleHash header),
           RlpAddress (hdrCoinbase header),
           RlpHash (hdrRoot header),
           RlpHash (hdrTxHash header),
           RlpHash (hdrReceiptHash header),
           RlpBloom (hdrBloom header),
           RlpBig (hdrDifficulty header),
           RlpBig (hdrNumber header),
           RlpUint (hdrGasLimit header),
           RlpUint (hdrGasUsed header),
           RlpUint (hdrTime header),
           RlpBytes extra,
           RlpHash (hdrMixDigest header),
           RlpNonce (hdrNonce header)])) (\<lambda>signingData.
        outcome_bind (ecrecover C (keccak256 C signingData) signature) (\<lambda>publicKey.
        outcome_bind (go_slice publicKey 1 (int (length publicKey))) (\<lambda>key.
        outcome_bind (go_slice (keccak256 C key) 12 (int (length (keccak256 C key)))) (\<lambda>tail.
        Ret (go_copy zero_address tail))))))))"

text \<open>The loop of \<open>extractParliaValidators\<close>: \<open>i\<close> is the loop variable, \<open>n\<close> its bound.\<close>

function validators_loop ::
    "codec_lib \<Rightarrow> bytes \<Rightarrow> nat \<Rightarrow> nat \<Rightarrow> address list \<Rightarrow> (address, bool) gomap \<Rightarrow>
     (address list \<times> (address, bool) gomap) outcome" where
  "validators_loop cd validatorBytes n i result mapping =
     (if i < n then
        outcome_bind (go_slice validatorBytes (int (i * addressLength)) (int ((i + 1) * addressLength)))
          (\<lambda>chunk.
            let address = go_copy (replicate addressLength 0) chunk in
            validators_loop cd validatorBytes n (i + 1)
              (result[i := bytesToAddress cd address])
              (go_put (bytesToAddress cd address) True mapping))
      else Ret (result, mapping))"
  by pat_completeness auto
termination
  by (relation "measure (\<lambda>(_, _, n, i, _, _). n - i)") auto

declare validators_loop.simps [simp del]

definition extractParliaValidators ::
    "codec_lib \<Rightarrow> header \<Rightarrow> (address list \<times> (address, bool) gomap) outcome" where
  "extractParliaValidators cd header =
     outcome_bind (go_slice (hdrExtra header) (int extraVanity)
                     (int (length (hdrExtra header)) - int extraSeal)) (\<lambda>validatorBytes.
     if length validatorBytes mod addressLength \<noteq> 0 then Fail ErrBadParliaBlock
     else
       let n = length validatorBytes div addressLength in
       validators_loop cd validatorBytes n 0 (replicate n zero_address) [])"

section \<open>The loop\<close>

definition validator_at :: "codec_lib \<Rightarrow> bytes \<Rightarrow> nat \<Rightarrow> address" where
  "validator_at cd vb i = bytesToAddress cd (take addressLength (drop (i * addressLength) vb))"

definition members_of :: "address list \<Rightarrow> (address, bool) gomap \<Rightarrow> bool" where
  "members_of vs m \<longleftrightarrow> wf_map m \<and> map_of m = (\<lambda>a. if a \<in> set vs then Some True else None)"

lemma validators_loop_eq:
  assumes "length vb = n * addressLength" and "i \<le> n" and "length res = n"
    and "take i res = map (validator_at cd vb) [0..<i]"
    and "members_of (take i res) m"
  shows "\<exists>m'. validators_loop cd vb n i res m = Ret (map (validator_at cd vb) [0..<n], m') \<and>
           members_of (map (validator_at cd vb) [0..<n]) m'"
  using assms
proof (induction cd vb n i res m rule: validators_loop.induct)
  case (1 cd vb n i res m)
  show ?case
  proof (cases "i < n")
    case True
    let ?chunk = "take addressLength (drop (i * addressLength) vb)"
    let ?v = "validator_at cd vb i"
    have bound: "(i + 1) * addressLength \<le> length vb"
      using True "1.prems"(1) by (metis Suc_eq_plus1 Suc_leI mult_le_mono1)
    have chunk: "go_slice vb (int (i * addressLength)) (int ((i + 1) * addressLength)) = Ret ?chunk"
      using bound by (simp add: go_slice_def algebra_simps nat_mult_distrib flip: of_nat_mult)
    have len: "length ?chunk = addressLength"
      using bound by simp
    have copy: "go_copy (replicate addressLength 0) ?chunk = ?chunk"
      using len by simp
    have upd: "take (i + 1) (res[i := ?v]) = take i res @ [?v]"
      using True "1.prems"(3) by (simp add: take_Suc_conv_app_nth)
    have mem: "members_of (take (i + 1) (res[i := ?v])) (go_put ?v True m)"
      using "1.prems"(5) unfolding upd by (auto simp: members_of_def fun_eq_iff)
    have "\<exists>m'. validators_loop cd vb n (i + 1) (res[i := ?v]) (go_put ?v True m) =
             Ret (map (validator_at cd vb) [0..<n], m') \<and>
             members_of (map (validator_at cd vb) [0..<n]) m'"
      using "1.IH" [OF True refl, where x = ?chunk] mem upd True "1.prems"(1,3,4)
      by (simp add: copy flip: validator_at_def)
    then show ?thesis
      using True chunk
      by (simp add: validators_loop.simps [of cd vb n i res m] copy flip: validator_at_def)
  next
    case False
    then have "validators_loop cd vb n i res m = Ret (res, m)"
      by (simp add: validators_loop.simps [of cd vb n i res m])
    with False "1.prems" show ?thesis
      by simp
  qed
qed

lemma extract_eq:
  "extractParliaValidators cd h =
     (let e = hdrExtra h; vb = take (length e - 97) (drop 32 e) in
      if length e < 97 then Panic SliceBounds
      else if (length e - 97) mod 20 \<noteq> 0 then Fail ErrBadParliaBlock
      else validators_loop cd vb ((length e - 97) div 20) 0
             (replicate ((length e - 97) div 20) zero_address) [])"
proof (cases "length (hdrExtra h) < 97")
  case True
  then show ?thesis
    by (auto simp: extractParliaValidators_def go_slice_def extraVanity_def extraSeal_def)
next
  case False
  then have "nat (int (length (hdrExtra h)) - 65 - 32) = length (hdrExtra h) - 97"
    by arith
  with False show ?thesis
    by (simp add: extractParliaValidators_def go_slice_def extraVanity_def extraSeal_def
        addressLength_def Let_def min_absorb2)
qed

lemma extract_loop_result:
  assumes "length vb mod 20 = 0"
  shows "\<exists>m. validators_loop cd vb (length vb div 20) 0 (replicate (length vb div 20) zero_address) [] =
               Ret (map (validator_at cd vb) [0..<length vb div 20], m) \<and>
             members_of (map (validator_at cd vb) [0..<length vb div 20]) m"
proof (rule validators_loop_eq)
  show "length vb = length vb div 20 * addressLength"
    using assms by (simp add: addressLength_def) presburger
qed (auto simp: members_of_def)

lemma extract_of_parts:
  assumes "codec_laws cd"
    and "hdrExtra h = vanity @ concat (map (addressBytes cd) vs) @ seal"
    and "length vanity = extraVanity" and "length seal = extraSeal"
    and "\<forall>v\<in>set vs. length v = addressLength"
  shows "\<exists>m. extractParliaValidators cd h = Ret (vs, m) \<and> members_of vs m"
proof -
  let ?bs = "map (addressBytes cd) vs"
  have len: "\<forall>b\<in>set ?bs. length b = 20"
    using assms(1,5) by (auto simp: codec_addressD addressLength_def)
  have total: "length (concat ?bs) = length vs * 20"
    using length_concat_uniform [OF len] by simp
  have vb: "take (length (hdrExtra h) - 97) (drop 32 (hdrExtra h)) = concat ?bs"
    using assms(2,3,4) by (simp add: extraVanity_def extraSeal_def)
  have "validator_at cd (concat ?bs) i = vs ! i" if "i < length vs" for i
  proof -
    have "length (vs ! i) = 20"
      using assms(5) that by (simp add: addressLength_def)
    moreover have "take 20 (drop (i * 20) (concat ?bs)) = addressBytes cd (vs ! i)"
      using take_drop_concat [OF len, of i] that by simp
    ultimately show ?thesis
      using codec_addressD(2) [OF assms(1)] by (simp only: validator_at_def addressLength_def)
  qed
  then have "map (validator_at cd (concat ?bs)) [0..<length vs] = map ((!) vs) [0..<length vs]"
    by (intro map_cong) auto
  then have "map (validator_at cd (concat ?bs)) [0..<length vs] = vs"
    by (simp only: map_nth)
  then have loop: "\<exists>m. validators_loop cd (concat ?bs) (length vs) 0
      (replicate (length vs) zero_address) [] = Ret (vs, m) \<and> members_of vs m"
    using extract_loop_result [of "concat ?bs" cd] total by simp
  have "length (hdrExtra h) = 97 + length vs * 20"
    using assms(2,3,4) total by (simp add: extraVanity_def extraSeal_def)
  then have "extractParliaValidators cd h =
      validators_loop cd (concat ?bs) (length vs) 0 (replicate (length vs) zero_address) []"
    using vb by (simp add: extract_eq Let_def)
  with loop show ?thesis by simp
qed

section \<open>The signed bytes\<close>

lemma recover_of_parliaRlp:
  assumes "\<not> length (hdrExtra h) < extraSeal"
  shows "recoverParliaBlockSigner C L h chainId =
    outcome_bind (parliaRlp L h chainId) (\<lambda>signingData.
    outcome_bind (ecrecover C (keccak256 C signingData)
      (drop (length (hdrExtra h) - extraSeal) (hdrExtra h))) (\<lambda>publicKey.
    outcome_bind (go_slice publicKey 1 (int (length publicKey))) (\<lambda>key.
    outcome_bind (go_slice (keccak256 C key) 12 (int (length (keccak256 C key)))) (\<lambda>tail.
    Ret (go_copy zero_address tail)))))"
proof -
  have "nat (int (length (hdrExtra h)) - 65) = length (hdrExtra h) - 65"
    by arith
  with assms show ?thesis
    by (simp add: recoverParliaBlockSigner_def parliaRlp_def encodeSigHeader_def go_slice_def
        extraSeal_def Let_def)
qed

section \<open>Properties\<close>

text \<open>
  \<open>extractParliaValidators\<close> on every header: it panics when the extra data is shorter
  than vanity and seal together, returns \<open>errBadParliaBlock\<close> when the middle part is not a whole
  number of addresses, and otherwise returns the addresses in order together with a map whose keys
  are exactly those addresses, each mapped to true.
\<close>

theorem extractParliaValidators_cases:
  "(let e = hdrExtra h; n = (length e - 97) div 20 in
    if length e < 97 then extractParliaValidators cd h = Panic SliceBounds
    else if (length e - 97) mod 20 \<noteq> 0 then extractParliaValidators cd h = Fail ErrBadParliaBlock
    else \<exists>m. extractParliaValidators cd h =
               Ret (map (validator_at cd (take (length e - 97) (drop 32 e))) [0..<n], m) \<and>
             members_of (map (validator_at cd (take (length e - 97) (drop 32 e))) [0..<n]) m)"
proof -
  let ?vb = "take (length (hdrExtra h) - 97) (drop 32 (hdrExtra h))"
  show ?thesis
    using extract_loop_result [of ?vb cd] by (auto simp: extract_eq Let_def min_absorb2)
qed

text \<open>
  Round trip: a header whose extra data is a vanity, the bytes of a list of addresses
  and a seal parses back to that list, and the returned map answers membership in it.
\<close>

theorem extractParliaValidators_roundtrip:
  assumes "codec_laws cd"
    and "hdrExtra h = vanity @ concat (map (addressBytes cd) vs) @ seal"
    and "length vanity = extraVanity" and "length seal = extraSeal"
    and "\<forall>v\<in>set vs. length v = addressLength"
  shows "\<exists>m. extractParliaValidators cd h = Ret (vs, m) \<and> members_of vs m"
  using assms by (rule extract_of_parts)

theorem extractParliaValidators_roundtrip_witness:
  "\<exists>m. extractParliaValidators sample_codec (sample_header 7 [1, 2, 3] 1) =
         Ret (map sample_address [1, 2, 3], m) \<and> members_of (map sample_address [1, 2, 3]) m"
  by (rule extractParliaValidators_roundtrip [where vanity = "replicate 32 0" and seal = "sample_pub 1"])
     (simp_all add: sample_header_def extraVanity_def extraSeal_def addressLength_def)

text \<open>
  Sealing round trip: a header whose last 65 bytes are a signature, under some key, of
  the hash of its sealed part (\<open>parliaRlp\<close>) recovers to the address of that key.
\<close>

theorem recoverParliaBlockSigner_seal:
  assumes "crypto_laws C pub"
    and "parliaRlp L h chainId = Ret signingData"
    and "ecSign C (keccak256 C signingData) key = Ret sig"
    and "drop (length (hdrExtra h) - extraSeal) (hdrExtra h) = sig"
  shows "recoverParliaBlockSigner C L h chainId = Ret (keyToAddress C key)"
proof -
  note laws = crypto_lawsD [OF assms(1)]
  have "length sig = 65"
    using laws(4) [OF assms(3)] .
  then have "\<not> length (hdrExtra h) < extraSeal"
    using assms(4) by (auto simp: extraSeal_def)
  moreover have "length (keyToAddress C key) = 20"
    by (simp add: laws)
  ultimately show ?thesis
    using recover_of_parliaRlp [of h C L chainId] assms(2,4) laws(5) [OF assms(3)]
    by (simp add: laws go_slice_def zero_address_def)
qed

theorem recoverParliaBlockSigner_seal_witness:
  "recoverParliaBlockSigner sample_crypto sample_rlp (sample_header 7 [1, 2, 3] 9) 97 =
     Ret (keyToAddress sample_crypto 9)"
  by (rule recoverParliaBlockSigner_seal [where pub = sample_pub and sig = "sample_pub 9"])
     (simp_all add: parliaRlp_def encodeSigHeader_def go_slice_def sample_header_def extraSeal_def)

end
