(* ===== verification/Node.thy ===== *)
theory Node
  imports Binding Parlia
begin

text \<open>
  The view of one chain that a worker holds (\<open>nodeConfig\<close> and \<open>toNodeConfig\<close> of
  \<open>relayer/service.go\<close>), and reading consecutive blocks from its client.
\<close>

section \<open>Definitions\<close>

record 'w nodeConfig =
  ncClient :: "'w eth_client"
  ncRelayHub :: "'w RelayHub option"
  ncConfig :: Config
  ncChainConfig :: ChainConfig
  ncChainId :: int

text \<open>The binding's error is assigned to the blank identifier; the pointer is nil in that case.\<close>

fun ignore_error :: "'a outcome \<Rightarrow> 'a option outcome" where
  "ignore_error (Ret x) = Ret (Some x)"
| "ignore_error (Fail e) = Ret None"
| "ignore_error (Panic p) = Panic p"
| "ignore_error (Exit m) = Exit m"

definition toNodeConfig ::
    "codec_lib \<Rightarrow> ('w eth_client, 'p, 'w) bind_lib \<Rightarrow> string \<Rightarrow> 'w eth_client \<Rightarrow> 'w eth_client \<Rightarrow>
     Config \<Rightarrow> bool \<Rightarrow> ('w, 'w nodeConfig) io" where
  "toNodeConfig cd B abiText rootRpc childRpc config isRoot =
     (let client = (if isRoot then rootRpc else childRpc);
          chainConfig = (if isRoot then Root config else Child config) in
      io_bind (io_lift (ignore_error
        (NewRelayHub B abiText (hexToAddress cd (RelayHubAddress chainConfig)) client))) (\<lambda>relayHub.
      io_bind (io_map (fatal_on_error ''failed to fetch chain id from node'') (ethChainID client)) (\<lambda>chainId.
      if sint (ChainId chainConfig) \<noteq> chainId then io_lift (Exit ''chain id mismatched'')
      else io_ret \<lparr>ncClient = client, ncRelayHub = relayHub, ncConfig = config,
                   ncChainConfig = chainConfig, ncChainId = chainId\<rparr>)))"

section \<open>Consecutive blocks\<close>

text \<open>The blocks \<open>i\<close>, \<open>i + 1\<close>, ... fetched one after the other, without the checks of the callers:
  the specifications of the proof builders speak about it.\<close>

fun fetch_run :: "'w eth_client \<Rightarrow> nat \<Rightarrow> u64 \<Rightarrow> ('w, block list) io" where
  "fetch_run client 0 i = io_ret []"
| "fetch_run client (Suc n) i =
     io_bind (fetch_block client i) (\<lambda>block.
     io_bind (fetch_run client n (i + 1)) (\<lambda>blocks.
     io_ret (block # blocks)))"

lemma fetch_run_length: "fetch_run client n i w = (Ret blocks, w') \<Longrightarrow> length blocks = n"
  by (induction n arbitrary: i w blocks) (auto simp: io_inv)

lemma fetch_run_Cons:
  "fetch_block client i w = (Ret b, w1) \<Longrightarrow> fetch_run client n (i + 1) w1 = (Ret bs, w') \<Longrightarrow>
   fetch_run client (Suc n) i w = (Ret (b # bs), w')"
  by (auto simp: io_inv)

text \<open>Counting a \<open>u64\<close> up to a bound.\<close>

lemma unat_Suc_less: "(i::u64) < stop \<Longrightarrow> unat (i + 1) = Suc (unat i)"
proof -
  assume "i < stop"
  then have "unat i < unat stop" by (simp add: word_less_nat_alt)
  then have "Suc (unat i) < 2 ^ 64" using unsigned_less [of stop, where 'a = nat] by simp
  then show ?thesis by (simp add: unat_word_ariths)
qed

lemma count_down: "(i::u64) < stop \<Longrightarrow> unat stop - unat (i + 1) < unat stop - unat i"
  using unat_Suc_less [of i stop] by (simp add: word_less_nat_alt)

lemma count_down_Suc: "(i::u64) < stop \<Longrightarrow> unat stop - unat i = Suc (unat stop - unat (i + 1))"
  using unat_Suc_less [of i stop] by (simp add: word_less_nat_alt)

lemma count_done: "\<not> (i::u64) < stop \<Longrightarrow> unat stop - unat i = 0"
  by (simp add: word_less_nat_alt)

lemma range_length_le: "unat (a + len) - unat a \<le> unat (len::u64)"
  by (simp add: unat_word_ariths)

lemma range_length: "unat a + unat len < 2 ^ 64 \<Longrightarrow> unat (a + len) - unat a = unat (len::u64)"
  by (simp add: unat_word_ariths)

section \<open>Properties\<close>

text \<open>
  \<open>toNodeConfig\<close> returns a node only if the chain id that the node reports is the
  configured one; client and chain configuration then belong to the same side, and the hub is the
  binding of the configured address over that client, or nil if the binding failed.
\<close>

theorem toNodeConfig_returns:
  assumes "toNodeConfig cd B abiText rootRpc childRpc config isRoot w = (Ret nc, w')"
  shows "ncChainConfig nc = (if isRoot then Root config else Child config)
         \<and> ncClient nc = (if isRoot then rootRpc else childRpc)
         \<and> ethChainID (ncClient nc) w = (Ret (ncChainId nc), w')
         \<and> ncChainId nc = sint (ChainId (ncChainConfig nc))
         \<and> ncConfig nc = config
         \<and> (ncRelayHub nc = None \<or>
            NewRelayHub B abiText (hexToAddress cd (RelayHubAddress (ncChainConfig nc))) (ncClient nc)
              = Ret (the (ncRelayHub nc)))"
proof -
  define chain where "chain = (if isRoot then Root config else Child config)"
  define client where "client = (if isRoot then rootRpc else childRpc)"
  obtain hub where hub: "ignore_error (NewRelayHub B abiText (hexToAddress cd (RelayHubAddress chain)) client)
        = Ret hub"
    and rest: "io_bind (io_map (fatal_on_error ''failed to fetch chain id from node'') (ethChainID client))
        (\<lambda>chainId. if sint (ChainId chain) \<noteq> chainId then io_lift (Exit ''chain id mismatched'')
          else io_ret \<lparr>ncClient = client, ncRelayHub = hub, ncConfig = config,
                   ncChainConfig = chain, ncChainId = chainId\<rparr>) w = (Ret nc, w')"
    using assms unfolding toNodeConfig_def Let_def chain_def [symmetric] client_def [symmetric]
    by (auto simp: io_bind_Ret_iff io_lift_iff)
  have "hub = None \<or> NewRelayHub B abiText (hexToAddress cd (RelayHubAddress chain)) client = Ret (the hub)"
    using hub by (cases "NewRelayHub B abiText (hexToAddress cd (RelayHubAddress chain)) client") auto
  moreover obtain chainId where "ethChainID client w = (Ret chainId, w')" "sint (ChainId chain) = chainId"
    "nc = \<lparr>ncClient = client, ncRelayHub = hub, ncConfig = config, ncChainConfig = chain, ncChainId = chainId\<rparr>"
    using rest by (auto simp: io_inv io_map_def split: if_splits prod.splits)
  ultimately show ?thesis
    by (simp add: chain_def client_def)
qed

definition sample_bind :: "('b, unit, 'w) bind_lib" where
  "sample_bind = \<lparr>abiJSON = (\<lambda>text. if text = [] then Fail (LibError ''unexpected end of input'') else Ret ()),
     newBoundContract = (\<lambda>a p x y z. \<lparr>bcCall = (\<lambda>opts name args w. (Ret [VUint64 1], w)),
       bcTransact = (\<lambda>opts name args w. (Fail (LibError ''unsent''), w)),
       bcTransfer = (\<lambda>opts w. (Fail (LibError ''unsent''), w)),
       bcFilterLogs = (\<lambda>opts name query w. (Ret ([], \<lparr>subErr = Some None\<rparr>), w)),
       bcWatchLogs = (\<lambda>opts name query w. (Ret ([], \<lparr>subErr = None\<rparr>), w)),
       bcUnpackChainRegistered = (\<lambda>out name l. (Ret (), out)),
       bcUnpackValidatorSetUpdated = (\<lambda>out name l. (Ret (), out))\<rparr>),
     convertType = (\<lambda>v proto. Ret v)\<rparr>"

definition sample_rpc :: "int \<Rightarrow> unit eth_client" where
  "sample_rpc chainId = \<lparr>ethBlockNumber = (\<lambda>w. (Ret 100, w)), ethChainID = (\<lambda>w. (Ret chainId, w)),
     ethBlockByNumber = (\<lambda>i w. (Fail (LibError ''none''), w)), ethHasReceipt = (\<lambda>h w. (True, w))\<rparr>"

definition sample_side :: "u64 \<Rightarrow> ChainConfig" where
  "sample_side chainId = \<lparr>ChainName = ''side'', RpcUrl = [], RelayHubAddress = ''0x1'', ChainId = chainId,
     Confirmations = 15, GasLimit = 0, EpochLength = 200\<rparr>"

theorem toNodeConfig_returns_witness:
  "\<exists>nc. toNodeConfig sample_codec sample_bind ''[]'' (sample_rpc 56) (sample_rpc 97)
      \<lparr>Root = sample_side 56, Child = sample_side 97,
        Relayer = \<lparr>PrivateKey = 9, GrpcAddress = [], RelayerUrls = []\<rparr>\<rparr> False () = (Ret nc, ())
    \<and> ncChainId nc = 97 \<and> ncChainConfig nc = sample_side 97"
proof -
  let ?config = "\<lparr>Root = sample_side 56, Child = sample_side 97,
        Relayer = \<lparr>PrivateKey = 9, GrpcAddress = [], RelayerUrls = []\<rparr>\<rparr>"
  obtain nc where run: "toNodeConfig sample_codec sample_bind ''[]'' (sample_rpc 56) (sample_rpc 97)
      ?config False () = (Ret nc, ())"
    by (simp add: toNodeConfig_def NewRelayHub_def bindRelayHub_def sample_bind_def sample_rpc_def
        sample_side_def io_bind_def io_lift_def io_ret_def io_map_def Let_def)
  show ?thesis
    using toNodeConfig_returns [OF run] run by (auto simp: sample_side_def)
qed

end
