(* ===== verification/BlockProofs.thy ===== *)
theory BlockProofs
  imports Node
begin

text \<open>
  Proofs of an epoch transition by confirmations (\<open>relayer/proof.go\<close>): the quorum of the next epoch,
  and the list of signed headers that reaches it. The warning for a signer outside the validator
  set is only logged by the code and has no counterpart here.
\<close>

section \<open>Definitions\<close>

definition quorumOf :: "address list \<Rightarrow> nat" where
  "quorumOf validators = length validators * 2 div 3"

definition calcRequiredQuorumForNextEpoch ::
    "codec_lib \<Rightarrow> 'w nodeConfig \<Rightarrow> u64 \<Rightarrow> ('w, nat) io" where
  "calcRequiredQuorumForNextEpoch cd nc epochBlock =
     io_bind (io_wrap ''can't fetch prev epoch block''
       (fetch_block (ncClient nc) (epochBlock - EpochLength (ncChainConfig nc)))) (\<lambda>prevEpochBlock.
     io_bind (io_lift (wrap_error ''failed to extract parlia block validators''
       (extractParliaValidators cd (blkHeader prevEpochBlock)))) (\<lambda>(prevEpochValidators, _).
     io_ret (quorumOf prevEpochValidators)))"

text \<open>One round of the loop: fetch block \<open>i\<close>, check its seal, encode its header.\<close>

definition check_block ::
    "crypto_lib \<Rightarrow> rlp_lib \<Rightarrow> 'w eth_client \<Rightarrow> int \<Rightarrow> u64 \<Rightarrow> ('w, block \<times> bytes) io" where
  "check_block C L client chainId i =
     io_bind (io_wrap ''can't fetch fetch block'' (fetch_block client i)) (\<lambda>block.
     let coinbase = blkCoinbase block in
     io_bind (io_lift (recoverParliaBlockSigner C L (blkHeader block) chainId)) (\<lambda>signer.
     if coinbase \<noteq> signer then io_lift (Fail (ErrBadBlockSigner coinbase signer))
     else
       io_bind (io_lift (wrap_error ''rlp encode failed'' (rlpEncodeHeader L (blkHeader block)))) (\<lambda>blockRlp.
       io_ret (block, blockRlp))))"

function proofs_loop ::
    "crypto_lib \<Rightarrow> rlp_lib \<Rightarrow> 'w eth_client \<Rightarrow> int \<Rightarrow> nat \<Rightarrow> u64 \<Rightarrow> u64 \<Rightarrow> (address, bool) gomap \<Rightarrow>
     bytes list \<Rightarrow> ('w, (address, bool) gomap \<times> bytes list) io" where
  "proofs_loop C L client chainId quorumRequired stop i uniqueSigners blockProofs =
     (if i < stop then
        io_bind (check_block C L client chainId i) (\<lambda>(block, blockRlp).
        let blockProofs = blockProofs @ [blockRlp];
            uniqueSigners = go_put (hdrCoinbase (blkHeader block)) True uniqueSigners in
        if length uniqueSigners \<ge> quorumRequired then io_ret (uniqueSigners, blockProofs)
        else proofs_loop C L client chainId quorumRequired stop (i + 1) uniqueSigners blockProofs)
      else io_ret (uniqueSigners, blockProofs))"
  by pat_completeness auto
termination
  by (relation "measure (\<lambda>(_, _, _, _, _, stop, i, _, _). unat stop - unat i)") (auto intro: count_down)

declare proofs_loop.simps [simp del]

definition createBlockProofs ::
    "codec_lib \<Rightarrow> crypto_lib \<Rightarrow> rlp_lib \<Rightarrow> 'w eth_client \<Rightarrow> u64 \<Rightarrow> u64 \<Rightarrow> ('w, bytes list) io" where
  "createBlockProofs cd C L client epochBlock epochLength =
     io_bind (ethChainID client) (\<lambda>chainId.
     io_bind (io_wrap ''can't fetch prev epoch block''
       (fetch_block client (epochBlock - epochLength))) (\<lambda>prevEpochBlock.
     io_bind (io_lift (wrap_error ''failed to extract parlia block validators''
       (extractParliaValidators cd (blkHeader prevEpochBlock)))) (\<lambda>(prevEpochValidators, _).
     let quorumRequired = quorumOf prevEpochValidators in
     io_bind (proofs_loop C L client chainId quorumRequired (epochBlock + epochLength) epochBlock [] [])
       (\<lambda>(uniqueSigners, blockProofs).
     if length uniqueSigners < quorumRequired
     then io_lift (Fail (ErrQuorumNotReached epochBlock (length uniqueSigners) quorumRequired))
     else io_ret blockProofs))))"

section \<open>The loop\<close>

lemma check_block_Ret_iff [io_inv]:
  "check_block C L client chainId i w = (Ret (b, rlp), w') \<longleftrightarrow>
     fetch_block client i w = (Ret b, w') \<and>
     recoverParliaBlockSigner C L (blkHeader b) chainId = Ret (blkCoinbase b) \<and>
     rlpEncodeHeader L (blkHeader b) = Ret rlp"
  by (auto simp: check_block_def io_inv Let_def split: if_splits)

definition sealed :: "crypto_lib \<Rightarrow> rlp_lib \<Rightarrow> int \<Rightarrow> block \<Rightarrow> bytes \<Rightarrow> bool" where
  "sealed C L chainId b rlp \<longleftrightarrow>
     recoverParliaBlockSigner C L (blkHeader b) chainId = Ret (blkCoinbase b) \<and>
     rlpEncodeHeader L (blkHeader b) = Ret rlp"

definition put_signers :: "(address, bool) gomap \<Rightarrow> block list \<Rightarrow> (address, bool) gomap" where
  "put_signers u blocks = foldl (\<lambda>u b. go_put (hdrCoinbase (blkHeader b)) True u) u blocks"

definition coinbases :: "block list \<Rightarrow> address set" where
  "coinbases blocks = (\<lambda>b. hdrCoinbase (blkHeader b)) ` set blocks"

lemma put_signers_simps [simp]:
  "put_signers u [] = u"
  "put_signers u (b # bs) = put_signers (go_put (hdrCoinbase (blkHeader b)) True u) bs"
  by (simp_all add: put_signers_def)

lemma put_signers_keys:
  "wf_map u \<Longrightarrow> wf_map (put_signers u bs) \<and> fst ` set (put_signers u bs) = fst ` set u \<union> coinbases bs"
  by (induction bs arbitrary: u) (auto simp: keys_put coinbases_def)

lemma put_signers_length: "length (put_signers [] bs) = card (coinbases bs)"
  using put_signers_keys [of "[]" bs] wf_map_length by fastforce

lemma put_signers_le: "length (put_signers [] bs) \<le> length bs"
  unfolding put_signers_length coinbases_def by (metis card_image_le card_length finite_set le_trans)

lemma proofs_loop_sound:
  assumes "proofs_loop C L client chainId q stop i u ps w = (Ret (u', ps'), w')"
  shows "\<exists>blocks rlps. ps' = ps @ rlps \<and> fetch_run client (length blocks) i w = (Ret blocks, w') \<and>
           list_all2 (sealed C L chainId) blocks rlps \<and> u' = put_signers u blocks \<and>
           length blocks \<le> unat stop - unat i \<and>
           (length blocks < unat stop - unat i \<longrightarrow> q \<le> length u') \<and>
           (\<forall>k. 0 < k \<and> k < length blocks \<longrightarrow> length (put_signers u (take k blocks)) < q)"
  using assms
proof (induction C L client chainId q stop i u ps arbitrary: w rule: proofs_loop.induct)
  case (1 C L client chainId q stop i u ps)
  show ?case
  proof (cases "i < stop")
    case False
    with "1.prems" show ?thesis
      by (intro exI [of _ "[]"]) (auto simp: proofs_loop.simps [of C L client chainId q stop i] io_inv count_done)
  next
    case True
    obtain b rlp w1 where chk: "check_block C L client chainId i w = (Ret (b, rlp), w1)"
      and rest: "(if q \<le> length (go_put (hdrCoinbase (blkHeader b)) True u)
                  then io_ret (go_put (hdrCoinbase (blkHeader b)) True u, ps @ [rlp])
                  else proofs_loop C L client chainId q stop (i + 1)
                         (go_put (hdrCoinbase (blkHeader b)) True u) (ps @ [rlp])) w1 = (Ret (u', ps'), w')"
      using "1.prems" True
      by (auto simp: proofs_loop.simps [of C L client chainId q stop i] io_bind_Ret_iff Let_def)
    let ?u = "go_put (hdrCoinbase (blkHeader b)) True u"
    have fb: "fetch_block client i w = (Ret b, w1)" and sb: "sealed C L chainId b rlp"
      using chk by (auto simp: check_block_Ret_iff sealed_def)
    show ?thesis
    proof (cases "q \<le> length ?u")
      case True
      then have "u' = ?u \<and> ps' = ps @ [rlp] \<and> w' = w1"
        using rest by (auto simp: io_ret_iff)
      with fb sb True show ?thesis
        using count_down_Suc [OF \<open>i < stop\<close>]
        by (intro exI [of _ "[b]"] exI [of _ "[rlp]"]) (auto simp: io_inv)
    next
      case False
      obtain blocks rlps where IH: "ps' = (ps @ [rlp]) @ rlps"
        "fetch_run client (length blocks) (i + 1) w1 = (Ret blocks, w')"
        "list_all2 (sealed C L chainId) blocks rlps" "u' = put_signers ?u blocks"
        "length blocks \<le> unat stop - unat (i + 1)"
        "length blocks < unat stop - unat (i + 1) \<longrightarrow> q \<le> length u'"
        "\<forall>k. 0 < k \<and> k < length blocks \<longrightarrow> length (put_signers ?u (take k blocks)) < q"
        using "1.IH" [OF \<open>i < stop\<close> refl refl False, of rlp w1] rest False by auto
      have "length (put_signers u (take k (b # blocks))) < q" if k: "0 < k \<and> k < length (b # blocks)" for k
      proof (cases "k = 1")
        case True
        with False show ?thesis by simp
      next
        case False
        with k obtain j where "k = Suc j" "0 < j" "j < length blocks" by (cases k) auto
        with IH(7) show ?thesis by simp
      qed
      then show ?thesis
        using IH fb sb count_down_Suc [OF \<open>i < stop\<close>] fetch_run_Cons [OF fb IH(2)]
        by (intro exI [of _ "b # blocks"] exI [of _ "rlp # rlps"]) auto
    qed
  qed
qed

lemma proofs_loop_complete:
  assumes "fetch_run client (length blocks) i w = (Ret blocks, w')"
    and "list_all2 (sealed C L chainId) blocks rlps"
    and "length blocks \<le> unat stop - unat i"
    and "\<forall>k. 0 < k \<and> k < length blocks \<longrightarrow> length (put_signers u (take k blocks)) < q"
    and "blocks \<noteq> [] \<and> q \<le> length (put_signers u blocks) \<or> length blocks = unat stop - unat i"
  shows "proofs_loop C L client chainId q stop i u ps w = (Ret (put_signers u blocks, ps @ rlps), w')"
  using assms
proof (induction blocks arbitrary: i w u ps rlps)
  case Nil
  then show ?case
    by (auto simp: proofs_loop.simps [of C L client chainId q stop i] io_inv word_less_nat_alt)
next
  case (Cons b bs)
  have less: "i < stop"
    using Cons.prems(3) by (simp add: word_less_nat_alt)
  obtain w1 where fb: "fetch_block client i w = (Ret b, w1)"
    and fr: "fetch_run client (length bs) (i + 1) w1 = (Ret bs, w')"
    using Cons.prems(1) by (auto simp: io_inv)
  obtain r rs where rlps: "rlps = r # rs" and sb: "sealed C L chainId b r"
    and all: "list_all2 (sealed C L chainId) bs rs"
    using Cons.prems(2) by (auto simp: list_all2_Cons1)
  let ?u = "go_put (hdrCoinbase (blkHeader b)) True u"
  have chk: "check_block C L client chainId i w = (Ret (b, r), w1)"
    using fb sb by (simp add: check_block_Ret_iff sealed_def)
  have step: "proofs_loop C L client chainId q stop i u ps w =
      (if q \<le> length ?u then (Ret (?u, ps @ [r]), w1)
       else proofs_loop C L client chainId q stop (i + 1) ?u (ps @ [r]) w1)"
    using less by (simp add: proofs_loop.simps [of C L client chainId q stop i] io_bind_eval(1) chk
        Let_def io_ret_def)
  show ?case
  proof (cases "q \<le> length ?u")
    case True
    have "bs = []"
      using Cons.prems(4) [rule_format, of 1] True by (cases bs) auto
    then show ?thesis
      using True step fr all rlps by (auto simp: io_inv)
  next
    case False
    have "proofs_loop C L client chainId q stop (i + 1) ?u (ps @ [r]) w1 =
        (Ret (put_signers ?u bs, (ps @ [r]) @ rs), w')"
    proof (rule Cons.IH [OF fr all])
      show "length bs \<le> unat stop - unat (i + 1)"
        using Cons.prems(3) count_down_Suc [OF less] by simp
      show "\<forall>k. 0 < k \<and> k < length bs \<longrightarrow> length (put_signers ?u (take k bs)) < q"
        using Cons.prems(4) by (auto dest: spec [of _ "Suc _"])
      show "bs \<noteq> [] \<and> q \<le> length (put_signers ?u bs) \<or> length bs = unat stop - unat (i + 1)"
        using Cons.prems(5) False count_down_Suc [OF less] by (cases bs) auto
    qed
    then show ?thesis
      using step False rlps by simp
  qed
qed

text \<open>What both functions read before their work: the validators listed by the previous epoch block.\<close>

definition prev_validators :: "codec_lib \<Rightarrow> 'w eth_client \<Rightarrow> u64 \<Rightarrow> ('w, address list) io" where
  "prev_validators cd client i =
     io_bind (fetch_block client i) (\<lambda>prev.
     io_bind (io_lift (extractParliaValidators cd (blkHeader prev))) (\<lambda>(vs, _). io_ret vs))"

lemma prev_validators_Ret_iff:
  "prev_validators cd client i w = (Ret vs, w') \<longleftrightarrow>
     (\<exists>prev m. fetch_block client i w = (Ret prev, w') \<and>
        extractParliaValidators cd (blkHeader prev) = Ret (vs, m))"
  by (auto simp: prev_validators_def io_inv)

lemma createBlockProofs_run:
  assumes "ethChainID client w = (Ret chainId, w1)"
    and "prev_validators cd client (epochBlock - epochLength) w1 = (Ret vs, w2)"
    and "proofs_loop C L client chainId (quorumOf vs) (epochBlock + epochLength) epochBlock [] [] w2
           = (Ret (u, ps), w3)"
  shows "createBlockProofs cd C L client epochBlock epochLength w =
    (if length u < quorumOf vs then Fail (ErrQuorumNotReached epochBlock (length u) (quorumOf vs))
     else Ret ps, w3)"
proof -
  obtain prev m where prev: "fetch_block client (epochBlock - epochLength) w1 = (Ret prev, w2)"
    and vs: "extractParliaValidators cd (blkHeader prev) = Ret (vs, m)"
    using assms(2) by (auto simp: prev_validators_Ret_iff)
  have "io_wrap ''can't fetch prev epoch block'' (fetch_block client (epochBlock - epochLength)) w1 = (Ret prev, w2)"
    using prev by (simp add: io_map_def)
  then show ?thesis
    using assms(1,3) vs
    by (simp add: createBlockProofs_def io_bind_eval(1) io_lift_def io_ret_def Let_def)
qed

lemma createBlockProofs_Ret:
  assumes "createBlockProofs cd C L client epochBlock epochLength w = (Ret proofs, w')"
  obtains chainId w1 vs w2 blocks where "ethChainID client w = (Ret chainId, w1)"
    and "prev_validators cd client (epochBlock - epochLength) w1 = (Ret vs, w2)"
    and "fetch_run client (length blocks) epochBlock w2 = (Ret blocks, w')"
    and "list_all2 (sealed C L chainId) blocks proofs"
    and "length blocks \<le> unat (epochBlock + epochLength) - unat epochBlock"
    and "quorumOf vs \<le> card (coinbases blocks)"
    and "\<forall>k. 0 < k \<and> k < length blocks \<longrightarrow> card (coinbases (take k blocks)) < quorumOf vs"
    and "epochBlock < epochBlock + epochLength \<longrightarrow> blocks \<noteq> []"
proof -
  obtain chainId w1 prev w2 vs m u where chain: "ethChainID client w = (Ret chainId, w1)"
    and prev: "fetch_block client (epochBlock - epochLength) w1 = (Ret prev, w2)"
    and vs: "extractParliaValidators cd (blkHeader prev) = Ret (vs, m)"
    and loop: "proofs_loop C L client chainId (quorumOf vs) (epochBlock + epochLength) epochBlock [] [] w2
           = (Ret (u, proofs), w')"
    and q: "quorumOf vs \<le> length u"
    using assms unfolding createBlockProofs_def
    by (auto simp: io_inv Let_def split: if_splits)
  have pv: "prev_validators cd client (epochBlock - epochLength) w1 = (Ret vs, w2)"
    using prev vs by (auto simp: prev_validators_Ret_iff)
  obtain blocks where blocks: "fetch_run client (length blocks) epochBlock w2 = (Ret blocks, w')"
    "list_all2 (sealed C L chainId) blocks proofs" "u = put_signers [] blocks"
    "length blocks \<le> unat (epochBlock + epochLength) - unat epochBlock"
    "\<forall>k. 0 < k \<and> k < length blocks \<longrightarrow> length (put_signers [] (take k blocks)) < quorumOf vs"
    using proofs_loop_sound [OF loop] by auto
  have "blocks \<noteq> []" if less: "epochBlock < epochBlock + epochLength"
  proof -
    obtain b rlp w3 where "check_block C L client chainId epochBlock w2 = (Ret (b, rlp), w3)"
      "(if quorumOf vs \<le> length (go_put (hdrCoinbase (blkHeader b)) True [])
        then io_ret (go_put (hdrCoinbase (blkHeader b)) True [], [rlp])
        else proofs_loop C L client chainId (quorumOf vs) (epochBlock + epochLength) (epochBlock + 1)
               (go_put (hdrCoinbase (blkHeader b)) True []) [rlp]) w3 = (Ret (u, proofs), w')"
      using loop less by (auto simp: proofs_loop.simps [where i = epochBlock] io_bind_Ret_iff Let_def)
    then have "proofs \<noteq> []"
      using proofs_loop_sound by (fastforce simp: io_inv split: if_splits)
    then show ?thesis
      using blocks(2) by auto
  qed
  then show ?thesis
    using that [OF chain pv blocks(1,2,4)] blocks(3,5) q by (simp add: put_signers_length)
qed

section \<open>Properties\<close>

text \<open>
  \<open>calcRequiredQuorumForNextEpoch\<close> reads the validators from the first block of the
  previous epoch and returns two thirds of their number, rounded down: \<open>q\<close> of \<open>n\<close> validators with
  \<open>3 * q\<close> between \<open>2 * n - 2\<close> and \<open>2 * n\<close>.
\<close>

theorem calcRequiredQuorumForNextEpoch_spec:
  assumes "calcRequiredQuorumForNextEpoch cd nc epochBlock w = (Ret q, w')"
  shows "\<exists>vs. prev_validators cd (ncClient nc) (epochBlock - EpochLength (ncChainConfig nc)) w = (Ret vs, w')
           \<and> q = quorumOf vs \<and> 3 * q \<le> 2 * length vs \<and> 2 * length vs \<le> 3 * q + 2"
proof -
  obtain vs where "prev_validators cd (ncClient nc) (epochBlock - EpochLength (ncChainConfig nc)) w = (Ret vs, w')"
    "q = quorumOf vs"
    using assms unfolding calcRequiredQuorumForNextEpoch_def prev_validators_Ret_iff
    by (auto simp: io_bind_Ret_iff io_wrap_Ret_iff io_lift_iff io_ret_iff)
  then show ?thesis
    by (auto simp: quorumOf_def)
qed

text \<open>
  Property C3. What a returned list of proofs guarantees: it holds, in order, the encoded headers of
  the consecutive blocks from the epoch block on, at most one epoch of them; the seal of each
  recovers to its coinbase; the blocks have at least the quorum of distinct coinbases, and no
  shorter non-empty prefix has. So the list is as short as it can be.
\<close>

theorem createBlockProofs_sound:
  assumes "createBlockProofs cd C L client epochBlock epochLength w = (Ret proofs, w')"
  shows "\<exists>chainId w1 vs w2 blocks. ethChainID client w = (Ret chainId, w1)
           \<and> prev_validators cd client (epochBlock - epochLength) w1 = (Ret vs, w2)
           \<and> fetch_run client (length proofs) epochBlock w2 = (Ret blocks, w')
           \<and> list_all2 (sealed C L chainId) blocks proofs
           \<and> length proofs \<le> unat epochLength
           \<and> quorumOf vs \<le> card (coinbases blocks)
           \<and> (\<forall>k. 0 < k \<and> k < length blocks \<longrightarrow> card (coinbases (take k blocks)) < quorumOf vs)"
proof -
  obtain chainId w1 vs w2 blocks where "ethChainID client w = (Ret chainId, w1)"
    "prev_validators cd client (epochBlock - epochLength) w1 = (Ret vs, w2)"
    and blocks: "fetch_run client (length blocks) epochBlock w2 = (Ret blocks, w')" "list_all2 (sealed C L chainId) blocks proofs"
    "length blocks \<le> unat (epochBlock + epochLength) - unat epochBlock" "quorumOf vs \<le> card (coinbases blocks)"
    "\<forall>k. 0 < k \<and> k < length blocks \<longrightarrow> card (coinbases (take k blocks)) < quorumOf vs"
    by (rule createBlockProofs_Ret [OF assms]) blast
  then show ?thesis
    using range_length_le [of epochBlock epochLength] list_all2_lengthD [OF blocks(2)] by (intro exI conjI) auto
qed

text \<open>A sample client: block \<open>i\<close> is sealed by \<open>sealer i\<close>, and every epoch block lists \<open>vals\<close>.\<close>

definition sample_client :: "int list \<Rightarrow> (int \<Rightarrow> int) \<Rightarrow> 'w eth_client" where
  "sample_client vals sealer = \<lparr>ethBlockNumber = (\<lambda>w. (Ret 100, w)), ethChainID = (\<lambda>w. (Ret 97, w)),
     ethBlockByNumber = (\<lambda>i w. (Ret (sample_block i vals (sealer i)), w)),
     ethHasReceipt = (\<lambda>h w. (True, w))\<rparr>"

lemma sample_client_simps [simp]:
  "ethChainID (sample_client vals sealer) w = (Ret 97, w)"
  "fetch_block (sample_client vals sealer) i w = (Ret (sample_block (sint i) vals (sealer (sint i))), w)"
  "ethHasReceipt (sample_client vals sealer) h w = (True, w)"
  by (simp_all add: sample_client_def fetch_block_def)

lemma sample_sealed: "sealed sample_crypto sample_rlp 97 (sample_block n vals k) [word_of_int n]"
proof -
  let ?h = "sample_header n vals k"
  have "recoverParliaBlockSigner sample_crypto sample_rlp ?h 97 = Ret (sample_address k)"
    using recover_of_parliaRlp [of ?h sample_crypto sample_rlp 97]
    by (simp add: parliaRlp_def encodeSigHeader_def go_slice_def sample_header_def extraSeal_def
        sample_pub_def sample_address_def zero_address_def sample_fit_def)
  then show ?thesis
    by (simp add: sealed_def sample_block_def) (simp add: sample_header_def)
qed

lemma sample_validators:
  "prev_validators sample_codec (sample_client vals sealer) i w = (Ret (map sample_address vals), w)"
proof -
  have "\<exists>m. extractParliaValidators sample_codec (sample_header n vals k) = Ret (map sample_address vals, m)
          \<and> members_of (map sample_address vals) m" for n k
    by (rule extract_of_parts [where vanity = "replicate 32 0" and seal = "sample_pub k"])
       (simp_all add: sample_header_def extraVanity_def extraSeal_def addressLength_def comp_def)
  then show ?thesis
    by (auto simp: prev_validators_Ret_iff sample_block_def)
qed

lemma sample_signers: "put_signers [] (map (\<lambda>i. sample_block i vals (sealer i)) is) =
    foldl (\<lambda>u a. go_put a True u) [] (map (\<lambda>i. sample_address (sealer i)) is)"
  by (simp add: put_signers_def foldl_map sample_block_def sample_header_def)

definition sample_chain :: "u64 \<Rightarrow> u64 \<Rightarrow> ChainConfig" where
  "sample_chain epochLength gasLimit = \<lparr>ChainName = ''sample'', RpcUrl = [], RelayHubAddress = [], ChainId = 97,
     Confirmations = 15, GasLimit = gasLimit, EpochLength = epochLength\<rparr>"

definition sample_config :: "string list \<Rightarrow> Config" where
  "sample_config urls = \<lparr>Root = sample_chain 200 10000000, Child = sample_chain 200 10000000,
     Relayer = \<lparr>PrivateKey = 9, GrpcAddress = [], RelayerUrls = urls\<rparr>\<rparr>"

definition sample_node :: "'w eth_client \<Rightarrow> u64 \<Rightarrow> 'w nodeConfig" where
  "sample_node client epochLength = \<lparr>ncClient = client, ncRelayHub = None, ncConfig = sample_config [],
     ncChainConfig = sample_chain epochLength 10000000, ncChainId = 97\<rparr>"

lemma calcRequiredQuorumForNextEpoch_run:
  assumes "prev_validators cd (ncClient nc) (epochBlock - EpochLength (ncChainConfig nc)) w = (Ret vs, w')"
  shows "calcRequiredQuorumForNextEpoch cd nc epochBlock w = (Ret (quorumOf vs), w')"
  using assms by (auto simp: calcRequiredQuorumForNextEpoch_def prev_validators_Ret_iff io_bind_def
      io_map_def io_lift_def io_ret_def)

theorem calcRequiredQuorumForNextEpoch_spec_witness:
  "\<exists>vs. prev_validators sample_codec (sample_client [1, 2, 3] id) (400 - 200) () = (Ret vs, ())
      \<and> 2 = quorumOf vs \<and> 3 * 2 \<le> 2 * length vs \<and> 2 * length vs \<le> 3 * 2 + 2"
proof -
  let ?nc = "sample_node (sample_client [1, 2, 3] id) 200"
  have "calcRequiredQuorumForNextEpoch sample_codec ?nc 400 () = (Ret 2, ())"
    using calcRequiredQuorumForNextEpoch_run [of sample_codec ?nc 400 "()"] sample_validators [where w = "()"]
    by (simp add: sample_node_def sample_chain_def quorumOf_def)
  then show ?thesis
    using calcRequiredQuorumForNextEpoch_spec [of sample_codec ?nc 400 "()" 2]
    by (simp add: sample_node_def sample_chain_def)
qed

lemma sample_createBlockProofs:
  assumes "proofs_loop sample_crypto sample_rlp (sample_client vals sealer) 97 (quorumOf vals')
             (a + len) a [] [] () = (Ret (u, ps), ())"
    and "vals' = map sample_address vals" and "quorumOf vals' \<le> length u"
  shows "createBlockProofs sample_codec sample_crypto sample_rlp (sample_client vals sealer) a len () = (Ret ps, ())"
  using createBlockProofs_run [of "sample_client vals sealer" "()" 97 "()" sample_codec a len vals' "()"]
    sample_validators [where w = "()"] assms by simp

lemma sample_run_4:
  "createBlockProofs sample_codec sample_crypto sample_rlp
     (sample_client [1, 2, 3, 4, 5, 6] sealer) 200 200 () = (Ret [[200], [201], [202], [203]], ())"
  if "sealer 200 = 11" "sealer 201 = 12" "sealer 202 = 13" "sealer 203 = 14"
proof (rule sample_createBlockProofs)
  let ?client = "sample_client [1, 2, 3, 4, 5, 6] sealer"
  let ?bs = "[sample_block 200 [1, 2, 3, 4, 5, 6] 11, sample_block 201 [1, 2, 3, 4, 5, 6] 12,
              sample_block 202 [1, 2, 3, 4, 5, 6] 13, sample_block 203 [1, 2, 3, 4, 5, 6] 14]"
  have run: "fetch_run ?client (length ?bs) 200 () = (Ret ?bs, ())"
    by (simp add: that io_bind_def io_ret_def)
  have sealed: "list_all2 (sealed sample_crypto sample_rlp 97) ?bs [[200], [201], [202], [203]]"
    using sample_sealed by (simp add: sample_sealed [of "200", simplified] sample_sealed [of "201", simplified]
        sample_sealed [of "202", simplified] sample_sealed [of "203", simplified])
  have q: "quorumOf (map sample_address [1, 2, 3, 4, 5, 6]) = 4"
    by (simp add: quorumOf_def)
  have "coinbases ?bs = {sample_address 11, sample_address 12, sample_address 13, sample_address 14}"
    by (simp add: coinbases_def sample_block_def sample_header_def)
  then have len: "length (put_signers [] ?bs) = 4"
    unfolding put_signers_length by simp
  have loop: "proofs_loop sample_crypto sample_rlp ?client 97 4
          (200 + 200) 200 [] [] () = (Ret (put_signers [] ?bs, [] @ [[200], [201], [202], [203]]), ())"
  proof (rule proofs_loop_complete [OF run sealed])
    show "\<forall>k. 0 < k \<and> k < length ?bs \<longrightarrow> length (put_signers [] (take k ?bs)) < 4"
    proof (intro allI impI)
      fix k assume "0 < k \<and> k < length ?bs"
      then have "length (take k ?bs) < 4" by simp
      then show "length (put_signers [] (take k ?bs)) < 4"
        by (rule le_less_trans [OF put_signers_le])
    qed
    show "?bs \<noteq> [] \<and> 4 \<le> length (put_signers [] ?bs) \<or> length ?bs = unat (200 + 200 :: u64) - unat (200 :: u64)"
      unfolding len by simp
  qed simp
  show "proofs_loop sample_crypto sample_rlp ?client 97 (quorumOf (map sample_address [1, 2, 3, 4, 5, 6]))
          (200 + 200) 200 [] [] () = (Ret (put_signers [] ?bs, [[200], [201], [202], [203]]), ())"
    unfolding q using loop by (simp only: append_Nil)
  show "quorumOf (map sample_address [1, 2, 3, 4, 5, 6]) \<le> length (put_signers [] ?bs)"
    unfolding q len by simp
qed simp

theorem createBlockProofs_sound_witness:
  "\<exists>chainId w1 vs w2 blocks. ethChainID (sample_client [1, 2, 3, 4, 5, 6] (\<lambda>i. i - 189)) () = (Ret chainId, w1)
     \<and> prev_validators sample_codec (sample_client [1, 2, 3, 4, 5, 6] (\<lambda>i. i - 189)) (200 - 200) w1 = (Ret vs, w2)
     \<and> fetch_run (sample_client [1, 2, 3, 4, 5, 6] (\<lambda>i. i - 189)) 4 200 w2 = (Ret blocks, ())
     \<and> list_all2 (sealed sample_crypto sample_rlp chainId) blocks [[200], [201], [202], [203]]
     \<and> quorumOf vs \<le> card (coinbases blocks)"
  using createBlockProofs_sound [OF sample_run_4 [of "\<lambda>i. i - 189", simplified]]
  by (auto simp: eval_nat_numeral)

text \<open>
  Property C4. A reachable quorum is found: if the client answers, the seals of the first \<open>n\<close> blocks
  of the epoch are good and these are the first with a quorum of distinct coinbases, then exactly
  their \<open>n\<close> encoded headers are returned. Membership of the sealers in the validator set is not
  required.
\<close>

theorem createBlockProofs_reaches:
  assumes "ethChainID client w = (Ret chainId, w1)"
    and "prev_validators cd client (epochBlock - epochLength) w1 = (Ret vs, w2)"
    and "fetch_run client (length blocks) epochBlock w2 = (Ret blocks, w')"
    and "list_all2 (sealed C L chainId) blocks proofs"
    and "blocks \<noteq> []" and "length blocks \<le> unat epochLength"
    and "unat epochBlock + unat epochLength < 2 ^ 64"
    and "quorumOf vs \<le> card (coinbases blocks)"
    and "\<forall>k. 0 < k \<and> k < length blocks \<longrightarrow> card (coinbases (take k blocks)) < quorumOf vs"
  shows "createBlockProofs cd C L client epochBlock epochLength w = (Ret proofs, w')"
proof -
  have loop: "proofs_loop C L client chainId (quorumOf vs) (epochBlock + epochLength) epochBlock [] [] w2 =
      (Ret (put_signers [] blocks, [] @ proofs), w')"
    using assms(5-9) range_length [OF assms(7)]
    by (intro proofs_loop_complete [OF assms(3,4)]) (auto simp: put_signers_length)
  show ?thesis
    using createBlockProofs_run [OF assms(1,2) loop] assms(8) by (simp add: put_signers_length)
qed

theorem createBlockProofs_reaches_witness:
  "createBlockProofs sample_codec sample_crypto sample_rlp (sample_client [1, 2, 3] id) 2 2 () = (Ret [[2], [3]], ())"
proof -
  let ?client = "sample_client [1, 2, 3] id"
  let ?bs = "[sample_block 2 [1, 2, 3] 2, sample_block 3 [1, 2, 3] 3]"
  have run: "fetch_run ?client (length ?bs) 2 () = (Ret ?bs, ())"
    by (simp add: io_bind_def io_ret_def)
  have sealed: "list_all2 (sealed sample_crypto sample_rlp 97) ?bs [[2], [3]]"
    by (simp add: sample_sealed [of 2, simplified] sample_sealed [of 3, simplified])
  have cb: "coinbases ?bs = {sample_address 2, sample_address 3}"
    "coinbases (take 1 ?bs) = {sample_address 2}"
    by (simp_all add: coinbases_def sample_block_def sample_header_def)
  have prefix: "\<forall>k. 0 < k \<and> k < length ?bs \<longrightarrow>
      card (coinbases (take k ?bs)) < quorumOf (map sample_address [1, 2, 3])"
  proof (intro allI impI)
    fix k assume "0 < k \<and> k < length ?bs"
    then have "k = 1" by simp
    then show "card (coinbases (take k ?bs)) < quorumOf (map sample_address [1, 2, 3])"
      unfolding \<open>k = 1\<close> cb by (simp add: quorumOf_def)
  qed
  show ?thesis
    by (rule createBlockProofs_reaches [OF _ sample_validators run sealed _ _ _ _ prefix])
       (simp_all only: cb, simp_all add: quorumOf_def)
qed

text \<open>
  Property C37. An epoch without a quorum is reported: if all blocks of the epoch are fetched and their
  seals are good but no prefix has a quorum of distinct coinbases, the error names the epoch block,
  the number of distinct coinbases and the quorum.
\<close>

theorem createBlockProofs_no_quorum:
  assumes "ethChainID client w = (Ret chainId, w1)"
    and "prev_validators cd client (epochBlock - epochLength) w1 = (Ret vs, w2)"
    and "fetch_run client (length blocks) epochBlock w2 = (Ret blocks, w')"
    and "list_all2 (sealed C L chainId) blocks proofs"
    and "length blocks = unat epochLength"
    and "unat epochBlock + unat epochLength < 2 ^ 64"
    and "card (coinbases blocks) < quorumOf vs"
  shows "createBlockProofs cd C L client epochBlock epochLength w =
    (Fail (ErrQuorumNotReached epochBlock (card (coinbases blocks)) (quorumOf vs)), w')"
proof -
  have "card (coinbases (take k blocks)) < quorumOf vs" for k
  proof -
    have "coinbases (take k blocks) \<subseteq> coinbases blocks"
      by (auto simp: coinbases_def dest: in_set_takeD)
    then have "card (coinbases (take k blocks)) \<le> card (coinbases blocks)"
      by (rule card_mono [rotated]) (simp add: coinbases_def)
    with assms(7) show ?thesis by simp
  qed
  then have loop: "proofs_loop C L client chainId (quorumOf vs) (epochBlock + epochLength) epochBlock [] [] w2 =
      (Ret (put_signers [] blocks, [] @ proofs), w')"
    using assms(5) range_length [OF assms(6)]
    by (intro proofs_loop_complete [OF assms(3,4)]) (auto simp: put_signers_length)
  show ?thesis
    using createBlockProofs_run [OF assms(1,2) loop] assms(7) by (simp add: put_signers_length)
qed

theorem createBlockProofs_no_quorum_witness:
  "createBlockProofs sample_codec sample_crypto sample_rlp (sample_client [1, 2, 3, 4, 5, 6] (\<lambda>i. 1)) 2 2 () =
    (Fail (ErrQuorumNotReached 2 1 4), ())"
proof -
  let ?vals = "[1, 2, 3, 4, 5, 6]"
  let ?client = "sample_client ?vals (\<lambda>i. 1)"
  let ?bs = "[sample_block 2 ?vals 1, sample_block 3 ?vals 1]"
  have run: "fetch_run ?client (length ?bs) 2 () = (Ret ?bs, ())"
    by (simp add: io_bind_def io_ret_def)
  have sealed: "list_all2 (sealed sample_crypto sample_rlp 97) ?bs [[2], [3]]"
    by (simp add: sample_sealed [of 2, simplified] sample_sealed [of 3, simplified])
  have cb: "coinbases ?bs = {sample_address 1}"
    by (simp add: coinbases_def sample_block_def sample_header_def)
  show ?thesis
    using createBlockProofs_no_quorum [OF _ sample_validators run sealed]
    unfolding cb by (simp add: quorumOf_def)
qed

text \<open>
  The quorum counts every coinbase, also those of sealers that are not validators of the
  epoch: with six validators (quorum 4), four blocks sealed by four strangers are returned as a
  proof, although the hub counts validators only.
\<close>

theorem createBlockProofs_counts_strangers:
  "createBlockProofs sample_codec sample_crypto sample_rlp
      (sample_client [1, 2, 3, 4, 5, 6] (\<lambda>i. i - 189)) 200 200 () = (Ret [[200], [201], [202], [203]], ())
   \<and> set (map (\<lambda>i. sample_address (i - 189)) [200, 201, 202, 203]) \<inter> set (map sample_address [1, 2, 3, 4, 5, 6]) = {}"
  using sample_run_4 [of "\<lambda>i. i - 189"] by simp

end
