(* ===== verification/Checkpoint.thy ===== *)
theory Checkpoint
  imports BlockProofs
begin

text \<open>
  Checkpoint proofs (\<open>relayer/checkpoint.go\<close>): building a proof over the blocks of an epoch and the
  signatures that relayers collect in it. The Merkle trie is a parameter. The read-write lock of a
  proof makes each operation atomic, which is how they are modelled: functions of the proof.
  The locale \<open>signature_book\<close> states what a client may rely on; this theory interprets it on the
  operations of \<open>checkpointProof\<close>.
\<close>

section \<open>Building a proof\<close>

record checkpointProof =
  epochNumber :: u64
  rawEpochBlock :: bytes
  blockHash :: hash
  checkpointHash :: hash
  signatures :: "(address, bytes) gomap option"

record 't trie_lib =
  trieNewEmpty :: 't
  trieUpdate :: "bytes \<Rightarrow> bytes \<Rightarrow> 't \<Rightarrow> 't"
  trieHash :: "'t \<Rightarrow> hash"

text \<open>One round: fetch block \<open>i\<close>, remember header and hash if it is the epoch block, and enter the
  block's hash into the trie under its encoded number.\<close>

definition checkpoint_round ::
    "codec_lib \<Rightarrow> rlp_lib \<Rightarrow> 't trie_lib \<Rightarrow> 'w eth_client \<Rightarrow> u64 \<Rightarrow> u64 \<Rightarrow> checkpointProof \<Rightarrow> 't \<Rightarrow>
     ('w, checkpointProof \<times> 't) io" where
  "checkpoint_round cd L T client epochBlock i result checkpointTrie =
     io_bind (io_wrap ''can't fetch fetch block'' (fetch_block client i)) (\<lambda>block.
     io_bind (if i = epochBlock
              then io_bind (io_lift (wrap_error ''failed to encode epoch block''
                     (rlpEncodeHeader L (blkHeader block)))) (\<lambda>raw.
                   io_ret (result\<lparr>rawEpochBlock := raw, blockHash := blkHash block\<rparr>))
              else io_ret result) (\<lambda>result.
     io_bind (io_lift (wrap_error ''failed to encode block path'' (rlpEncodeUint L i))) (\<lambda>proofPath.
     io_ret (result, trieUpdate T proofPath (hashBytes cd (blkHash block)) checkpointTrie))))"

function checkpoint_loop ::
    "codec_lib \<Rightarrow> rlp_lib \<Rightarrow> 't trie_lib \<Rightarrow> 'w eth_client \<Rightarrow> u64 \<Rightarrow> u64 \<Rightarrow> u64 \<Rightarrow> checkpointProof \<Rightarrow> 't \<Rightarrow>
     ('w, checkpointProof \<times> 't) io" where
  "checkpoint_loop cd L T client epochBlock stop i result checkpointTrie =
     (if i < stop then
        io_bind (checkpoint_round cd L T client epochBlock i result checkpointTrie) (\<lambda>(result, checkpointTrie).
        checkpoint_loop cd L T client epochBlock stop (i + 1) result checkpointTrie)
      else io_ret (result, checkpointTrie))"
  by pat_completeness auto
termination
  by (relation "measure (\<lambda>(_, _, _, _, _, stop, i, _, _). unat stop - unat i)") (auto intro: count_down)

declare checkpoint_loop.simps [simp del]

definition createCheckpointProof ::
    "codec_lib \<Rightarrow> rlp_lib \<Rightarrow> 't trie_lib \<Rightarrow> 'w eth_client \<Rightarrow> u64 \<Rightarrow> u64 \<Rightarrow> ('w, checkpointProof) io" where
  "createCheckpointProof cd L T client epochBlock epochLength =
     (if epochLength = 0 then io_lift (Panic DivideByZero)
      else if epochBlock mod epochLength \<noteq> 0 then io_lift (Fail (ErrBadEpochBlock epochBlock))
      else
        let result = \<lparr>epochNumber = epochBlock div epochLength, rawEpochBlock = [],
                      blockHash = replicate 32 0, checkpointHash = replicate 32 0, signatures = None\<rparr> in
        io_bind (checkpoint_loop cd L T client epochBlock (epochBlock + epochLength) epochBlock
                   result (trieNewEmpty T)) (\<lambda>(result, checkpointTrie).
        io_ret (result\<lparr>checkpointHash := trieHash T checkpointTrie\<rparr>)))"

section \<open>Signatures\<close>

definition sigs_of :: "checkpointProof \<Rightarrow> (address, bytes) gomap" where
  "sigs_of proof = (case signatures proof of None \<Rightarrow> [] | Some m \<Rightarrow> m)"

text \<open>A nil result is the empty byte list.\<close>

definition getSignatureOrNil :: "checkpointProof \<Rightarrow> address \<Rightarrow> bytes" where
  "getSignatureOrNil proof signer =
     (case signatures proof of
        None \<Rightarrow> []
      | Some m \<Rightarrow> (case map_of m signer of None \<Rightarrow> [] | Some s \<Rightarrow> s))"

definition signCheckpointProof ::
    "codec_lib \<Rightarrow> crypto_lib \<Rightarrow> priv_key \<Rightarrow> (checkpointProof, unit) io" where
  "signCheckpointProof cd C privateKey proof =
     (case ecSign C (hashBytes cd (checkpointHash proof)) privateKey of
        Ret signature \<Rightarrow>
          let proof = (if signatures proof = None then proof\<lparr>signatures := Some []\<rparr> else proof);
              signer = keyToAddress C privateKey in
          if signer \<in> fst ` set (sigs_of proof) then (Ret (), proof)
          else (Ret (), proof\<lparr>signatures := Some (go_put signer signature (sigs_of proof))\<rparr>)
      | Fail e \<Rightarrow> (Fail e, proof)
      | Panic p \<Rightarrow> (Panic p, proof)
      | Exit m \<Rightarrow> (Exit m, proof))"

definition hasSignature :: "checkpointProof \<Rightarrow> address \<Rightarrow> bool" where
  "hasSignature proof signer =
     (case signatures proof of None \<Rightarrow> False | Some m \<Rightarrow> signer \<in> fst ` set m)"

definition addSignature :: "address \<Rightarrow> bytes \<Rightarrow> checkpointProof \<Rightarrow> bool \<times> checkpointProof" where
  "addSignature signer signature proof =
     (let proof = (if signatures proof = None then proof\<lparr>signatures := Some []\<rparr> else proof);
          exists = signer \<in> fst ` set (sigs_of proof) in
      (\<not> exists, proof\<lparr>signatures := Some (go_put signer signature (sigs_of proof))\<rparr>))"

section \<open>The contract of a collection of signatures\<close>

text \<open>
  \<open>add\<close> enters a signature and says whether the signer is new, \<open>abs\<close> is the finite map that the
  collection stands for, \<open>count\<close> its size. The client's operation is to add a list of signatures
  one after the other (\<open>run_with add\<close>).
\<close>

locale signature_book =
  fixes ok :: "'s \<Rightarrow> bool"
    and add :: "'a \<times> 'b \<Rightarrow> 's \<Rightarrow> bool \<times> 's"
    and has :: "'s \<Rightarrow> 'a \<Rightarrow> bool"
    and count :: "'s \<Rightarrow> nat"
    and abs :: "'s \<Rightarrow> ('a \<rightharpoonup> 'b)"
  assumes add_ok: "ok s \<Longrightarrow> ok (snd (add (a, b) s))"
    and add_abs: "ok s \<Longrightarrow> abs (snd (add (a, b) s)) = (abs s)(a \<mapsto> b)"
    and add_new: "ok s \<Longrightarrow> fst (add (a, b) s) = (abs s a = None)"
    and has_abs: "ok s \<Longrightarrow> has s a \<longleftrightarrow> abs s a \<noteq> None"
    and count_abs: "ok s \<Longrightarrow> count s = card (dom (abs s)) \<and> finite (dom (abs s))"
begin

lemma merge_ok: "ok s \<Longrightarrow> ok (run_with add xs s)"
  by (induction xs arbitrary: s) (auto simp: add_ok)

lemma merge_abs: "ok s \<Longrightarrow> abs (run_with add xs s) = abs s ++ map_of (rev xs)"
  by (induction xs arbitrary: s) (auto simp: add_abs add_ok)

lemma merge_distinct:
  "ok s \<Longrightarrow> distinct (map fst xs) \<Longrightarrow> abs (run_with add xs s) = abs s ++ map_of xs"
  by (simp add: merge_abs map_of_rev_distinct)

lemma merge_order:
  assumes "ok s" and "mset xs = mset ys" and "distinct (map fst xs)"
  shows "abs (run_with add xs s) = abs (run_with add ys s)"
proof -
  have "distinct (map fst ys)"
    using assms(2,3) mset_eq_imp_distinct_iff [of "map fst xs" "map fst ys"] by simp
  then show ?thesis
    using assms merge_distinct map_of_perm by metis
qed

lemma count_mono: "ok s \<Longrightarrow> count s \<le> count (run_with add xs s)"
  using count_abs [of s] count_abs [OF merge_ok, of s xs] merge_abs [of s xs]
  by (auto intro: card_mono)

lemma has_merge: "ok s \<Longrightarrow> has (run_with add xs s) a \<longleftrightarrow> has s a \<or> a \<in> fst ` set xs"
  using dom_map_of_conv_image_fst [of "rev xs"] dom_map_add [of "abs s" "map_of (rev xs)"]
  by (auto simp: has_abs merge_ok merge_abs domIff set_eq_iff)

end

section \<open>The proof's operations meet the contract\<close>

definition wf_proof :: "checkpointProof \<Rightarrow> bool" where
  "wf_proof p \<longleftrightarrow> wf_map (sigs_of p)"

definition sig_map :: "checkpointProof \<Rightarrow> address \<Rightarrow> bytes option" where
  "sig_map p = map_of (sigs_of p)"

definition add_entry :: "address \<times> bytes \<Rightarrow> checkpointProof \<Rightarrow> bool \<times> checkpointProof" where
  "add_entry e p = addSignature (fst e) (snd e) p"

definition sig_count :: "checkpointProof \<Rightarrow> nat" where
  "sig_count p = length (sigs_of p)"

lemma addSignature_eq:
  "addSignature a s p = (a \<notin> fst ` set (sigs_of p), p\<lparr>signatures := Some (go_put a s (sigs_of p))\<rparr>)"
  by (auto simp: addSignature_def sigs_of_def Let_def)

lemma sigs_of_update [simp]: "sigs_of (p\<lparr>signatures := Some m\<rparr>) = m"
  by (simp add: sigs_of_def)

interpretation book: signature_book wf_proof add_entry hasSignature sig_count sig_map
proof unfold_locales
  fix p :: checkpointProof and a :: address and b :: bytes
  assume ok: "wf_proof p"
  show "wf_proof (snd (add_entry (a, b) p))"
    using ok by (simp add: wf_proof_def add_entry_def addSignature_eq)
  show "sig_map (snd (add_entry (a, b) p)) = (sig_map p)(a \<mapsto> b)"
    by (simp add: sig_map_def add_entry_def addSignature_eq)
  show "fst (add_entry (a, b) p) = (sig_map p a = None)"
    by (simp add: sig_map_def add_entry_def addSignature_eq map_of_eq_None_iff)
  show "hasSignature p a \<longleftrightarrow> sig_map p a \<noteq> None"
    by (auto simp: hasSignature_def sig_map_def sigs_of_def map_of_eq_None_iff split: option.split)
  show "sig_count p = card (dom (sig_map p)) \<and> finite (dom (sig_map p))"
    using wf_map_length [of "sigs_of p"] ok
    by (simp add: sig_count_def sig_map_def dom_map_of_conv_image_fst finite_dom_map_of wf_proof_def)
qed

section \<open>What a built proof covers\<close>

fun paths_ok :: "rlp_lib \<Rightarrow> u64 \<Rightarrow> bytes list \<Rightarrow> bool" where
  "paths_ok L i [] = True"
| "paths_ok L i (p # ps) = (rlpEncodeUint L i = Ret p \<and> paths_ok L (i + 1) ps)"

definition trie_of :: "codec_lib \<Rightarrow> 't trie_lib \<Rightarrow> (bytes \<times> block) list \<Rightarrow> 't \<Rightarrow> 't" where
  "trie_of cd T entries t = fold (\<lambda>(path, b) t. trieUpdate T path (hashBytes cd (blkHash b)) t) entries t"

lemma checkpoint_round_Ret:
  assumes "checkpoint_round cd L T client e i r t w = (Ret (r', t'), w')"
  shows "\<exists>b path. fetch_block client i w = (Ret b, w') \<and> rlpEncodeUint L i = Ret path
           \<and> t' = trieUpdate T path (hashBytes cd (blkHash b)) t
           \<and> (if i = e then rlpEncodeHeader L (blkHeader b) = Ret (rawEpochBlock r')
                          \<and> r' = r\<lparr>rawEpochBlock := rawEpochBlock r', blockHash := blkHash b\<rparr>
              else r' = r)"
  using assms unfolding checkpoint_round_def
  by (cases "i = e") (auto simp: io_bind_Ret_iff io_wrap_Ret_iff io_lift_iff io_ret_iff)

lemma checkpoint_loop_sound:
  assumes "checkpoint_loop cd L T client e stop i r t w = (Ret (r', t'), w')" and "e \<le> i"
  shows "\<exists>blocks paths. fetch_run client (length blocks) i w = (Ret blocks, w')
           \<and> length blocks = unat stop - unat i \<and> length paths = length blocks \<and> paths_ok L i paths
           \<and> t' = trie_of cd T (zip paths blocks) t
           \<and> (if i = e \<and> i < stop
              then rlpEncodeHeader L (blkHeader (hd blocks)) = Ret (rawEpochBlock r')
                   \<and> r' = r\<lparr>rawEpochBlock := rawEpochBlock r', blockHash := blkHash (hd blocks)\<rparr>
              else r' = r)"
  using assms
proof (induction cd L T client e stop i r t arbitrary: w rule: checkpoint_loop.induct)
  case (1 cd L T client e stop i r t)
  show ?case
  proof (cases "i < stop")
    case False
    then have "r' = r \<and> t' = t \<and> w' = w"
      using "1.prems"(1) by (simp add: checkpoint_loop.simps [of cd L T client e stop i] io_ret_iff)
    then show ?thesis
      using False by (intro exI [of _ "[]"]) (auto simp: count_done trie_of_def io_ret_iff)
  next
    case True
    obtain r1 t1 w1 where round: "checkpoint_round cd L T client e i r t w = (Ret (r1, t1), w1)"
      and rest: "checkpoint_loop cd L T client e stop (i + 1) r1 t1 w1 = (Ret (r', t'), w')"
      using "1.prems"(1) True by (auto simp: checkpoint_loop.simps [of cd L T client e stop i] io_bind_Ret_iff)
    have later: "e \<le> i + 1" "i + 1 \<noteq> e"
      using "1.prems"(2) unat_Suc_less [OF True] by (auto simp: word_le_nat_alt)
    obtain blocks paths where IH: "fetch_run client (length blocks) (i + 1) w1 = (Ret blocks, w')"
      "length blocks = unat stop - unat (i + 1)" "length paths = length blocks"
      "paths_ok L (i + 1) paths" "t' = trie_of cd T (zip paths blocks) t1" "r' = r1"
      using "1.IH" [OF True rest later(1)] later(2) by auto
    obtain b path where b: "fetch_block client i w = (Ret b, w1)" "rlpEncodeUint L i = Ret path"
      "t1 = trieUpdate T path (hashBytes cd (blkHash b)) t"
      "if i = e then rlpEncodeHeader L (blkHeader b) = Ret (rawEpochBlock r1)
              \<and> r1 = r\<lparr>rawEpochBlock := rawEpochBlock r1, blockHash := blkHash b\<rparr> else r1 = r"
      using checkpoint_round_Ret [OF round] by blast
    show ?thesis
      using IH b True count_down_Suc [OF True] fetch_run_Cons [OF b(1) IH(1)]
      by (intro exI [of _ "b # blocks"] exI [of _ "path # paths"]) (auto simp: trie_of_def)
  qed
qed

lemma createCheckpointProof_unsigned:
  assumes "createCheckpointProof cd L T client epochBlock epochLength w = (Ret p, w')"
  shows "signatures p = None"
proof -
  let ?r = "\<lparr>epochNumber = epochBlock div epochLength, rawEpochBlock = [],
             blockHash = replicate 32 0, checkpointHash = replicate 32 0, signatures = None\<rparr>"
  obtain r t where loop: "checkpoint_loop cd L T client epochBlock (epochBlock + epochLength) epochBlock ?r
        (trieNewEmpty T) w = (Ret (r, t), w')" and p: "p = r\<lparr>checkpointHash := trieHash T t\<rparr>"
    using assms by (auto simp: createCheckpointProof_def Let_def io_bind_Ret_iff io_ret_iff io_lift_iff
        split: if_splits)
  have "signatures r = None"
    using checkpoint_loop_sound [OF loop] by (auto split: if_splits)
      (metis checkpointProof.select_convs(5) checkpointProof.update_convs)+
  then show ?thesis by (simp add: p)
qed

lemma signCheckpointProof_first:
  assumes "signatures p = None" and "signCheckpointProof cd C key p = (Ret (), p')"
  shows "\<exists>s. ecSign C (hashBytes cd (checkpointHash p)) key = Ret s
           \<and> p' = p\<lparr>signatures := Some [(keyToAddress C key, s)]\<rparr>"
  using assms by (auto simp: signCheckpointProof_def sigs_of_def Let_def go_put_def split: outcome.splits)

section \<open>Properties\<close>

text \<open>
  Property C24. A checkpoint proof that is returned belongs to a block that starts an epoch, carries the
  number of that epoch and no signatures, and its checkpoint hash is the root of the trie that maps
  the encoded numbers of consecutive blocks from the epoch block on to their hashes. Unless the
  block numbers leave 64 bits, these are exactly the blocks of the epoch, and the raw block and
  block hash are those of the first.
\<close>

theorem createCheckpointProof_sound:
  assumes "createCheckpointProof cd L T client epochBlock epochLength w = (Ret p, w')"
  shows "epochLength \<noteq> 0 \<and> epochBlock mod epochLength = 0
    \<and> epochNumber p = epochBlock div epochLength \<and> signatures p = None
    \<and> (\<exists>blocks paths. fetch_run client (length blocks) epochBlock w = (Ret blocks, w')
        \<and> length paths = length blocks \<and> paths_ok L epochBlock paths
        \<and> checkpointHash p = trieHash T (trie_of cd T (zip paths blocks) (trieNewEmpty T))
        \<and> (unat epochBlock + unat epochLength < 2 ^ 64 \<longrightarrow>
             length blocks = unat epochLength \<and> blockHash p = blkHash (hd blocks)
             \<and> rlpEncodeHeader L (blkHeader (hd blocks)) = Ret (rawEpochBlock p)))"
proof -
  let ?stop = "epochBlock + epochLength"
  let ?r = "\<lparr>epochNumber = epochBlock div epochLength, rawEpochBlock = [],
             blockHash = replicate 32 0, checkpointHash = replicate 32 0, signatures = None\<rparr>"
  have pre: "epochLength \<noteq> 0" "epochBlock mod epochLength = 0"
    using assms by (auto simp: createCheckpointProof_def io_lift_iff split: if_splits)
  obtain r t where loop: "checkpoint_loop cd L T client epochBlock ?stop epochBlock ?r (trieNewEmpty T) w
        = (Ret (r, t), w')" and p: "p = r\<lparr>checkpointHash := trieHash T t\<rparr>"
    using assms pre by (auto simp: createCheckpointProof_def Let_def io_bind_Ret_iff io_ret_iff)
  obtain blocks paths where run: "fetch_run client (length blocks) epochBlock w = (Ret blocks, w')"
    "length blocks = unat ?stop - unat epochBlock" "length paths = length blocks"
    "paths_ok L epochBlock paths" "t = trie_of cd T (zip paths blocks) (trieNewEmpty T)"
    and r: "if epochBlock < ?stop
        then rlpEncodeHeader L (blkHeader (hd blocks)) = Ret (rawEpochBlock r)
             \<and> r = ?r\<lparr>rawEpochBlock := rawEpochBlock r, blockHash := blkHash (hd blocks)\<rparr>
        else r = ?r"
    using checkpoint_loop_sound [OF loop] by auto
  have fields: "epochNumber r = epochBlock div epochLength" "signatures r = None"
    using r by (auto split: if_splits) (metis checkpointProof.select_convs checkpointProof.update_convs)+
  have less: "epochBlock < ?stop" if "unat epochBlock + unat epochLength < 2 ^ 64"
    using range_length [OF that] pre(1) unat_gt_0 [of epochLength] by (auto simp: word_less_nat_alt)
  have "length blocks = unat epochLength \<and> blockHash p = blkHash (hd blocks)
      \<and> rlpEncodeHeader L (blkHeader (hd blocks)) = Ret (rawEpochBlock p)"
    if "unat epochBlock + unat epochLength < 2 ^ 64"
    using run(2) range_length [OF that] r less [OF that] p
    by auto (metis checkpointProof.select_convs(3) checkpointProof.update_convs(3))
  then show ?thesis
    using pre run p fields by (intro conjI exI [of _ blocks] exI [of _ paths]) simp_all
qed

definition sample_trie :: "(bytes \<times> bytes) list trie_lib" where
  "sample_trie = \<lparr>trieNewEmpty = [], trieUpdate = (\<lambda>k v t. (k, v) # t),
     trieHash = (\<lambda>t. sample_fit 32 (map (\<lambda>(k, v). sum_list v) t))\<rparr>"

lemma sample_checkpoint:
  "\<exists>p. createCheckpointProof sample_codec sample_rlp sample_trie (sample_client [1, 2, 3] id) 2 2 () = (Ret p, ())
       \<and> checkpointHash p = sample_fit 32 [3, 2] \<and> rawEpochBlock p = [2]"
  by (simp add: createCheckpointProof_def checkpoint_loop.simps checkpoint_round_def io_bind_def io_map_def
      io_lift_def io_ret_def sample_block_def sample_trie_def sample_header_def sum_list_replicate)

theorem createCheckpointProof_sound_witness:
  "\<exists>p. createCheckpointProof sample_codec sample_rlp sample_trie (sample_client [1, 2, 3] id) 2 2 () = (Ret p, ())
       \<and> epochNumber p = 1 \<and> rlpEncodeHeader sample_rlp (sample_header 2 [1, 2, 3] 2) = Ret (rawEpochBlock p)"
proof -
  obtain p where p: "createCheckpointProof sample_codec sample_rlp sample_trie (sample_client [1, 2, 3] id) 2 2 ()
      = (Ret p, ())" "rawEpochBlock p = [2]"
    using sample_checkpoint by blast
  have "epochNumber p = 2 div 2"
    using createCheckpointProof_sound [OF p(1)] by blast
  then show ?thesis
    using p by (simp add: sample_header_def)
qed

text \<open>
  Signing: when the key signs the checkpoint hash, the proof afterwards holds a signature
  of that key's address, an earlier signature of that address is kept, no other entry changes, the
  signer is reported by \<open>hasSignature\<close>, and all other fields stay; when signing fails the error is
  returned and the proof is unchanged.
\<close>

theorem signCheckpointProof_spec:
  "case ecSign C (hashBytes cd (checkpointHash p)) key of
     Ret s \<Rightarrow> (\<exists>p'. signCheckpointProof cd C key p = (Ret (), p')
       \<and> sig_map p' = (sig_map p)(keyToAddress C key \<mapsto>
            (case sig_map p (keyToAddress C key) of Some old \<Rightarrow> old | None \<Rightarrow> s))
       \<and> hasSignature p' (keyToAddress C key)
       \<and> p' = p\<lparr>signatures := signatures p'\<rparr>)
   | Fail e \<Rightarrow> signCheckpointProof cd C key p = (Fail e, p)
   | Panic q \<Rightarrow> signCheckpointProof cd C key p = (Panic q, p)
   | Exit m \<Rightarrow> signCheckpointProof cd C key p = (Exit m, p)"
proof (cases "ecSign C (hashBytes cd (checkpointHash p)) key")
  case (Ret s)
  let ?a = "keyToAddress C key"
  show ?thesis
  proof (cases "?a \<in> fst ` set (sigs_of p)")
    case True
    then obtain old where "sig_map p ?a = Some old"
      by (metis sig_map_def map_of_eq_None_iff option.exhaust)
    moreover have "signCheckpointProof cd C key p = (Ret (), p)"
      using True Ret by (cases "signatures p") (auto simp: signCheckpointProof_def sigs_of_def Let_def)
    moreover have "hasSignature p ?a"
      using True by (cases "signatures p") (auto simp: hasSignature_def sigs_of_def)
    ultimately show ?thesis
      using Ret by (auto simp: fun_upd_idem)
  next
    case False
    then have "sig_map p ?a = None"
      by (simp add: sig_map_def map_of_eq_None_iff)
    moreover have "signCheckpointProof cd C key p =
        (Ret (), p\<lparr>signatures := Some (go_put ?a s (sigs_of p))\<rparr>)"
      using False Ret by (auto simp: signCheckpointProof_def sigs_of_def Let_def split: option.splits)
    ultimately show ?thesis
      using Ret by (simp add: hasSignature_def keys_put) (simp add: sig_map_def)
  qed
qed (simp_all add: signCheckpointProof_def)

text \<open>
  The signature covers the checkpoint hash alone: for two proofs with the same checkpoint
  hash and signatures, whatever their epoch numbers, raw blocks and block hashes, signing yields the
  same result and the same signatures. (The hub recovers signers from the hash of block hash and
  checkpoint hash together.)
\<close>

theorem signCheckpointProof_ignores_block:
  assumes "checkpointHash p = checkpointHash q" and "signatures p = signatures q"
  shows "fst (signCheckpointProof cd C key p) = fst (signCheckpointProof cd C key q)
         \<and> signatures (snd (signCheckpointProof cd C key p)) = signatures (snd (signCheckpointProof cd C key q))"
  using assms by (auto simp: signCheckpointProof_def sigs_of_def Let_def split: outcome.splits)

definition sample_proof :: "u64 \<Rightarrow> bytes \<Rightarrow> (address, bytes) gomap option \<Rightarrow> checkpointProof" where
  "sample_proof n ch sigs = \<lparr>epochNumber = n, rawEpochBlock = [], blockHash = replicate 32 (ucast n),
     checkpointHash = ch, signatures = sigs\<rparr>"

theorem signCheckpointProof_ignores_block_witness:
  "fst (signCheckpointProof sample_codec sample_crypto 5 (sample_proof 1 [7] None)) =
     fst (signCheckpointProof sample_codec sample_crypto 5 (sample_proof 2 [7] None))
   \<and> signatures (snd (signCheckpointProof sample_codec sample_crypto 5 (sample_proof 1 [7] None))) =
     signatures (snd (signCheckpointProof sample_codec sample_crypto 5 (sample_proof 2 [7] None)))"
  by (rule signCheckpointProof_ignores_block) (simp_all add: sample_proof_def)

text \<open>
  \<open>addSignature\<close> implements an update of a finite map: afterwards the signer has this
  signature, every other signer what it had, the boolean tells whether the signer is new, the number
  of signatures grows by one exactly in that case, and \<open>hasSignature\<close> and \<open>getSignatureOrNil\<close> read
  the same map.
\<close>

theorem addSignature_refines:
  assumes "wf_proof p"
  shows "let (new, p') = addSignature a s p in
           wf_proof p' \<and> sig_map p' = (sig_map p)(a \<mapsto> s) \<and> new = (\<not> hasSignature p a)
           \<and> sig_count p' = (if new then Suc (sig_count p) else sig_count p)
           \<and> getSignatureOrNil p' a = s
           \<and> (\<forall>b. b \<noteq> a \<longrightarrow> getSignatureOrNil p' b = getSignatureOrNil p b \<and> hasSignature p' b = hasSignature p b)"
proof -
  obtain new p' where op: "addSignature a s p = (new, p')" by (cases "addSignature a s p")
  then have entry: "new = fst (add_entry (a, s) p)" "p' = snd (add_entry (a, s) p)"
    by (simp_all add: add_entry_def)
  have get: "getSignatureOrNil x b = (case sig_map x b of None \<Rightarrow> [] | Some v \<Rightarrow> v)" for x b
    by (auto simp: getSignatureOrNil_def sig_map_def sigs_of_def split: option.splits)
  have ok': "wf_proof p'" and map': "sig_map p' = (sig_map p)(a \<mapsto> s)"
    using book.add_ok [OF assms] book.add_abs [OF assms] entry by simp_all
  have "sig_count p' = (if new then Suc (sig_count p) else sig_count p)"
    using book.count_abs [OF assms] book.count_abs [OF ok'] map' book.add_new [OF assms] entry(1)
    by (auto simp: domIff insert_absorb)
  then show ?thesis
    using op ok' map' book.add_new [OF assms] book.has_abs [OF assms] book.has_abs [OF ok'] entry(1)
    by (simp add: get)
qed

theorem addSignature_refines_witness:
  "let (new, p') = addSignature [1] [9] (sample_proof 1 [7] (Some [([2], [8])])) in
     sig_map p' [1] = Some [9] \<and> sig_map p' [2] = Some [8] \<and> new \<and> sig_count p' = 2"
proof -
  let ?p = "sample_proof 1 [7] (Some [([2], [8])])"
  have wf: "wf_proof ?p" by (simp add: wf_proof_def sigs_of_def wf_map_def sample_proof_def)
  show ?thesis
    using addSignature_refines [OF wf, of "[1]" "[9]"]
    by (auto simp: Let_def split_beta sig_map_def sigs_of_def sample_proof_def hasSignature_def sig_count_def)
qed

end
