(* ===== verification/Service.thy ===== *)
theory Service
  imports Checkpoint
begin

text \<open>
  The state of the relay service (\<open>relayer/service.go\<close>, first part): the cache of checkpoint proofs
  with lookup and merge, the collector of received proofs, and the fetcher of confirmed blocks; and
  the names and the construction of the emitter (\<open>relayer/emitter.go\<close>).

  Proofs are shared by pointer: the service keeps them in a heap, the cache maps keys to references.
  The cache itself is the package golang-lru, a parameter; its keys are \<open>interface{}\<close> values, which
  are equal only if their dynamic types are, hence the datatype \<open>lru_key\<close> with one constructor per
  type that the code uses as a key.
\<close>

section \<open>State\<close>

type_synonym ref = nat

datatype lru_key = KeyHash hash | KeyUint64 u64

record 'c lru_lib =
  lruNew :: "nat \<Rightarrow> 'c outcome"
  lruGet :: "lru_key \<Rightarrow> 'c \<Rightarrow> ref option \<times> 'c"
  lruAdd :: "lru_key \<Rightarrow> ref \<Rightarrow> 'c \<Rightarrow> 'c"

record 'c RelayService =
  proofsMap :: 'c
  proofHeap :: "ref \<Rightarrow> checkpointProof option"
  nextRef :: ref

definition NewRelayService :: "'c lru_lib \<Rightarrow> 'c RelayService outcome" where
  "NewRelayService lru =
     outcome_bind (must (lruNew lru 1000)) (\<lambda>cache.
     Ret \<lparr>proofsMap = cache, proofHeap = Map.empty, nextRef = 0\<rparr>)"

text \<open>\<open>Stop\<close> has nothing to do.\<close>

definition RelayService_Stop :: "('c RelayService, unit) io" where
  "RelayService_Stop s = (Ret (), s)"

text \<open>\<open>emitterNew\<close> is \<open>emitter.New\<close>, with the capacity of the channels it makes. The service and the
  server know each other's events by name.\<close>

definition newEmitter :: "(nat \<Rightarrow> 'e) \<Rightarrow> 'e" where
  "newEmitter emitterNew = emitterNew 10000"

definition checkpointProofSigned :: string where
  "checkpointProofSigned = ''checkpointProofSigned''"

definition checkpointProofReceived :: string where
  "checkpointProofReceived = ''checkpointProofReceived''"

text \<open>\<open>&checkpointProof{...}\<close>: a fresh object.\<close>

definition new_proof :: "checkpointProof \<Rightarrow> 'c RelayService \<Rightarrow> ref \<times> 'c RelayService" where
  "new_proof p s = (nextRef s, s\<lparr>proofHeap := (proofHeap s)(nextRef s \<mapsto> p), nextRef := Suc (nextRef s)\<rparr>)"

section \<open>Lookup and merge\<close>

definition findCheckpointProof ::
    "'c lru_lib \<Rightarrow> hash \<Rightarrow> 'c RelayService \<Rightarrow> ref option \<times> 'c RelayService" where
  "findCheckpointProof lru h s =
     (case lruGet lru (KeyHash h) (proofsMap s) of
        (Some found, c) \<Rightarrow> (Some found, s\<lparr>proofsMap := c\<rparr>)
      | (None, c) \<Rightarrow> (None, s\<lparr>proofsMap := c\<rparr>))"

fun merge_loop :: "(address, bytes) gomap \<Rightarrow> checkpointProof \<Rightarrow> checkpointProof" where
  "merge_loop [] existingProof = existingProof"
| "merge_loop ((signer, signature) # rest) existingProof =
     (case addSignature signer signature existingProof of
        (_, existingProof) \<Rightarrow> merge_loop rest existingProof)"

definition mergeCheckpointProof ::
    "'c lru_lib \<Rightarrow> ((address, bytes) gomap \<Rightarrow> (address, bytes) gomap) \<Rightarrow> ref \<Rightarrow>
     ('c RelayService, ref) io" where
  "mergeCheckpointProof lru ord r s =
     (case proofHeap s r of
        None \<Rightarrow> (Panic NilDereference, s)
      | Some proof \<Rightarrow>
          (case lruGet lru (KeyHash (checkpointHash proof)) (proofsMap s) of
             (None, c) \<Rightarrow>
               (Ret r, s\<lparr>proofsMap := lruAdd lru (KeyUint64 (epochNumber proof)) r c\<rparr>)
           | (Some existing, c) \<Rightarrow>
               (case proofHeap s existing of
                  None \<Rightarrow> (Panic NilDereference, s\<lparr>proofsMap := c\<rparr>)
                | Some existingProof \<Rightarrow>
                    (Ret existing,
                     s\<lparr>proofsMap := c,
                       proofHeap := (proofHeap s)(existing \<mapsto>
                         merge_loop (ord (sigs_of proof)) existingProof)\<rparr>))))"

section \<open>The collector\<close>

text \<open>An event carries its arguments as \<open>interface{}\<close> values; the collector takes the first one and
  asserts that it is a proof.\<close>

datatype payload = ProofArg ref | OtherArg

definition collect_event ::
    "'c lru_lib \<Rightarrow> ((address, bytes) gomap \<Rightarrow> (address, bytes) gomap) \<Rightarrow> payload list \<Rightarrow>
     ('c RelayService, unit) io" where
  "collect_event lru ord args =
     io_bind (io_lift (go_index args 0)) (\<lambda>arg.
     case arg of
       ProofArg r \<Rightarrow> io_bind (mergeCheckpointProof lru ord r) (\<lambda>_. io_ret ())
     | OtherArg \<Rightarrow> io_lift (Panic TypeAssertion))"

fun collectCheckpointProofsWorker ::
    "'c lru_lib \<Rightarrow> ((address, bytes) gomap \<Rightarrow> (address, bytes) gomap) \<Rightarrow> payload list list \<Rightarrow>
     ('c RelayService, unit) io" where
  "collectCheckpointProofsWorker lru ord [] = io_ret ()"
| "collectCheckpointProofsWorker lru ord (args # events) =
     io_bind (collect_event lru ord args) (\<lambda>_. collectCheckpointProofsWorker lru ord events)"

section \<open>The fetcher of confirmed blocks\<close>

text \<open>
  One tick: ask for the head, remember it if it is new, and send the block that has the configured
  number of confirmations. The comparison with 0 is the code's; on an unsigned number it never holds.
\<close>

definition fetcher_tick ::
    "u64 \<Rightarrow> 'w eth_client \<Rightarrow> u64 \<Rightarrow> 'w \<Rightarrow> (u64 \<times> u64 option) outcome \<times> 'w" where
  "fetcher_tick confirmations client latestBlockNumber w =
     (case ethBlockNumber client w of
        (Ret blockNumber, w') \<Rightarrow>
          if blockNumber \<le> latestBlockNumber then (Ret (latestBlockNumber, None), w')
          else
            (let latestBlockNumber = blockNumber;
                 confirmedBlock = blockNumber - confirmations in
             if confirmedBlock < 0 then (Ret (latestBlockNumber, None), w')
             else (Ret (latestBlockNumber, Some confirmedBlock), w'))
      | (Fail e, w') \<Rightarrow> (Ret (latestBlockNumber, None), w')
      | (Panic p, w') \<Rightarrow> (Panic p, w')
      | (Exit m, w') \<Rightarrow> (Exit m, w'))"

text \<open>\<open>n\<close> ticks in a row; the result holds the numbers sent, in order.\<close>

fun latestBlockFetcher ::
    "u64 \<Rightarrow> 'w eth_client \<Rightarrow> nat \<Rightarrow> u64 \<Rightarrow> ('w, u64 \<times> u64 list) io" where
  "latestBlockFetcher confirmations client 0 latestBlockNumber = io_ret (latestBlockNumber, [])"
| "latestBlockFetcher confirmations client (Suc n) latestBlockNumber =
     io_bind (fetcher_tick confirmations client latestBlockNumber) (\<lambda>(latestBlockNumber, sent).
     io_bind (latestBlockFetcher confirmations client n latestBlockNumber) (\<lambda>(latestBlockNumber, rest).
     io_ret (latestBlockNumber, (case sent of None \<Rightarrow> rest | Some b \<Rightarrow> b # rest))))"

section \<open>Steps of the service\<close>

text \<open>
  Whatever happens to the service while it runs: a proof arrives from another relayer and the
  collector merges it; an epoch worker builds a proof, signs it with the relayer's key and merges
  it; somebody looks a proof up. The first two allocate the proof they merge.
\<close>

datatype svc_action =
    Received checkpointProof
  | SignedLocally checkpointProof priv_key
  | Lookup hash

definition perform ::
    "'c lru_lib \<Rightarrow> ((address, bytes) gomap \<Rightarrow> (address, bytes) gomap) \<Rightarrow> codec_lib \<Rightarrow> crypto_lib \<Rightarrow>
     svc_action \<Rightarrow> 'c RelayService \<Rightarrow> 'c RelayService" where
  "perform lru ord cd C a s =
     (case a of
        Received p \<Rightarrow> (case new_proof p s of (r, s') \<Rightarrow> snd (collect_event lru ord [ProofArg r] s'))
      | SignedLocally p key \<Rightarrow>
          (case signCheckpointProof cd C key p of
             (Ret _, p') \<Rightarrow> (case new_proof p' s of (r, s') \<Rightarrow> snd (mergeCheckpointProof lru ord r s'))
           | (_, p') \<Rightarrow> snd (new_proof p' s))
      | Lookup h \<Rightarrow> snd (findCheckpointProof lru h s))"

inductive service_step ::
    "'c lru_lib \<Rightarrow> ((address, bytes) gomap \<Rightarrow> (address, bytes) gomap) \<Rightarrow> codec_lib \<Rightarrow> crypto_lib \<Rightarrow>
     'c RelayService \<Rightarrow> 'c RelayService \<Rightarrow> bool"
  for lru ord cd C where
  act: "service_step lru ord cd C s (perform lru ord cd C a s)"

inductive_cases service_stepE: "service_step lru ord cd C s t"

text \<open>
  The documented behaviour of the cache, stated with the set \<open>content c\<close> of its entries: a new cache
  is empty, a lookup does not change the entries and returns only a value stored under an equal key,
  an insertion adds one entry and may evict others.
\<close>

definition lru_laws :: "'c lru_lib \<Rightarrow> ('c \<Rightarrow> (lru_key \<times> ref) set) \<Rightarrow> bool" where
  "lru_laws lru content \<longleftrightarrow>
     (\<forall>n c. lruNew lru n = Ret c \<longrightarrow> content c = {}) \<and>
     (\<forall>k c. content (snd (lruGet lru k c)) = content c) \<and>
     (\<forall>k c r. fst (lruGet lru k c) = Some r \<longrightarrow> (k, r) \<in> content c) \<and>
     (\<forall>k r c. content (lruAdd lru k r c) \<subseteq> insert (k, r) (content c))"

lemma lru_lawsD:
  assumes "lru_laws lru content"
  shows "lruNew lru n = Ret c \<Longrightarrow> content c = {}"
    and "content (snd (lruGet lru k c)) = content c"
    and "fst (lruGet lru k c) = Some r \<Longrightarrow> (k, r) \<in> content c"
    and "content (lruAdd lru k r c) \<subseteq> insert (k, r) (content c)"
  using assms by (auto simp: lru_laws_def)

definition service_start ::
    "'c lru_lib \<Rightarrow> ('c \<Rightarrow> (lru_key \<times> ref) set) \<Rightarrow> 'c RelayService \<Rightarrow> bool" where
  "service_start lru content s \<longleftrightarrow> lru_laws lru content \<and> NewRelayService lru = Ret s"

text \<open>The invariant: every key in the cache is an epoch number, every reference in it is allocated.\<close>

definition service_inv ::
    "'c lru_lib \<Rightarrow> ('c \<Rightarrow> (lru_key \<times> ref) set) \<Rightarrow> 'c RelayService \<Rightarrow> bool" where
  "service_inv lru content s \<longleftrightarrow>
     lru_laws lru content \<and>
     (\<forall>(k, r)\<in>content (proofsMap s). (\<exists>n. k = KeyUint64 n) \<and> r < nextRef s) \<and>
     (\<forall>r. proofHeap s r \<noteq> None \<longleftrightarrow> r < nextRef s)"

lemma inv_get_hash:
  assumes "service_inv lru content s"
  shows "fst (lruGet lru (KeyHash h) (proofsMap s)) = None"
proof (rule ccontr)
  assume "\<not> ?thesis"
  then obtain r where r: "fst (lruGet lru (KeyHash h) (proofsMap s)) = Some r" by blast
  have "lru_laws lru content"
    using assms by (simp add: service_inv_def)
  then have "(KeyHash h, r) \<in> content (proofsMap s)"
    using lru_lawsD(3) r by metis
  then show False
    using assms by (auto simp: service_inv_def)
qed

lemma inv_find:
  assumes "service_inv lru content s"
  shows "fst (findCheckpointProof lru h s) = None"
    and "service_inv lru content (snd (findCheckpointProof lru h s))"
proof -
  obtain c where get: "lruGet lru (KeyHash h) (proofsMap s) = (None, c)"
    using inv_get_hash [OF assms, of h] by (cases "lruGet lru (KeyHash h) (proofsMap s)") auto
  have "content c = content (proofsMap s)"
    using assms lru_lawsD(2) [of lru content "KeyHash h" "proofsMap s"] get by (simp add: service_inv_def)
  then show "fst (findCheckpointProof lru h s) = None"
    and "service_inv lru content (snd (findCheckpointProof lru h s))"
    using assms get by (simp_all add: findCheckpointProof_def service_inv_def)
qed

lemma inv_new: "service_inv lru content s \<Longrightarrow> service_inv lru content (snd (new_proof p s))"
  by (force simp: service_inv_def new_proof_def)

lemma inv_merge:
  assumes "service_inv lru content s" and "r < nextRef s"
  shows "fst (mergeCheckpointProof lru ord r s) = Ret r"
    and "proofHeap (snd (mergeCheckpointProof lru ord r s)) = proofHeap s"
    and "nextRef (snd (mergeCheckpointProof lru ord r s)) = nextRef s"
    and "service_inv lru content (snd (mergeCheckpointProof lru ord r s))"
proof -
  obtain p where p: "proofHeap s r = Some p"
    using assms by (auto simp: service_inv_def)
  obtain c where get: "lruGet lru (KeyHash (checkpointHash p)) (proofsMap s) = (None, c)"
    using inv_get_hash [OF assms(1), of "checkpointHash p"]
    by (cases "lruGet lru (KeyHash (checkpointHash p)) (proofsMap s)") auto
  have laws: "lru_laws lru content" using assms(1) by (simp add: service_inv_def)
  have c: "content c = content (proofsMap s)"
    using lru_lawsD(2) [OF laws, of "KeyHash (checkpointHash p)" "proofsMap s"] get by simp
  have eq: "mergeCheckpointProof lru ord r s =
      (Ret r, s\<lparr>proofsMap := lruAdd lru (KeyUint64 (epochNumber p)) r c\<rparr>)"
    by (simp add: mergeCheckpointProof_def p get)
  show "fst (mergeCheckpointProof lru ord r s) = Ret r"
    and "proofHeap (snd (mergeCheckpointProof lru ord r s)) = proofHeap s"
    and "nextRef (snd (mergeCheckpointProof lru ord r s)) = nextRef s"
    by (simp_all add: eq)
  show "service_inv lru content (snd (mergeCheckpointProof lru ord r s))"
    using assms lru_lawsD(4) [OF laws, of "KeyUint64 (epochNumber p)" r c] laws
    unfolding service_inv_def eq by (fastforce simp: c)
qed

lemma perform_keeps:
  assumes "service_inv lru content s"
  shows "service_inv lru content (perform lru ord cd C a s)"
    and "r < nextRef s \<Longrightarrow> proofHeap (perform lru ord cd C a s) r = proofHeap s r"
    and "nextRef s \<le> nextRef (perform lru ord cd C a s)"
proof -
  have store: "service_inv lru content (snd (mergeCheckpointProof lru ord r' s'))
      \<and> (r < nextRef s \<longrightarrow> proofHeap (snd (mergeCheckpointProof lru ord r' s')) r = proofHeap s r)
      \<and> nextRef s \<le> nextRef (snd (mergeCheckpointProof lru ord r' s'))"
    if new: "new_proof p s = (r', s')" for p r' s'
  proof -
    have "service_inv lru content s'"
      using inv_new [OF assms, of p] new by simp
    moreover have "r' < nextRef s'" and "nextRef s \<le> nextRef s'"
      and "r < nextRef s \<longrightarrow> proofHeap s' r = proofHeap s r"
      using new by (auto simp: new_proof_def)
    ultimately show ?thesis
      using inv_merge [of lru content s' r' ord] by simp
  qed
  have new_only: "service_inv lru content (snd (new_proof p s))
      \<and> (r < nextRef s \<longrightarrow> proofHeap (snd (new_proof p s)) r = proofHeap s r)
      \<and> nextRef s \<le> nextRef (snd (new_proof p s))" for p
    using inv_new [OF assms] by (simp add: new_proof_def)
  have collect: "snd (collect_event lru ord [ProofArg r'] s') = snd (mergeCheckpointProof lru ord r' s')"
    for r' s'
    unfolding collect_event_def go_index_def
    by (simp add: io_bind_def io_ret_def io_lift_def split: prod.split outcome.split)
  have look: "proofHeap (snd (findCheckpointProof lru h s)) = proofHeap s"
    "nextRef (snd (findCheckpointProof lru h s)) = nextRef s" for h
    by (auto simp: findCheckpointProof_def split: prod.splits option.splits)
  have "service_inv lru content (perform lru ord cd C a s)
      \<and> (r < nextRef s \<longrightarrow> proofHeap (perform lru ord cd C a s) r = proofHeap s r)
      \<and> nextRef s \<le> nextRef (perform lru ord cd C a s)"
  proof (cases a)
    case (Received p)
    then show ?thesis
      using store by (cases "new_proof p s") (simp add: perform_def collect)
  next
    case (SignedLocally p key)
    obtain res p' where "signCheckpointProof cd C key p = (res, p')"
      by (cases "signCheckpointProof cd C key p")
    then show ?thesis
      using SignedLocally store new_only [of p']
      by (cases res; cases "new_proof p' s") (simp_all add: perform_def)
  next
    case (Lookup h)
    then show ?thesis
      using inv_find(2) [OF assms] look by (simp add: perform_def)
  qed
  then show "service_inv lru content (perform lru ord cd C a s)"
    and "r < nextRef s \<Longrightarrow> proofHeap (perform lru ord cd C a s) r = proofHeap s r"
    and "nextRef s \<le> nextRef (perform lru ord cd C a s)"
    by auto
qed

interpretation svc: invariant_system
  "service_start lru content" "service_step lru ord cd C" "service_inv lru content"
  for lru :: "'c lru_lib" and content ord cd C
proof unfold_locales
  show "service_inv lru content s" if start: "service_start lru content s" for s
  proof -
    obtain cache where laws: "lru_laws lru content" and new: "lruNew lru 1000 = Ret cache"
      and s: "s = \<lparr>proofsMap = cache, proofHeap = Map.empty, nextRef = 0\<rparr>"
      using start by (auto simp: service_start_def NewRelayService_def must_def outcome_bind_Ret_iff)
    have "content cache = {}"
      by (rule lru_lawsD(1) [OF laws new])
    with laws s show ?thesis by (simp add: service_inv_def)
  qed
  show "service_inv lru content t" if "service_inv lru content s" "service_step lru ord cd C s t" for s t
    using that(2,1) by (auto elim!: service_stepE intro: perform_keeps)
qed

lemma steps_keep_proofs:
  assumes "(service_step lru ord cd C)\<^sup>*\<^sup>* s t" and "service_inv lru content s" and "r < nextRef s"
  shows "proofHeap t r = proofHeap s r \<and> r < nextRef t"
  using assms(1)
proof (induction rule: rtranclp_induct)
  case (step t u)
  have "service_inv lru content t"
    by (rule svc.inv_steps [OF step.hyps(1) assms(2)])
  then show ?case
    using step.hyps(2) step.IH perform_keeps(2,3) [OF \<open>service_inv lru content t\<close>]
    by (auto elim!: service_stepE intro: order.strict_trans2)
qed (use assms(3) in simp)

lemma performs_keep:
  assumes "service_inv lru content s"
  shows "service_inv lru content (fold (perform lru ord cd C) acts s)"
    and "r < nextRef s \<Longrightarrow> proofHeap (fold (perform lru ord cd C) acts s) r = proofHeap s r"
    and "nextRef s \<le> nextRef (fold (perform lru ord cd C) acts s)"
proof -
  have "service_inv lru content s \<Longrightarrow> service_inv lru content (fold (perform lru ord cd C) acts s)
      \<and> (r < nextRef s \<longrightarrow> proofHeap (fold (perform lru ord cd C) acts s) r = proofHeap s r)
      \<and> nextRef s \<le> nextRef (fold (perform lru ord cd C) acts s)" for s
  proof (induction acts arbitrary: s)
    case (Cons a acts)
    have one: "service_inv lru content (perform lru ord cd C a s)"
      "r < nextRef s \<longrightarrow> proofHeap (perform lru ord cd C a s) r = proofHeap s r"
      "nextRef s \<le> nextRef (perform lru ord cd C a s)"
      using perform_keeps [OF Cons.prems] by auto
    show ?case
      using Cons.IH [OF one(1)] one(2,3) by auto
  qed simp
  then show "service_inv lru content (fold (perform lru ord cd C) acts s)"
    and "r < nextRef s \<Longrightarrow> proofHeap (fold (perform lru ord cd C) acts s) r = proofHeap s r"
    and "nextRef s \<le> nextRef (fold (perform lru ord cd C) acts s)"
    using assms by auto
qed

section \<open>A cache that meets the documented behaviour\<close>

definition sample_lru :: "(lru_key \<times> ref) list lru_lib" where
  "sample_lru = \<lparr>lruNew = (\<lambda>n. if n = 0 then Fail (LibError ''must provide a positive size'') else Ret []),
     lruGet = (\<lambda>k c. (map_of c k, c)), lruAdd = (\<lambda>k r c. take 1000 ((k, r) # c))\<rparr>"

lemma sample_lru_laws [simp]: "lru_laws sample_lru set"
  by (auto simp: lru_laws_def sample_lru_def dest: in_set_takeD map_of_SomeD)

definition sample_service :: "(lru_key \<times> ref) list RelayService" where
  "sample_service = \<lparr>proofsMap = [], proofHeap = Map.empty, nextRef = 0\<rparr>"

lemma sample_service_start: "NewRelayService sample_lru = Ret sample_service"
  by (simp add: NewRelayService_def sample_lru_def must_def sample_service_def)

section \<open>Properties of the cache\<close>

text \<open>
  Proofs are entered under their epoch number and looked up under their checkpoint hash,
  keys of different dynamic types. So in every state that the service reaches, by whatever proofs
  arrive, are signed and are looked up, \<open>findCheckpointProof\<close> finds nothing.
\<close>

theorem findCheckpointProof_never_finds:
  assumes "lru_laws lru content" and "NewRelayService lru = Ret s0"
    and "(service_step lru ord cd C)\<^sup>*\<^sup>* s0 s"
  shows "fst (findCheckpointProof lru h s) = None"
proof -
  have "service_inv lru content s"
    using svc.reachable_inv [OF _ assms(3)] assms(1,2) by (simp add: service_start_def)
  then show ?thesis by (rule inv_find(1))
qed

definition sample_stored :: "(lru_key \<times> ref) list RelayService" where
  "sample_stored = perform sample_lru id sample_codec sample_crypto
     (Received (sample_proof 1 [7] (Some [([2], [8])]))) sample_service"

lemma sample_perform:
  "(service_step sample_lru id sample_codec sample_crypto)\<^sup>*\<^sup>* s
     (perform sample_lru id sample_codec sample_crypto a s)"
  by (rule r_into_rtranclp) (rule service_step.act)

lemma sample_stored_reach:
  "(service_step sample_lru id sample_codec sample_crypto)\<^sup>*\<^sup>* sample_service sample_stored"
  unfolding sample_stored_def by (rule sample_perform)

lemma sample_stored_eq: "sample_stored = \<lparr>proofsMap = [(KeyUint64 1, 0)],
    proofHeap = [0 \<mapsto> sample_proof 1 [7] (Some [([2], [8])])], nextRef = 1\<rparr>"
  by (simp add: sample_stored_def perform_def new_proof_def collect_event_def go_index_def io_bind_def
      io_ret_def io_lift_def mergeCheckpointProof_def sample_service_def sample_lru_def sample_proof_def)

theorem findCheckpointProof_never_finds_witness:
  "proofHeap sample_stored 0 = Some (sample_proof 1 [7] (Some [([2], [8])]))
   \<and> fst (findCheckpointProof sample_lru [7] sample_stored) = None"
  using findCheckpointProof_never_finds [OF sample_lru_laws sample_service_start sample_stored_reach]
  by (simp add: sample_stored_eq)

text \<open>
  Property C18. As a consequence merging never merges. In every reachable state
  \<open>mergeCheckpointProof\<close> returns the proof it was given and changes no proof, and the proofs that
  exist keep their signatures whatever the service does afterwards: signatures received from other
  relayers never reach the proof that this relayer has signed.
\<close>

theorem mergeCheckpointProof_never_merges:
  assumes "lru_laws lru content" and "NewRelayService lru = Ret s0"
    and "(service_step lru ord cd C)\<^sup>*\<^sup>* s0 s" and "r < nextRef s"
    and "(service_step lru ord cd C)\<^sup>*\<^sup>* (snd (mergeCheckpointProof lru ord r s)) t"
  shows "fst (mergeCheckpointProof lru ord r s) = Ret r
         \<and> (\<forall>r' < nextRef s. proofHeap s r' \<noteq> None \<and> proofHeap t r' = proofHeap s r')"
proof -
  have inv: "service_inv lru content s"
    using svc.reachable_inv [OF _ assms(3)] assms(1,2) by (simp add: service_start_def)
  let ?s = "snd (mergeCheckpointProof lru ord r s)"
  note merge = inv_merge [OF inv assms(4), of ord]
  have "proofHeap t r' = proofHeap s r'" if "r' < nextRef s" for r'
    using steps_keep_proofs [OF assms(5) merge(4), of r'] merge(2,3) that by simp
  then show ?thesis
    using merge(1) inv by (simp add: service_inv_def)
qed

theorem mergeCheckpointProof_never_merges_witness:
  "fst (mergeCheckpointProof sample_lru id 0 sample_stored) = Ret 0
   \<and> sig_map (sample_proof 1 [7] (Some [([3], [9])])) [3] = Some [9]
   \<and> proofHeap (perform sample_lru id sample_codec sample_crypto
        (Received (sample_proof 1 [7] (Some [([3], [9])])))
        (snd (mergeCheckpointProof sample_lru id 0 sample_stored))) 0
      = Some (sample_proof 1 [7] (Some [([2], [8])]))"
proof -
  have r: "0 < nextRef sample_stored" by (simp add: sample_stored_eq)
  show ?thesis
    using mergeCheckpointProof_never_merges [OF sample_lru_laws sample_service_start sample_stored_reach r
        sample_perform [of _ "Received (sample_proof 1 [7] (Some [([3], [9])]))"]] r
    by (auto simp: sample_stored_eq sig_map_def sigs_of_def sample_proof_def)
qed

lemma merge_loop_run: "merge_loop es p = run_with add_entry es p"
  by (induction es p rule: merge_loop.induct) (auto simp: add_entry_def split: prod.splits)

lemma merge_loop_fields: "merge_loop es p = p\<lparr>signatures := signatures (merge_loop es p)\<rparr>"
proof (induction es p rule: merge_loop.induct)
  case (2 a s rest p)
  then show ?case
    by (simp add: addSignature_eq)
qed simp

text \<open>
  Property C33. What merging does when the cache does hold a proof under the checkpoint hash: that proof
  is returned, its signatures are united with those of the argument (the argument's win), nothing
  else of it changes, no other proof changes, and the order in which the language ranges over the
  argument's map does not matter.
\<close>

theorem mergeCheckpointProof_unites:
  assumes "range_order ord" and "proofHeap s r = Some p" and "wf_proof p"
    and "lruGet lru (KeyHash (checkpointHash p)) (proofsMap s) = (Some e, c)"
    and "proofHeap s e = Some x" and "wf_proof x"
  shows "\<exists>x'. mergeCheckpointProof lru ord r s =
             (Ret e, s\<lparr>proofsMap := c, proofHeap := (proofHeap s)(e \<mapsto> x')\<rparr>)
           \<and> wf_proof x' \<and> sig_map x' = sig_map x ++ sig_map p
           \<and> (\<forall>a. hasSignature x' a \<longleftrightarrow> hasSignature x a \<or> hasSignature p a)
           \<and> x' = x\<lparr>signatures := signatures x'\<rparr>"
proof -
  let ?es = "ord (sigs_of p)"
  let ?x = "merge_loop ?es x"
  have wf: "wf_map ?es" and keys: "fst ` set ?es = fst ` set (sigs_of p)"
    using assms(1,3) range_order_wf [of ord "sigs_of p"] range_order_set [of ord "sigs_of p"]
    by (simp_all add: wf_proof_def)
  have "sig_map ?x = sig_map x ++ sig_map p"
    using book.merge_distinct [OF assms(6), of ?es] wf range_order_map_of [OF assms(1)] assms(3)
    by (simp add: merge_loop_run wf_map_def [symmetric] wf_proof_def sig_map_def)
  moreover have "hasSignature ?x a \<longleftrightarrow> hasSignature x a \<or> hasSignature p a" for a
    using book.has_merge [OF assms(6), of ?es a] keys book.has_abs [OF assms(3), of a]
    by (simp add: merge_loop_run sig_map_def map_of_eq_None_iff)
  moreover have "wf_proof ?x"
    using book.merge_ok [OF assms(6)] by (simp add: merge_loop_run)
  ultimately show ?thesis
    using assms merge_loop_fields [of ?es x] by (intro exI [of _ ?x]) (simp add: mergeCheckpointProof_def)
qed

definition sample_merging :: "(lru_key \<times> ref) list RelayService" where
  "sample_merging = \<lparr>proofsMap = [(KeyHash [7], 0)],
     proofHeap = [0 \<mapsto> sample_proof 1 [7] (Some [([2], [8])]), 1 \<mapsto> sample_proof 1 [7] (Some [([3], [9])])],
     nextRef = 2\<rparr>"

theorem mergeCheckpointProof_unites_witness:
  "\<exists>x'. fst (mergeCheckpointProof sample_lru rev 1 sample_merging) = Ret 0
      \<and> proofHeap (snd (mergeCheckpointProof sample_lru rev 1 sample_merging)) 0 = Some x'
      \<and> sig_map x' [2] = Some [8] \<and> sig_map x' [3] = Some [9]"
proof -
  let ?p = "sample_proof 1 [7] (Some [([3], [9])])" and ?x = "sample_proof 1 [7] (Some [([2], [8])])"
  have wf: "wf_proof ?p" "wf_proof ?x"
    by (simp_all add: wf_proof_def sigs_of_def wf_map_def sample_proof_def)
  have get: "lruGet sample_lru (KeyHash (checkpointHash ?p)) (proofsMap sample_merging) = (Some 0, [(KeyHash [7], 0)])"
    by (simp add: sample_lru_def sample_merging_def sample_proof_def)
  have heap: "proofHeap sample_merging 1 = Some ?p" "proofHeap sample_merging 0 = Some ?x"
    by (simp_all add: sample_merging_def)
  obtain x' where "mergeCheckpointProof sample_lru rev 1 sample_merging =
      (Ret 0, sample_merging\<lparr>proofsMap := [(KeyHash [7], 0)], proofHeap := (proofHeap sample_merging)(0 \<mapsto> x')\<rparr>)"
    "sig_map x' = sig_map ?x ++ sig_map ?p"
    using mergeCheckpointProof_unites [OF _ heap(1) wf(1) get heap(2) wf(2), of rev]
    by (auto simp: range_order_def)
  then show ?thesis
    by (intro exI [of _ x']) (simp add: sig_map_def sigs_of_def sample_proof_def)
qed

section \<open>Properties of the fetcher\<close>

lemma not_below_zero [simp]: "\<not> (x::u64) < 0"
  by (simp add: word_less_nat_alt)

lemma fetcher_tick_Ret_iff:
  "fetcher_tick conf client l w = (Ret r, w') \<longleftrightarrow>
     (\<exists>b. ethBlockNumber client w = (Ret b, w') \<and> r = (if b \<le> l then (l, None) else (b, Some (b - conf))))
     \<or> (\<exists>e. ethBlockNumber client w = (Fail e, w') \<and> r = (l, None))"
  by (auto simp: fetcher_tick_def split: prod.splits outcome.splits)

text \<open>The heads that the node reports to \<open>n\<close> requests in a row; an error reports nothing.\<close>

primrec head_answers :: "'w eth_client \<Rightarrow> nat \<Rightarrow> 'w \<Rightarrow> u64 list \<times> 'w" where
  "head_answers client 0 w = ([], w)"
| "head_answers client (Suc n) w =
     (case ethBlockNumber client w of (r, w1) \<Rightarrow>
      case head_answers client n w1 of (heads, w2) \<Rightarrow> ((case r of Ret head \<Rightarrow> head # heads | _ \<Rightarrow> heads), w2))"

text \<open>The reports that exceed \<open>l\<close> and every report before them.\<close>

definition new_heads :: "u64 \<Rightarrow> u64 list \<Rightarrow> u64 list" where
  "new_heads l heads = map ((!) heads) (filter (\<lambda>i. \<forall>b\<in>set (l # take i heads). b < heads ! i) [0..<length heads])"

lemma new_heads_simps [simp]:
  "new_heads l [] = []"
  "new_heads l (b # heads) = (if l < b then b # new_heads b heads else new_heads l heads)"
proof -
  have idx: "[0..<length (b # heads)] = 0 # map Suc [0..<length heads]"
    by (simp add: upt_conv_Cons map_Suc_upt del: upt_Suc)
  have above: "(\<forall>x\<in>set (l # take (Suc i) (b # heads)). x < (b # heads) ! Suc i) \<longleftrightarrow>
      (\<forall>x\<in>set ((if l < b then b else l) # take i heads). x < heads ! i)" for i
    by auto
  show "new_heads l (b # heads) = (if l < b then b # new_heads b heads else new_heads l heads)"
    unfolding new_heads_def idx filter.simps filter_map comp_def above by (simp add: comp_def)
qed (simp add: new_heads_def)

lemma new_heads_sorted: "sorted_wrt (<) (l # new_heads l heads)"
proof (induction heads arbitrary: l)
  case (Cons b heads)
  show ?case
    using Cons.IH [of b] Cons.IH [of l] by (auto intro: order.strict_trans)
qed simp

lemma latestBlockFetcher_eq:
  "\<forall>v. \<exists>b e. fst (ethBlockNumber client v) \<in> {Ret b, Fail e} \<Longrightarrow> head_answers client n w = (heads, w') \<Longrightarrow>
   latestBlockFetcher conf client n l w = (Ret (Max (set (l # heads)), map (\<lambda>b. b - conf) (new_heads l heads)), w')"
proof (induction n arbitrary: l w heads)
  case 0
  then show ?case by (simp add: io_ret_def)
next
  case (Suc n)
  obtain b e where "fst (ethBlockNumber client w) \<in> {Ret b, Fail e}"
    using Suc.prems(1) by blast
  then consider w1 where "ethBlockNumber client w = (Ret b, w1)" | w1 where "ethBlockNumber client w = (Fail e, w1)"
    by (cases "ethBlockNumber client w") auto
  then show ?case
  proof cases
    case (1 w1)
    then obtain rest where rest: "head_answers client n w1 = (rest, w')" "heads = b # rest"
      using Suc.prems(2) by (auto split: prod.splits)
    have "Max (set (l # heads)) = Max (set (max l b # rest))"
      using rest(2) by (cases "rest = []") (simp_all add: max.assoc)
    then show ?thesis
      using Suc.IH [OF Suc.prems(1) rest(1), of "max l b"] 1 rest(2)
      by (auto simp: fetcher_tick_def io_bind_def io_ret_def max_def not_le)
  next
    case (2 w1)
    then have "head_answers client n w1 = (heads, w')"
      using Suc.prems(2) by (auto split: prod.splits)
    then show ?thesis
      using Suc.IH [OF Suc.prems(1), of w1 heads l] 2 by (simp add: fetcher_tick_def io_bind_def io_ret_def)
  qed
qed

text \<open>
  Property C36. The fetcher misses no new head and announces none twice. Over any number of ticks it
  survives every RPC error and sends exactly those heads that the node has reported above the head known
  before and above every earlier report, in order, each less the confirmations (in 64-bit
  arithmetic); these are strictly increasing, and the greatest head is remembered.
\<close>

theorem latestBlockFetcher_heads:
  assumes "\<forall>v. \<exists>b e. fst (ethBlockNumber client v) \<in> {Ret b, Fail e}" and "head_answers client n w = (heads, w')"
  shows "latestBlockFetcher conf client n l w =
             (Ret (Max (set (l # heads)), map (\<lambda>b. b - conf) (new_heads l heads)), w')
           \<and> sorted_wrt (<) (l # new_heads l heads)"
  using latestBlockFetcher_eq [OF assms] new_heads_sorted by blast

text \<open>A sample node whose world is the list of its answers, errors included; then it is silent.\<close>

definition sample_heads :: "u64 option list eth_client" where
  "sample_heads = \<lparr>ethBlockNumber = (\<lambda>w. (case w of Some b # _ \<Rightarrow> Ret b | _ \<Rightarrow> Fail (LibError ''down''), tl w)),
     ethChainID = (\<lambda>w. (Ret 97, w)), ethBlockByNumber = (\<lambda>i w. (Fail (LibError ''none''), w)),
     ethHasReceipt = (\<lambda>h w. (False, w))\<rparr>"

theorem latestBlockFetcher_heads_witness:
  "latestBlockFetcher 15 sample_heads 4 0 [Some 20, None, Some 18, Some 25] = (Ret (25, [5, 10]), [])"
proof -
  have four: "(4 :: nat) = Suc (Suc (Suc (Suc 0)))"
    by simp
  have answers: "head_answers sample_heads 4 [Some 20, None, Some 18, Some 25] = ([20, 18, 25], [])"
    unfolding four by (simp add: sample_heads_def)
  have "\<exists>b e. fst (ethBlockNumber sample_heads v) \<in> {Ret b, Fail e}" for v
    by (cases v) (auto simp: sample_heads_def split: option.splits)
  then show ?thesis
    using latestBlockFetcher_heads [OF _ answers, of 15 0] by simp
qed

text \<open>
  A chain shorter than the number of confirmations is not held back: the test for a
  negative number never succeeds on an unsigned one, and the wrapped difference, which lies beyond
  every block of the chain, is announced as confirmed.
\<close>

theorem fetcher_tick_underflows:
  assumes "ethBlockNumber client w = (Ret head, w')" and "latest < head" and "head < confirmations"
  shows "\<exists>sent. fetcher_tick confirmations client latest w = (Ret (head, Some sent), w')
           \<and> unat sent = 2 ^ 64 + unat head - unat confirmations \<and> head < sent"
proof -
  have "unat (head - confirmations) = 2 ^ 64 + unat head - unat confirmations"
    using assms(3) unsigned_less [of confirmations, where 'a = nat]
    by (simp add: unat_sub_if' word_less_nat_alt)
  moreover from this have "head < head - confirmations"
    using unsigned_less [of confirmations, where 'a = nat] by (simp add: word_less_nat_alt)
  ultimately show ?thesis
    using assms(1,2) by (simp add: fetcher_tick_def)
qed

theorem fetcher_tick_underflows_witness:
  "\<exists>sent. fetcher_tick 15 sample_heads 0 [Some 3] = (Ret (3, Some sent), [])
     \<and> unat sent = 2 ^ 64 + unat (3 :: u64) - unat (15 :: u64) \<and> 3 < sent"
  by (rule fetcher_tick_underflows) (simp_all add: sample_heads_def)

end
