(* ===== verification/Transition.thy ===== *)
theory Transition
  imports Service
begin

text \<open>
  The two ways of moving an epoch from a source chain to a target chain
  (\<open>createCheckpointTransition\<close> and \<open>createEpochTransition\<close> of \<open>relayer/service.go\<close>). Both run on the state
  of the relay service together with the outside world. While a transition blocks, in \<open>Emit\<close> and in
  the \<open>select\<close> of the quorum loop, other goroutines run: the scheduler (part of the parameters) says
  which service actions they perform. The loop has no bound of its own, so the checkpoint
  transition is a call that may not return.
\<close>

section \<open>State and parameters\<close>

record ('c, 'w) sys =
  svc :: "'c RelayService"
  env :: 'w

datatype wake = Tick | CtxDone

record ('t, 'c, 'a, 'w) relay_libs =
  lbCodec :: codec_lib
  lbCrypto :: crypto_lib
  lbRlp :: rlp_lib
  lbTrie :: "'t trie_lib"
  lbLru :: "'c lru_lib"
  lbAbi :: "'a abi_lib"
  lbSign :: sign_tx
  lbRuntime :: "'w runtime"
  lbOrder :: "(address, bytes) gomap \<Rightarrow> (address, bytes) gomap"
  lbEmit :: "string \<Rightarrow> payload \<Rightarrow> 'w \<Rightarrow> svc_action list \<times> 'w"
  lbSelect :: "'w \<Rightarrow> svc_action list \<times> wake \<times> 'w"

definition on_env :: "('w, 'a) io \<Rightarrow> (('c, 'w) sys, 'a) io" where
  "on_env m st = (case m (env st) of (r, w) \<Rightarrow> (r, st\<lparr>env := w\<rparr>))"

definition on_svc :: "('c RelayService, 'a) io \<Rightarrow> (('c, 'w) sys, 'a) io" where
  "on_svc m st = (case m (svc st) of (r, s) \<Rightarrow> (r, st\<lparr>svc := s\<rparr>))"

lemma on_env_Ret_iff [io_inv]:
  "on_env m st = (Ret x, st') \<longleftrightarrow> (\<exists>w. m (env st) = (Ret x, w) \<and> st' = st\<lparr>env := w\<rparr>)"
  by (auto simp: on_env_def split: prod.splits)

lemma on_svc_Ret_iff [io_inv]:
  "on_svc m st = (Ret x, st') \<longleftrightarrow> (\<exists>s. m (svc st) = (Ret x, s) \<and> st' = st\<lparr>svc := s\<rparr>)"
  by (auto simp: on_svc_def split: prod.splits)

abbreviation others :: "('t, 'c, 'a, 'w) relay_libs \<Rightarrow> svc_action list \<Rightarrow> 'c RelayService \<Rightarrow> 'c RelayService" where
  "others L \<equiv> fold (perform (lbLru L) (lbOrder L) (lbCodec L) (lbCrypto L))"

text \<open>A method called on the hub of a node dereferences the binding.\<close>

definition hub_of :: "'w nodeConfig \<Rightarrow> 'w RelayHub outcome" where
  "hub_of nc = (case ncRelayHub nc of None \<Rightarrow> Panic NilDereference | Some hub \<Rightarrow> Ret hub)"

definition deref_proof :: "ref \<Rightarrow> (('c, 'w) sys, checkpointProof) io" where
  "deref_proof r st = (case proofHeap (svc st) r of
     None \<Rightarrow> (Panic NilDereference, st) | Some p \<Rightarrow> (Ret p, st))"

section \<open>The checkpoint transition\<close>

text \<open>\<open>for len(proof.signatures) < quorumRequired { select ... }\<close>\<close>

partial_function (option) wait_quorum ::
    "('t, 'c, 'a, 'w) relay_libs \<Rightarrow> ref \<Rightarrow> nat \<Rightarrow> (('c, 'w) sys, unit) lio" where
  "wait_quorum L r quorumRequired st =
     (case proofHeap (svc st) r of
        None \<Rightarrow> Some (Panic NilDereference, st)
      | Some proof \<Rightarrow>
          if length (sigs_of proof) < quorumRequired then
            (case lbSelect L (env st) of (acts, wake, w) \<Rightarrow>
               (case wake of
                  Tick \<Rightarrow> wait_quorum L r quorumRequired (st\<lparr>svc := others L acts (svc st), env := w\<rparr>)
                | CtxDone \<Rightarrow> Some (Fail ErrContextDone, st\<lparr>svc := others L acts (svc st), env := w\<rparr>)))
          else Some (Ret (), st))"

definition store_proof :: "checkpointProof \<Rightarrow> (('c, 'w) sys, ref) io" where
  "store_proof proof = on_svc (\<lambda>s. case new_proof proof s of (r, s') \<Rightarrow> (Ret r, s'))"

text \<open>\<open><-s.emitter.Emit(checkpointProofSigned, proof)\<close>\<close>

definition emit_signed :: "('t, 'c, 'a, 'w) relay_libs \<Rightarrow> ref \<Rightarrow> (('c, 'w) sys, unit) io" where
  "emit_signed L r st =
     (case lbEmit L checkpointProofSigned (ProofArg r) (env st) of
        (acts, w) \<Rightarrow> (Ret (), st\<lparr>svc := others L acts (svc st), env := w\<rparr>))"

text \<open>Building, signing, storing and announcing the proof, and the quorum it needs. The object is
  entered into the heap once it is signed: nobody sees it earlier.\<close>

definition checkpoint_prepare ::
    "('t, 'c, 'a, 'w) relay_libs \<Rightarrow> 'w nodeConfig \<Rightarrow> u64 \<Rightarrow> (('c, 'w) sys, ref \<times> nat) io" where
  "checkpoint_prepare L source epochBlock =
     io_bind (on_env (createCheckpointProof (lbCodec L) (lbRlp L) (lbTrie L) (ncClient source) epochBlock
                (EpochLength (ncChainConfig source)))) (\<lambda>proof.
     case signCheckpointProof (lbCodec L) (lbCrypto L) (PrivateKey (Relayer (ncConfig source))) proof of
       (res, proof) \<Rightarrow>
     io_bind (io_lift res) (\<lambda>_.
     io_bind (store_proof proof) (\<lambda>r.
     io_bind (on_svc (mergeCheckpointProof (lbLru L) (lbOrder L) r)) (\<lambda>r.
     io_bind (emit_signed L r) (\<lambda>_.
     io_bind (on_env (calcRequiredQuorumForNextEpoch (lbCodec L) source epochBlock)) (\<lambda>quorumRequired.
     io_ret (r, quorumRequired)))))))"

definition checkpoint_submit ::
    "('t, 'c, 'a, 'w) relay_libs \<Rightarrow> 'w nodeConfig \<Rightarrow> 'w nodeConfig \<Rightarrow> ref \<Rightarrow> (('c, 'w) sys, unit) io" where
  "checkpoint_submit L source target r =
     (let opts = injectSigner (lbCrypto L) (lbSign L) (ncChainId target) (PrivateKey (Relayer (ncConfig source))) None in
      io_bind (io_lift (hub_of target)) (\<lambda>hub.
      io_bind (deref_proof r) (\<lambda>proof.
      io_bind (on_env (Transactor_CheckpointTransition (hubTransactor hub) opts (ncChainId source)
        (rawEpochBlock proof) (checkpointHash proof) (mappingValues (lbOrder L) (sigs_of proof)))) (\<lambda>tx.
      on_env (waitTxToBeMined (ncClient target) (lbRuntime L) (tx_hash tx))))))"

definition createCheckpointTransition ::
    "('t, 'c, 'a, 'w) relay_libs \<Rightarrow> 'w nodeConfig \<Rightarrow> 'w nodeConfig \<Rightarrow> u64 \<Rightarrow> u64 \<Rightarrow> (('c, 'w) sys, unit) lio" where
  "createCheckpointTransition L source target epochBlock latestKnownBlock =
     lio_bind (lio_of (checkpoint_prepare L source epochBlock)) (\<lambda>(r, quorumRequired).
     lio_bind (wait_quorum L r quorumRequired) (\<lambda>_.
     lio_of (checkpoint_submit L source target r)))"

section \<open>The epoch transition\<close>

definition txGasReserve :: u64 where "txGasReserve = 100000"
definition txMaxInput :: nat where "txMaxInput = 100 * 1024"

text \<open>The proofs of one epoch as the input of one call of the hub.\<close>

definition batch_input ::
    "('t, 'c, 'a, 'w) relay_libs \<Rightarrow> 'w nodeConfig \<Rightarrow> u64 \<Rightarrow> ('w, bytes) io" where
  "batch_input L source batchEpochBlock =
     io_bind (createBlockProofs (lbCodec L) (lbCrypto L) (lbRlp L) (ncClient source) batchEpochBlock
                (EpochLength (ncChainConfig source))) (\<lambda>blockProofs.
     io_lift (encodeFunctionCall (lbAbi L) ''updateValidatorSet(uint256,bytes[])''
                [VBig (ncChainId source), VBytesList blockProofs]))"

text \<open>The loop over the batch; \<open>batchSize\<close> and \<open>bs\<close> are Go \<open>int\<close>s, and \<open>bs\<close> stays below \<open>batchSize\<close>. The
  result holds the inputs and the batch size that is logged.\<close>

function batch_loop ::
    "('t, 'c, 'a, 'w) relay_libs \<Rightarrow> 'w nodeConfig \<Rightarrow> u64 \<Rightarrow> u64 \<Rightarrow> int \<Rightarrow> int \<Rightarrow> nat \<Rightarrow> bytes list \<Rightarrow>
     ('w, int \<times> bytes list) io" where
  "batch_loop L source epochBlock latestKnownBlock batchSize bs inputSize inputs =
     (if bs < batchSize then
        let batchEpochBlock = epochBlock + word_of_int bs * EpochLength (ncChainConfig source) in
        if batchEpochBlock > latestKnownBlock then io_ret (batchSize, inputs)
        else
          io_bind (batch_input L source batchEpochBlock) (\<lambda>input.
          if length input + inputSize > txMaxInput then io_ret (bs, inputs)
          else batch_loop L source epochBlock latestKnownBlock batchSize (bs + 1)
                 (inputSize + length input) (inputs @ [input]))
      else io_ret (batchSize, inputs))"
  by pat_completeness auto
termination
  by (relation "measure (\<lambda>(_, _, _, _, batchSize, bs, _, _). nat (batchSize - bs))") auto

declare batch_loop.simps [simp del]

text \<open>The transaction of the batch mode: a dry run to learn the gas of one update, the number of
  updates that fit, and one multicall.\<close>

definition batch_transaction ::
    "('t, 'c, 'a, 'w) relay_libs \<Rightarrow> 'w nodeConfig \<Rightarrow> 'w nodeConfig \<Rightarrow> transact_opts \<Rightarrow> u64 \<Rightarrow> u64 \<Rightarrow>
     ('w, transaction) io" where
  "batch_transaction L source target opts epochBlock latestKnownBlock =
     io_bind (createBlockProofs (lbCodec L) (lbCrypto L) (lbRlp L) (ncClient source) epochBlock
                (EpochLength (ncChainConfig source))) (\<lambda>blockProofs.
     let opts = opts\<lparr>optNoSend := True\<rparr> in
     io_bind (io_lift (hub_of target)) (\<lambda>hub.
     io_bind (io_wrap ''failed to update validator set''
       (Transactor_UpdateValidatorSet (hubTransactor hub) opts (ncChainId source) blockProofs)) (\<lambda>tx.
     let opts = opts\<lparr>optNoSend := False\<rparr>; estimateGasUsage = tx_gas tx in
     io_bind (io_lift (go_div (GasLimit (ncChainConfig target) - txGasReserve) estimateGasUsage)) (\<lambda>batchSize.
     io_bind (batch_loop L source epochBlock latestKnownBlock (sint batchSize) 0 0 []) (\<lambda>(batchSize, inputs).
     io_wrap ''failed to do multicall'' (Transactor_Multicall (hubTransactor hub) opts inputs))))))"

definition single_transaction ::
    "('t, 'c, 'a, 'w) relay_libs \<Rightarrow> 'w nodeConfig \<Rightarrow> 'w nodeConfig \<Rightarrow> transact_opts \<Rightarrow> u64 \<Rightarrow>
     ('w, transaction) io" where
  "single_transaction L source target opts epochBlock =
     (let opts = opts\<lparr>optGasLimit := 1000000\<rparr> in
      io_bind (createBlockProofs (lbCodec L) (lbCrypto L) (lbRlp L) (ncClient source) epochBlock
                 (EpochLength (ncChainConfig source))) (\<lambda>blockProofs.
      io_bind (io_lift (hub_of target)) (\<lambda>hub.
      io_wrap ''failed to update validator set''
        (Transactor_UpdateValidatorSet (hubTransactor hub) opts (ncChainId source) blockProofs))))"

definition createEpochTransition ::
    "('t, 'c, 'a, 'w) relay_libs \<Rightarrow> 'w nodeConfig \<Rightarrow> 'w nodeConfig \<Rightarrow> u64 \<Rightarrow> u64 \<Rightarrow> ('w, unit) io" where
  "createEpochTransition L source target epochBlock latestKnownBlock =
     (let opts = injectSigner (lbCrypto L) (lbSign L) (ncChainId target) (PrivateKey (Relayer (ncConfig source))) None in
      io_bind (if GasLimit (ncChainConfig target) > 0
               then batch_transaction L source target opts epochBlock latestKnownBlock
               else single_transaction L source target opts epochBlock) (\<lambda>tx.
      waitTxToBeMined (ncClient target) (lbRuntime L) (tx_hash tx)))"

section \<open>Waiting for the quorum\<close>

text \<open>The world after \<open>k\<close> rounds of the loop.\<close>

definition select_world :: "('t, 'c, 'a, 'w) relay_libs \<Rightarrow> 'w \<Rightarrow> nat \<Rightarrow> 'w" where
  "select_world L w k = ((\<lambda>v. snd (snd (lbSelect L v))) ^^ k) w"

definition select_wake :: "('t, 'c, 'a, 'w) relay_libs \<Rightarrow> 'w \<Rightarrow> nat \<Rightarrow> wake" where
  "select_wake L w k = fst (snd (lbSelect L (select_world L w k)))"

lemma select_Suc:
  "select_world L w (Suc k) = select_world L (snd (snd (lbSelect L w))) k"
  "select_wake L w (Suc k) = select_wake L (snd (snd (lbSelect L w))) k"
  by (simp_all add: select_wake_def select_world_def funpow_Suc_right del: funpow.simps)

lemma select_0: "select_world L w 0 = w" "select_wake L w 0 = fst (snd (lbSelect L w))"
  by (simp_all add: select_wake_def select_world_def)

text \<open>A proof in the heap keeps its signatures, so a loop that waits for more ends with the context.\<close>

lemma wait_quorum_deadline:
  assumes "service_inv (lbLru L) content (svc st)"
    and "proofHeap (svc st) r = Some p" and "length (sigs_of p) < q"
    and "\<forall>j<k. select_wake L (env st) j = Tick" and "select_wake L (env st) k = CtxDone"
  shows "\<exists>st'. wait_quorum L r q st = Some (Fail ErrContextDone, st')
           \<and> env st' = select_world L (env st) (Suc k)"
  using assms
proof (induction k arbitrary: st)
  case 0
  then show ?case
    by (cases "lbSelect L (env st)") (simp add: wait_quorum.simps [of L r q st] select_0 select_Suc)
next
  case (Suc k)
  obtain acts w where sel: "lbSelect L (env st) = (acts, Tick, w)"
    using Suc.prems(4) by (cases "lbSelect L (env st)") (auto simp: select_0 dest: spec [of _ 0])
  let ?st = "st\<lparr>svc := others L acts (svc st), env := w\<rparr>"
  have "r < nextRef (svc st)"
    using Suc.prems(1,2) by (auto simp: service_inv_def)
  then have "service_inv (lbLru L) content (svc ?st)" "proofHeap (svc ?st) r = Some p"
    using performs_keep [OF Suc.prems(1)] Suc.prems(2) by simp_all
  moreover have "\<forall>j<k. select_wake L (env ?st) j = Tick" "select_wake L (env ?st) k = CtxDone"
    using Suc.prems(4,5) sel by (auto simp: select_Suc dest: spec [of _ "Suc _"])
  ultimately obtain st' where "wait_quorum L r q ?st = Some (Fail ErrContextDone, st')"
    "env st' = select_world L (env ?st) (Suc k)"
    using Suc.IH Suc.prems(3) by blast
  then show ?case
    using Suc.prems(2,3) sel
    by (simp add: wait_quorum.simps [of L r q st] select_Suc(1) [of L "env st" "Suc k"])
qed

lemma wait_quorum_stuck:
  assumes "wait_quorum L r q st = Some (res, st')"
    and "service_inv (lbLru L) content (svc st)"
    and "proofHeap (svc st) r = Some p" and "length (sigs_of p) < q"
  shows "res \<noteq> Ret ()"
proof -
  have "service_inv (lbLru L) content (svc st) \<longrightarrow> proofHeap (svc st) r = Some p \<longrightarrow>
      length (sigs_of p) < q \<longrightarrow> fst (res, st') \<noteq> Ret ()"
  proof (rule wait_quorum.raw_induct [where P = "\<lambda>L r q st y. service_inv (lbLru L) content (svc st) \<longrightarrow>
      proofHeap (svc st) r = Some p \<longrightarrow> length (sigs_of p) < q \<longrightarrow> fst y \<noteq> Ret ()", OF _ assms(1)], goal_cases)
    case (1 wait L r q st y)
    show ?case
    proof (intro impI)
      assume inv: "service_inv (lbLru L) content (svc st)" and p: "proofHeap (svc st) r = Some p"
        and less: "length (sigs_of p) < q"
      obtain acts wk w where sel: "lbSelect L (env st) = (acts, wk, w)" by (cases "lbSelect L (env st)")
      have "r < nextRef (svc st)" using inv p by (auto simp: service_inv_def)
      then have "service_inv (lbLru L) content (others L acts (svc st))"
        "proofHeap (others L acts (svc st)) r = Some p"
        using performs_keep [OF inv] p by simp_all
      then show "fst y \<noteq> Ret ()"
        using 1(2) 1(1) [of L r q "st\<lparr>svc := others L acts (svc st), env := w\<rparr>" y] p less sel
        by (cases wk) auto
    qed
  qed
  then show ?thesis using assms by simp
qed

section \<open>What the preparation leaves behind\<close>

lemma checkpoint_prepare_Ret:
  assumes "checkpoint_prepare L source e st = (Ret (r, q), st1)"
    and "service_inv (lbLru L) content (svc st)"
  shows "\<exists>p w s. createCheckpointProof (lbCodec L) (lbRlp L) (lbTrie L) (ncClient source) e
              (EpochLength (ncChainConfig source)) (env st) = (Ret p, w)
           \<and> ecSign (lbCrypto L) (hashBytes (lbCodec L) (checkpointHash p))
               (PrivateKey (Relayer (ncConfig source))) = Ret s
           \<and> proofHeap (svc st1) r = Some (p\<lparr>signatures :=
               Some [(keyToAddress (lbCrypto L) (PrivateKey (Relayer (ncConfig source))), s)]\<rparr>)
           \<and> service_inv (lbLru L) content (svc st1)"
proof -
  let ?key = "PrivateKey (Relayer (ncConfig source))"
  obtain p w where build: "createCheckpointProof (lbCodec L) (lbRlp L) (lbTrie L) (ncClient source) e
              (EpochLength (ncChainConfig source)) (env st) = (Ret p, w)"
    and rest: "(case signCheckpointProof (lbCodec L) (lbCrypto L) ?key p of (res, proof) \<Rightarrow>
       io_bind (io_lift res) (\<lambda>_. io_bind (store_proof proof) (\<lambda>r.
       io_bind (on_svc (mergeCheckpointProof (lbLru L) (lbOrder L) r)) (\<lambda>r.
       io_bind (emit_signed L r) (\<lambda>_. io_bind (on_env (calcRequiredQuorumForNextEpoch (lbCodec L) source e)) (\<lambda>n.
       io_ret (r, n))))))) (st\<lparr>env := w\<rparr>) = (Ret (r, q), st1)"
    using assms(1) unfolding checkpoint_prepare_def io_bind_Ret_iff on_env_Ret_iff by blast
  obtain res p' where sign: "signCheckpointProof (lbCodec L) (lbCrypto L) ?key p = (res, p')"
    by (cases "signCheckpointProof (lbCodec L) (lbCrypto L) ?key p")
  obtain r0 st2 s1 st3 w2 where res: "res = Ret ()"
    and new: "store_proof p' (st\<lparr>env := w\<rparr>) = (Ret r0, st2)"
    and merge: "mergeCheckpointProof (lbLru L) (lbOrder L) r0 (svc st2) = (Ret r, s1)"
    and emitted: "emit_signed L r (st2\<lparr>svc := s1\<rparr>) = (Ret (), st3)" and st1: "st1 = st3\<lparr>env := w2\<rparr>"
    using rest unfolding sign by (auto simp: io_inv)
  note sign = sign [unfolded res]
  obtain acts where acts: "svc st1 = others L acts s1"
    using emitted st1 by (auto simp: emit_signed_def split: prod.splits)
  define s0 where "s0 = svc st2"
  have new: "new_proof p' (svc st) = (r0, s0)"
    using new by (auto simp: store_proof_def s0_def on_svc_Ret_iff split: prod.splits)
  obtain s where s: "ecSign (lbCrypto L) (hashBytes (lbCodec L) (checkpointHash p)) ?key = Ret s"
    "p' = p\<lparr>signatures := Some [(keyToAddress (lbCrypto L) ?key, s)]\<rparr>"
    using signCheckpointProof_first [OF createCheckpointProof_unsigned [OF build] sign] by blast
  have s0: "service_inv (lbLru L) content s0" "r0 < nextRef s0" "proofHeap s0 r0 = Some p'"
    using inv_new [OF assms(2), of p'] new by (auto simp: new_proof_def)
  note m = inv_merge [OF s0(1,2), of "lbOrder L"]
  have "r = r0" "service_inv (lbLru L) content s1" "proofHeap s1 r = Some p'" "r < nextRef s1"
    using m merge s0 by (simp_all add: s0_def)
  then show ?thesis
    using build s acts performs_keep [of "lbLru L" content s1] by auto
qed

section \<open>Properties of the checkpoint transition\<close>

text \<open>
  Property C14. The transition by checkpoint cannot collect signatures: in a running service, if the
  prepared proof needs two signatures or more, the loop ends only with the context, and the result
  is the context's error, reached right after the \<open>select\<close> that reports it; nothing is submitted. It
  does end, given that the context is done at some round.
\<close>

theorem checkpoint_transition_times_out:
  assumes "lru_laws (lbLru L) content" and "NewRelayService (lbLru L) = Ret s0"
    and "(service_step (lbLru L) (lbOrder L) (lbCodec L) (lbCrypto L))\<^sup>*\<^sup>* s0 (svc st)"
    and "checkpoint_prepare L source epochBlock st = (Ret (r, q), st1)" and "2 \<le> q"
    and "\<forall>j<k. select_wake L (env st1) j = Tick" and "select_wake L (env st1) k = CtxDone"
  shows "\<exists>st'. createCheckpointTransition L source target epochBlock latest st = Some (Fail ErrContextDone, st')
           \<and> env st' = select_world L (env st1) (Suc k)"
proof -
  have inv: "service_inv (lbLru L) content (svc st)"
    using svc.reachable_inv [OF _ assms(3)] assms(1,2) by (simp add: service_start_def)
  obtain p s where "service_inv (lbLru L) content (svc st1)" and "proofHeap (svc st1) r = Some (p\<lparr>signatures :=
      Some [(keyToAddress (lbCrypto L) (PrivateKey (Relayer (ncConfig source))), s)]\<rparr>)"
    using checkpoint_prepare_Ret [OF assms(4) inv] by blast
  then obtain st' where "wait_quorum L r q st1 = Some (Fail ErrContextDone, st')"
    "env st' = select_world L (env st1) (Suc k)"
    using wait_quorum_deadline [of L content st1 r _ q k] assms(5-7) by fastforce
  then show ?thesis
    using assms(4) by (simp add: createCheckpointTransition_def lio_bind_def lio_of_def)
qed

text \<open>
  Property C13. What a successful transition by checkpoint has done: the quorum was at most one
  signature (the previous epoch has at most two validators); one transaction was sent to the hub of
  the target, right after the preparation, for the source's chain id, with raw block and checkpoint
  hash of the proof that was built, and with exactly one signature, the relayer's own over that hash;
  and its receipt was found.
\<close>

theorem checkpoint_transition_success:
  assumes "lru_laws (lbLru L) content" and "NewRelayService (lbLru L) = Ret s0"
    and "(service_step (lbLru L) (lbOrder L) (lbCodec L) (lbCrypto L))\<^sup>*\<^sup>* s0 (svc st)"
    and "range_order (lbOrder L)"
    and "createCheckpointTransition L source target epochBlock latest st = Some (Ret (), st')"
  shows "\<exists>p w s r q st1 hub tx w1. createCheckpointProof (lbCodec L) (lbRlp L) (lbTrie L) (ncClient source)
             epochBlock (EpochLength (ncChainConfig source)) (env st) = (Ret p, w)
      \<and> ecSign (lbCrypto L) (hashBytes (lbCodec L) (checkpointHash p)) (PrivateKey (Relayer (ncConfig source))) = Ret s
      \<and> checkpoint_prepare L source epochBlock st = (Ret (r, q), st1) \<and> q \<le> 1
      \<and> ncRelayHub target = Some hub
      \<and> Transactor_CheckpointTransition (hubTransactor hub)
          (injectSigner (lbCrypto L) (lbSign L) (ncChainId target) (PrivateKey (Relayer (ncConfig source))) None)
          (ncChainId source) (rawEpochBlock p) (checkpointHash p) [s] (env st1) = (Ret tx, w1)
      \<and> waitTxToBeMined (ncClient target) (lbRuntime L) (tx_hash tx) w1 = (Ret (), env st')"
proof -
  let ?a = "keyToAddress (lbCrypto L) (PrivateKey (Relayer (ncConfig source)))"
  have inv: "service_inv (lbLru L) content (svc st)"
    using svc.reachable_inv [OF _ assms(3)] assms(1,2) by (simp add: service_start_def)
  obtain r q st1 st2 where prep: "checkpoint_prepare L source epochBlock st = (Ret (r, q), st1)"
    and wait: "wait_quorum L r q st1 = Some (Ret (), st2)"
    and submit: "checkpoint_submit L source target r st2 = (Ret (), st')"
    using assms(5) by (auto simp: createCheckpointTransition_def lio_bind_Ret_iff lio_of_iff)
  obtain p w s where build: "createCheckpointProof (lbCodec L) (lbRlp L) (lbTrie L) (ncClient source)
      epochBlock (EpochLength (ncChainConfig source)) (env st) = (Ret p, w)"
    and sign: "ecSign (lbCrypto L) (hashBytes (lbCodec L) (checkpointHash p))
      (PrivateKey (Relayer (ncConfig source))) = Ret s"
    and heap: "proofHeap (svc st1) r = Some (p\<lparr>signatures := Some [(?a, s)]\<rparr>)"
    and inv1: "service_inv (lbLru L) content (svc st1)"
    using checkpoint_prepare_Ret [OF prep inv] by blast
  have q: "q \<le> 1"
    using wait_quorum_stuck [OF wait inv1 heap] by fastforce
  then have st2: "st2 = st1"
    using wait heap by (simp add: wait_quorum.simps [of L r q st1])
  have "lbOrder L [(?a, s)] = [(?a, s)]"
    by (rule range_order_single [OF assms(4)])
  then obtain hub tx w1 where "ncRelayHub target = Some hub"
    "Transactor_CheckpointTransition (hubTransactor hub)
          (injectSigner (lbCrypto L) (lbSign L) (ncChainId target) (PrivateKey (Relayer (ncConfig source))) None)
          (ncChainId source) (rawEpochBlock p) (checkpointHash p) [s] (env st1) = (Ret tx, w1)"
    "waitTxToBeMined (ncClient target) (lbRuntime L) (tx_hash tx) w1 = (Ret (), env st')"
    using submit heap unfolding checkpoint_submit_def st2
    by (auto simp: io_inv Let_def hub_of_def deref_proof_def split: option.splits)
  then show ?thesis using build sign prep q by blast
qed

section \<open>A sample relayer\<close>

text \<open>The world counts what happens in it. The context is done in round 2, a transaction is mined at
  once, and in each round a signature of another relayer arrives.\<close>

definition sample_tx :: transaction where
  "sample_tx = \<lparr>tx_hash = replicate 32 1, tx_gas = 1000000\<rparr>"

definition sample_contract :: "nat bound_contract" where
  "sample_contract = \<lparr>bcCall = (\<lambda>opts name args w. (Ret [VUint64 (of_nat w)], w)),
     bcTransact = (\<lambda>opts name args w. (Ret sample_tx, if optNoSend opts then w else Suc w)),
     bcTransfer = (\<lambda>opts w. (Ret sample_tx, Suc w)),
       bcFilterLogs = (\<lambda>opts name query w. (Ret ([], \<lparr>subErr = Some None\<rparr>), w)),
       bcWatchLogs = (\<lambda>opts name query w. (Ret ([], \<lparr>subErr = None\<rparr>), w)),
       bcUnpackChainRegistered = (\<lambda>out name l. (Ret (), out)),
       bcUnpackValidatorSetUpdated = (\<lambda>out name l. (Ret (), out))\<rparr>"

definition sample_hub :: "nat RelayHub" where
  "sample_hub = \<lparr>hubCaller = \<lparr>callerContract = sample_contract\<rparr>,
     hubTransactor = \<lparr>transactorContract = sample_contract\<rparr>,
     hubFilterer = \<lparr>filtererContract = sample_contract\<rparr>\<rparr>"

definition sample_received :: svc_action where
  "sample_received = Received (sample_proof 1 (sample_fit 32 [3, 2]) (Some [([2], [8])]))"

definition sample_libs :: "((bytes \<times> bytes) list, (lru_key \<times> ref) list, string, nat) relay_libs" where
  "sample_libs = \<lparr>lbCodec = sample_codec, lbCrypto = sample_crypto, lbRlp = sample_rlp, lbTrie = sample_trie,
     lbLru = sample_lru, lbAbi = sample_abi, lbSign = (\<lambda>chain key tx. Ret tx),
     lbRuntime = \<lparr>rtSleep = (\<lambda>n w. w), rtNow = (\<lambda>w. (of_nat w, Suc w))\<rparr>, lbOrder = rev,
     lbEmit = (\<lambda>name arg w. ([sample_received], w)),
     lbSelect = (\<lambda>w. ([sample_received], if w < 2 then Tick else CtxDone, Suc w))\<rparr>"

definition sample_source :: "int list \<Rightarrow> nat nodeConfig" where
  "sample_source vals = sample_node (sample_client vals id) 2"

definition sample_target :: "u64 \<Rightarrow> nat nodeConfig" where
  "sample_target gasLimit = (sample_node (sample_client [] id) 2)\<lparr>ncRelayHub := Some sample_hub,
     ncChainConfig := sample_chain 2 gasLimit\<rparr>"

definition sample_state :: "((lru_key \<times> ref) list, nat) sys" where
  "sample_state = \<lparr>svc = sample_service, env = 0\<rparr>"

lemma sample_source_simps [simp]:
  "ncClient (sample_source vals) = sample_client vals id"
  "EpochLength (ncChainConfig (sample_source vals)) = 2"
  "ncConfig (sample_source vals) = sample_config []" "ncChainId (sample_source vals) = 97"
  by (simp_all add: sample_source_def sample_node_def sample_chain_def)

lemma sample_target_simps [simp]:
  "ncClient (sample_target g) = sample_client [] id" "ncRelayHub (sample_target g) = Some sample_hub"
  "GasLimit (ncChainConfig (sample_target g)) = g" "ncChainId (sample_target g) = 97"
  by (simp_all add: sample_target_def sample_node_def sample_chain_def)

lemma sample_libs_simps [simp]:
  "lbCodec sample_libs = sample_codec" "lbCrypto sample_libs = sample_crypto" "lbRlp sample_libs = sample_rlp"
  "lbTrie sample_libs = sample_trie" "lbLru sample_libs = sample_lru" "lbAbi sample_libs = sample_abi"
  "lbOrder sample_libs = rev" "lbEmit sample_libs name arg w = ([sample_received], w)"
  "lbSelect sample_libs w = ([sample_received], if w < 2 then Tick else CtxDone, Suc w)"
  by (simp_all add: sample_libs_def)

lemma sample_transact [simp]:
  "bcTransact sample_contract opts name args w = (Ret sample_tx, if optNoSend opts then w else Suc w)"
  by (simp add: sample_contract_def)

lemma sample_wait [simp]: "waitTxToBeMined (sample_client vals sealer) rt h w = (Ret (), w)"
  by (simp add: waitTxToBeMined_def eval_nat_numeral)

lemma sample_checkpoint_run:
  "createCheckpointProof sample_codec sample_rlp sample_trie (sample_client vals id) 2 2 w =
    (Ret \<lparr>epochNumber = 1, rawEpochBlock = [2], blockHash = replicate 31 0 @ [2],
          checkpointHash = sample_fit 32 [3, 2], signatures = None\<rparr>, w)"
  by (simp add: createCheckpointProof_def checkpoint_loop.simps checkpoint_round_def io_bind_def io_map_def
      io_lift_def io_ret_def sample_block_def sample_trie_def sample_header_def sum_list_replicate)

lemma sample_prepare:
  "\<exists>st1. checkpoint_prepare sample_libs (sample_source vals) 2 sample_state =
           (Ret (0, quorumOf (map sample_address vals)), st1) \<and> env st1 = 0"
proof -
  let ?p = "\<lparr>epochNumber = 1, rawEpochBlock = [2], blockHash = replicate 31 0 @ [2],
          checkpointHash = sample_fit 32 [3, 2], signatures = None :: (address, bytes) gomap option\<rparr>"
  obtain p' where sign: "signCheckpointProof sample_codec sample_crypto 9 ?p = (Ret (), p')"
    by (simp add: signCheckpointProof_def Let_def sigs_of_def)
  have quorum: "calcRequiredQuorumForNextEpoch sample_codec (sample_source vals) 2 w =
      (Ret (quorumOf (map sample_address vals)), w)" for w
    by (rule calcRequiredQuorumForNextEpoch_run) (simp add: sample_validators)
  have key: "PrivateKey (Relayer (sample_config [])) = 9"
    by (simp add: sample_config_def)
  have zero: "nextRef sample_service = 0"
    by (simp add: sample_service_def)
  obtain s where merge: "mergeCheckpointProof sample_lru rev 0
      (sample_service\<lparr>proofHeap := (proofHeap sample_service)(0 \<mapsto> p'), nextRef := Suc 0\<rparr>) = (Ret 0, s)"
    by (simp add: mergeCheckpointProof_def sample_service_def sample_lru_def)
  show ?thesis
    unfolding checkpoint_prepare_def sample_state_def
    by (simp add: sample_checkpoint_run io_bind_def on_env_def on_svc_def io_lift_def io_ret_def key sign
        store_proof_def new_proof_def zero merge emit_signed_def quorum)
qed

theorem checkpoint_transition_times_out_witness:
  "\<exists>st'. createCheckpointTransition sample_libs (sample_source [1, 2, 3, 4, 5, 6]) (sample_target 0) 2 1 sample_state
      = Some (Fail ErrContextDone, st') \<and> env st' = 3"
proof -
  obtain st1 where prep: "checkpoint_prepare sample_libs (sample_source [1, 2, 3, 4, 5, 6]) 2 sample_state =
      (Ret (0, 4), st1)" and env: "env st1 = 0"
    using sample_prepare [of "[1, 2, 3, 4, 5, 6]"] by (auto simp: quorumOf_def)
  have worlds: "select_world sample_libs 0 j = j" for j
    by (induction j) (simp_all add: select_world_def)
  show ?thesis
    using checkpoint_transition_times_out [of sample_libs set sample_service sample_state
        "sample_source [1, 2, 3, 4, 5, 6]" 2 0 4 st1 2 "sample_target 0" 1] prep
    by (simp add: env select_wake_def worlds sample_service_start) (simp add: sample_state_def)
qed

lemma sample_service_inv: "service_inv sample_lru set sample_service"
  by (auto simp: service_inv_def sample_service_def)

theorem checkpoint_transition_success_witness:
  "\<exists>st' s. createCheckpointTransition sample_libs (sample_source [1, 2]) (sample_target 0) 2 1 sample_state
      = Some (Ret (), st')
    \<and> Transactor_CheckpointTransition (hubTransactor sample_hub)
          (injectSigner sample_crypto (lbSign sample_libs) 97 9 None) 97 [2] (sample_fit 32 [3, 2]) [s] 0
        = (Ret sample_tx, env st')"
proof -
  let ?source = "sample_source [1, 2]" and ?target = "sample_target 0"
  obtain st1 where prep: "checkpoint_prepare sample_libs ?source 2 sample_state = (Ret (0, 1), st1)"
    and env: "env st1 = 0"
    using sample_prepare [of "[1, 2]"] by (auto simp: quorumOf_def)
  obtain p a s where heap: "proofHeap (svc st1) 0 = Some (p\<lparr>signatures := Some [(a, s)]\<rparr>)"
    using checkpoint_prepare_Ret [OF prep, of set] sample_service_inv by (auto simp: sample_state_def)
  have wait: "wait_quorum sample_libs 0 1 st1 = Some (Ret (), st1)"
    by (simp add: wait_quorum.simps heap)
  have submit: "checkpoint_submit sample_libs ?source ?target 0 st1 = (Ret (), st1\<lparr>env := 1\<rparr>)"
    by (simp add: checkpoint_submit_def Let_def hub_of_def deref_proof_def heap io_bind_def on_env_def
        io_lift_def Transactor_CheckpointTransition_def sample_hub_def injectSigner_def new_transact_opts_def env)
  have run: "createCheckpointTransition sample_libs ?source ?target 2 1 sample_state = Some (Ret (), st1\<lparr>env := 1\<rparr>)"
    using prep wait submit by (simp add: createCheckpointTransition_def lio_bind_def lio_of_def)
  have start: "(service_step (lbLru sample_libs) (lbOrder sample_libs) (lbCodec sample_libs)
      (lbCrypto sample_libs))\<^sup>*\<^sup>* sample_service (svc sample_state)"
    by (simp add: sample_state_def)
  have key: "PrivateKey (Relayer (sample_config [])) = 9"
    by (simp add: sample_config_def)
  obtain s where "Transactor_CheckpointTransition (hubTransactor sample_hub)
          (injectSigner sample_crypto (lbSign sample_libs) 97 9 None) 97 [2] (sample_fit 32 [3, 2]) [s] 0
        = (Ret sample_tx, 1)"
    using checkpoint_transition_success [OF _ _ start _ run, of set] prep
    by (auto simp: sample_service_start range_order_def sample_checkpoint_run sample_state_def key env
        Transactor_CheckpointTransition_def sample_hub_def injectSigner_def new_transact_opts_def)
  with run show ?thesis by auto
qed

section \<open>What a batch holds\<close>

text \<open>The inputs for \<open>n\<close> epochs in a row, without the checks of the loop.\<close>

fun batch_run ::
    "('t, 'c, 'a, 'w) relay_libs \<Rightarrow> 'w nodeConfig \<Rightarrow> nat \<Rightarrow> u64 \<Rightarrow> ('w, bytes list) io" where
  "batch_run L source 0 epochBlock = io_ret []"
| "batch_run L source (Suc n) epochBlock =
     io_bind (batch_input L source epochBlock) (\<lambda>input.
     io_bind (batch_run L source n (epochBlock + EpochLength (ncChainConfig source))) (\<lambda>inputs.
     io_ret (input # inputs)))"

text \<open>Why the loop stops after \<open>n\<close> inputs of \<open>used\<close> bytes: the batch is full, the next epoch block is not
  confirmed, or the next input does not fit. The last case has run the work for that input.\<close>

definition batch_stop ::
    "('t, 'c, 'a, 'w) relay_libs \<Rightarrow> 'w nodeConfig \<Rightarrow> u64 \<Rightarrow> u64 \<Rightarrow> int \<Rightarrow> nat \<Rightarrow> nat \<Rightarrow> 'w \<Rightarrow> 'w \<Rightarrow> bool" where
  "batch_stop L source e latest batchSize n used w w' \<longleftrightarrow>
     (let nxt = e + of_nat n * EpochLength (ncChainConfig source) in
      batchSize \<le> int n \<and> w' = w \<or> latest < nxt \<and> w' = w \<or>
      (\<exists>input. batch_input L source nxt w = (Ret input, w') \<and> txMaxInput < used + length input))"

lemma batch_loop_sound:
  assumes "batch_loop L source e latest N bs used inputs w = (Ret (N', inputs'), w')"
    and "bs = int (length inputs)" and "used = sum_list (map length inputs)" and "used \<le> txMaxInput"
  shows "\<exists>new w1. inputs' = inputs @ new
           \<and> batch_run L source (length new) (e + of_nat (length inputs) * EpochLength (ncChainConfig source)) w
               = (Ret new, w1)
           \<and> sum_list (map length inputs') \<le> txMaxInput
           \<and> (new = [] \<or> int (length inputs') \<le> N)
           \<and> (\<forall>j. length inputs \<le> j \<and> j < length inputs' \<longrightarrow>
                 e + of_nat j * EpochLength (ncChainConfig source) \<le> latest)
           \<and> batch_stop L source e latest N (length inputs') (sum_list (map length inputs')) w1 w'"
  using assms
proof (induction L source e latest N bs used inputs arbitrary: w rule: batch_loop.induct)
  case (1 L source e latest N bs used inputs)
  let ?len = "EpochLength (ncChainConfig source)"
  let ?nxt = "e + of_nat (length inputs) * ?len"
  have nxt: "e + word_of_int bs * ?len = ?nxt"
    by (simp add: "1.prems"(2))
  note unfold = batch_loop.simps [of L source e latest N bs used inputs]
  show ?case
  proof (cases "bs < N \<and> \<not> latest < ?nxt")
    case False
    then have "inputs' = inputs \<and> w' = w"
      using "1.prems"(1) unfolding unfold nxt by (auto simp: Let_def io_ret_iff split: if_splits)
    then show ?thesis
      using False "1.prems"(2-4)
      by (intro exI [of _ "[]"] exI [of _ w]) (auto simp: io_ret_iff batch_stop_def Let_def)
  next
    case True
    obtain input w1 where input: "batch_input L source ?nxt w = (Ret input, w1)"
      and rest: "(if length input + used > txMaxInput then io_ret (bs, inputs)
          else batch_loop L source e latest N (bs + 1) (used + length input) (inputs @ [input])) w1
          = (Ret (N', inputs'), w')"
      using "1.prems"(1) True unfolding unfold nxt by (auto simp: Let_def io_bind_Ret_iff split: if_splits)
    show ?thesis
    proof (cases "length input + used > txMaxInput")
      case big: True
      then have "inputs' = inputs \<and> w' = w1"
        using rest by (auto simp: io_ret_iff)
      then show ?thesis
        using input big "1.prems"(3,4)
        by (intro exI [of _ "[]"] exI [of _ w]) (auto simp: io_ret_iff batch_stop_def Let_def)
    next
      case fits: False
      have loop: "batch_loop L source e latest N (bs + 1) (used + length input) (inputs @ [input]) w1
          = (Ret (N', inputs'), w')"
        using rest fits by simp
      have step: "e + of_nat (length (inputs @ [input])) * ?len = ?nxt + ?len"
        by (simp add: algebra_simps)
      obtain new w2 where IH: "inputs' = (inputs @ [input]) @ new"
        "batch_run L source (length new) (?nxt + ?len) w1 = (Ret new, w2)"
        "sum_list (map length inputs') \<le> txMaxInput"
        "new = [] \<or> int (length inputs') \<le> N"
        "\<forall>j. length (inputs @ [input]) \<le> j \<and> j < length inputs' \<longrightarrow> e + of_nat j * ?len \<le> latest"
        "batch_stop L source e latest N (length inputs') (sum_list (map length inputs')) w2 w'"
        using "1.IH" [OF _ refl _ fits loop] True fits "1.prems"(2,3) unfolding nxt step by auto
      have "e + of_nat j * ?len \<le> latest" if "length inputs \<le> j \<and> j < length inputs'" for j
        using that IH(5) True by (cases "j = length inputs") auto
      moreover have "batch_run L source (length (input # new)) ?nxt w = (Ret (input # new), w2)"
        using input IH(2) by (auto simp: io_inv)
      moreover have "int (length inputs') \<le> N"
        using IH(1,4) True "1.prems"(2) by (cases new) auto
      ultimately show ?thesis
        using IH(1,3,6) by (intro exI [of _ "input # new"] exI [of _ w2]) auto
    qed
  qed
qed

lemma sint_budget: "uint (g :: u64) < 2 ^ 63 \<Longrightarrow> sint (g - txGasReserve) = uint g - 100000"
proof -
  assume "uint g < 2 ^ 63"
  moreover have "g - txGasReserve = word_of_int (uint g - 100000)"
    by (simp add: txGasReserve_def wi_hom_syms)
  ultimately show ?thesis
    by (simp only:) (rule sint_small, simp_all add: order.trans [OF _ uint_ge_0])
qed

lemma batch_size_nonpos:
  assumes "go_div (g - txGasReserve) est = Ret n" and "uint g < 100000" and "0 < uint est" and "uint est < 2 ^ 63"
  shows "sint n \<le> 0"
proof -
  have "sint (g - txGasReserve) < 0" "0 < sint est"
    using sint_budget [of g] sint_of_small_word [of est] assms by simp_all
  then show ?thesis
    using go_div_pos [OF assms(1)] by (simp add: trunc_div_def pos_imp_zdiv_nonneg_iff mult_nonpos_nonneg)
qed

lemma batch_size_bound:
  assumes "go_div (g - txGasReserve) est = Ret n" and "100000 \<le> uint g" and "uint g < 2 ^ 63"
    and "uint est < 2 ^ 63"
  shows "0 \<le> sint n \<and> sint n * uint est \<le> uint g - 100000"
proof -
  have "est \<noteq> 0"
    using assms(1) by (auto simp: go_div_def)
  then have est: "0 < uint est"
    using uint_ge_0 [of est] uint_0_iff [of est] by linarith
  have s: "sint (g - txGasReserve) = uint g - 100000" "sint est = uint est"
    using sint_budget [OF assms(3)] sint_of_small_word [OF assms(4)] by simp_all
  have "sint n = (uint g - 100000) div uint est"
    using go_div_pos [OF assms(1)] est s assms(2) trunc_div_nonneg [of "uint g - 100000" "uint est"] by simp
  moreover have "(uint g - 100000) div uint est * uint est \<le> uint g - 100000"
    using est by (simp add: minus_mod_eq_div_mult [symmetric])
  ultimately show ?thesis
    using est assms(2) by (simp add: pos_imp_zdiv_nonneg_iff)
qed

text \<open>The options that both transactions of an epoch transition start from.\<close>

abbreviation epoch_opts :: "('t, 'c, 'a, 'w) relay_libs \<Rightarrow> 'w nodeConfig \<Rightarrow> 'w nodeConfig \<Rightarrow> transact_opts" where
  "epoch_opts L source target \<equiv>
     injectSigner (lbCrypto L) (lbSign L) (ncChainId target) (PrivateKey (Relayer (ncConfig source))) None"

text \<open>The part of the batch mode before the loop: the proofs of the first epoch and the dry run.\<close>

definition dry_run ::
    "('t, 'c, 'a, 'w) relay_libs \<Rightarrow> 'w nodeConfig \<Rightarrow> 'w nodeConfig \<Rightarrow> 'w RelayHub \<Rightarrow> u64 \<Rightarrow> ('w, u64) io" where
  "dry_run L source target hub epochBlock =
     io_bind (createBlockProofs (lbCodec L) (lbCrypto L) (lbRlp L) (ncClient source) epochBlock
                (EpochLength (ncChainConfig source))) (\<lambda>blockProofs.
     io_bind (Transactor_UpdateValidatorSet (hubTransactor hub) ((epoch_opts L source target)\<lparr>optNoSend := True\<rparr>)
                (ncChainId source) blockProofs) (\<lambda>tx.
     io_ret (tx_gas tx)))"

lemma epoch_opts_NoSend: "(epoch_opts L source target)\<lparr>optNoSend := False\<rparr> = epoch_opts L source target"
  by (simp add: injectSigner_def new_transact_opts_def Let_def)

lemma batch_transaction_after_dry_run:
  assumes "ncRelayHub target = Some hub" and "dry_run L source target hub e w = (Ret est, w1)"
  shows "batch_transaction L source target (epoch_opts L source target) e latest w =
    io_bind (io_lift (go_div (GasLimit (ncChainConfig target) - txGasReserve) est)) (\<lambda>n.
    io_bind (batch_loop L source e latest (sint n) 0 0 []) (\<lambda>(n, inputs).
    io_wrap ''failed to do multicall''
      (Transactor_Multicall (hubTransactor hub) (epoch_opts L source target) inputs))) w1"
proof -
  obtain ps v tx where "createBlockProofs (lbCodec L) (lbCrypto L) (lbRlp L) (ncClient source) e
      (EpochLength (ncChainConfig source)) w = (Ret ps, v)"
    "Transactor_UpdateValidatorSet (hubTransactor hub) ((epoch_opts L source target)\<lparr>optNoSend := True\<rparr>)
      (ncChainId source) ps v = (Ret tx, w1)" "est = tx_gas tx"
    using assms(2) by (auto simp: dry_run_def io_inv)
  moreover have "((epoch_opts L source target)\<lparr>optNoSend := True, optNoSend := False\<rparr>) = epoch_opts L source target"
    using epoch_opts_NoSend by simp
  ultimately show ?thesis
    unfolding batch_transaction_def
    by (simp add: io_bind_eval(1) io_map_def hub_of_def assms(1) Let_def)
qed

lemma batch_transaction_Ret:
  assumes "batch_transaction L source target (epoch_opts L source target) e latest w = (Ret tx, w')"
  shows "\<exists>hub est w1 n N inputs w2. ncRelayHub target = Some hub \<and> dry_run L source target hub e w = (Ret est, w1)
    \<and> go_div (GasLimit (ncChainConfig target) - txGasReserve) est = Ret n
    \<and> batch_loop L source e latest (sint n) 0 0 [] w1 = (Ret (N, inputs), w2)
    \<and> Transactor_Multicall (hubTransactor hub) (epoch_opts L source target) inputs w2 = (Ret tx, w')"
proof -
  obtain hub est w1 where hub: "ncRelayHub target = Some hub"
    and dry: "dry_run L source target hub e w = (Ret est, w1)"
    using assms unfolding batch_transaction_def dry_run_def
    by (auto simp: io_inv Let_def hub_of_def split: option.splits)
  then show ?thesis
    using assms unfolding batch_transaction_after_dry_run [OF hub dry]
    by (auto simp: io_inv)
qed

section \<open>Properties of the epoch transition\<close>

lemma sample_encode: "encodeFunctionCall sample_abi ''updateValidatorSet(uint256,bytes[])'' [VBig 97, VBytesList ps]
    = Ret ([248, 116, 66, 30, 97] @ concat ps)"
  by (simp add: encodeFunctionCall_def go_slice_def mustNewArguments_def go_index_def Let_def eval_nat_numeral)

lemma sample_one:
  assumes "e < e + 2"
  shows "createBlockProofs sample_codec sample_crypto sample_rlp (sample_client [1, 2] id) e 2 w
    = (Ret [[word_of_int (sint e)]], w)"
proof -
  let ?client = "sample_client [1, 2] id :: 'a eth_client"
  let ?b = "sample_block (sint e) [1, 2] (sint e)"
  have chk: "check_block sample_crypto sample_rlp ?client 97 e w = (Ret (?b, [word_of_int (sint e)]), w)"
    using sample_sealed [of "sint e" "[1, 2]" "sint e"] by (simp add: check_block_Ret_iff sealed_def)
  have "proofs_loop sample_crypto sample_rlp ?client 97 (quorumOf (map sample_address [1, 2])) (e + 2) e [] [] w
      = (Ret (put_signers [] [?b], [[word_of_int (sint e)]]), w)"
    by (simp add: proofs_loop.simps [of sample_crypto sample_rlp ?client 97 _ "e + 2" e] assms
        io_bind_eval(1) chk Let_def quorumOf_def io_ret_def go_put_def)
  then show ?thesis
    using createBlockProofs_run [of ?client w 97 w sample_codec e 2 _ w] sample_validators [where w = w]
    by (simp add: quorumOf_def go_put_def)
qed

lemma sample_input:
  "e < e + 2 \<Longrightarrow> batch_input sample_libs (sample_source [1, 2]) e w =
     (Ret [248, 116, 66, 30, 97, word_of_int (sint e)], w)"
  by (simp add: batch_input_def io_bind_eval(1) sample_one sample_encode io_lift_def)

lemma sample_dry_run:
  "dry_run sample_libs (sample_source [1, 2]) (sample_target g) sample_hub 2 w = (Ret 1000000, w)"
  by (simp add: dry_run_def io_bind_eval(1) sample_one Transactor_UpdateValidatorSet_def sample_hub_def
      io_ret_def sample_tx_def)

lemma sample_batch_at:
  assumes "known = 4 \<or> known = 5"
  shows "createEpochTransition sample_libs (sample_source [1, 2]) (sample_target 10000000) 2 known w = (Ret (), Suc w)"
proof -
  have n: "go_div (10000000 - txGasReserve) 1000000 = Ret 9"
    by (simp add: go_div_def txGasReserve_def trunc_div_def)
  have loop: "batch_loop sample_libs (sample_source [1, 2]) 2 known 9 0 0 [] w =
      (Ret (9, [[248, 116, 66, 30, 97, 2], [248, 116, 66, 30, 97, 4]]), w)"
    using assms by (auto simp: batch_loop.simps io_bind_eval(1) sample_input txMaxInput_def io_ret_def)
  have "batch_transaction sample_libs (sample_source [1, 2]) (sample_target 10000000)
      (epoch_opts sample_libs (sample_source [1, 2]) (sample_target 10000000)) 2 known w = (Ret sample_tx, Suc w)"
    using batch_transaction_after_dry_run [of "sample_target 10000000", OF _ sample_dry_run, of known w]
    by (simp add: n io_bind_eval(1) loop io_map_def Transactor_Multicall_def sample_hub_def injectSigner_def
        new_transact_opts_def)
  then show ?thesis
    by (simp add: createEpochTransition_def io_bind_eval(1) word_gt_0)
qed

lemma sample_batch: "createEpochTransition sample_libs (sample_source [1, 2]) (sample_target 10000000) 2 5 w = (Ret (), Suc w)"
  by (simp add: sample_batch_at)

text \<open>
  Property C5. What a successful batched transition has done: after a dry run on the first epoch, one
  multicall, signed by the relayer, whose inputs are the updates of consecutive epochs, from the
  given one on, each with its own block proofs; every epoch block is confirmed, the inputs have at
  most 100 KiB in total, and the batch could not be longer: it has the number of updates the gas
  allows, or the next epoch is not confirmed, or its input would not fit. Then the receipt was found.
\<close>

theorem createEpochTransition_batch:
  assumes "GasLimit (ncChainConfig target) \<noteq> 0"
    and "createEpochTransition L source target epochBlock latest w = (Ret (), w')"
  shows "\<exists>hub est w1 n inputs w2 w3 tx w4. ncRelayHub target = Some hub
      \<and> dry_run L source target hub epochBlock w = (Ret est, w1)
      \<and> go_div (GasLimit (ncChainConfig target) - txGasReserve) est = Ret n
      \<and> batch_run L source (length inputs) epochBlock w1 = (Ret inputs, w2)
      \<and> (\<forall>j<length inputs. epochBlock + of_nat j * EpochLength (ncChainConfig source) \<le> latest)
      \<and> sum_list (map length inputs) \<le> 100 * 1024
      \<and> (inputs = [] \<or> int (length inputs) \<le> sint n)
      \<and> batch_stop L source epochBlock latest (sint n) (length inputs) (sum_list (map length inputs)) w2 w3
      \<and> Transactor_Multicall (hubTransactor hub) (epoch_opts L source target) inputs w3 = (Ret tx, w4)
      \<and> waitTxToBeMined (ncClient target) (lbRuntime L) (tx_hash tx) w4 = (Ret (), w')"
proof -
  have "0 < GasLimit (ncChainConfig target)"
    using assms(1) by (simp add: word_gt_0)
  then obtain tx w4 where tx: "batch_transaction L source target (epoch_opts L source target) epochBlock latest w
      = (Ret tx, w4)" and mined: "waitTxToBeMined (ncClient target) (lbRuntime L) (tx_hash tx) w4 = (Ret (), w')"
    using assms(2) by (auto simp: createEpochTransition_def Let_def io_bind_Ret_iff)
  obtain hub est w1 n N inputs w3 where parts: "ncRelayHub target = Some hub"
    "dry_run L source target hub epochBlock w = (Ret est, w1)"
    "go_div (GasLimit (ncChainConfig target) - txGasReserve) est = Ret n"
    and loop: "batch_loop L source epochBlock latest (sint n) 0 0 [] w1 = (Ret (N, inputs), w3)"
    and call: "Transactor_Multicall (hubTransactor hub) (epoch_opts L source target) inputs w3 = (Ret tx, w4)"
    using batch_transaction_Ret [OF tx] by blast
  obtain w2 where "batch_run L source (length inputs) epochBlock w1 = (Ret inputs, w2)"
    "sum_list (map length inputs) \<le> txMaxInput" "inputs = [] \<or> int (length inputs) \<le> sint n"
    "\<forall>j<length inputs. epochBlock + of_nat j * EpochLength (ncChainConfig source) \<le> latest"
    "batch_stop L source epochBlock latest (sint n) (length inputs) (sum_list (map length inputs)) w2 w3"
    using batch_loop_sound [OF loop] by auto
  then show ?thesis
    using parts call mined unfolding txMaxInput_def by blast
qed

theorem createEpochTransition_batch_witness:
  "\<exists>inputs n w2. batch_run sample_libs (sample_source [1, 2]) (length inputs) 2 0 = (Ret inputs, w2)
      \<and> go_div (10000000 - txGasReserve) 1000000 = Ret n \<and> (inputs = [] \<or> int (length inputs) \<le> sint n)
      \<and> (\<forall>j<length inputs. 2 + of_nat j * 2 \<le> (5 :: u64)) \<and> sum_list (map length inputs) \<le> 100 * 1024"
proof -
  have limit: "GasLimit (ncChainConfig (sample_target 10000000)) \<noteq> 0" by simp
  show ?thesis
    using createEpochTransition_batch [OF limit sample_batch [of 0]] by (simp add: sample_dry_run) blast
qed

text \<open>
  Property C34. The gas of a batch: if the gas limit of the target chain is at least the reserve, the
  number of updates in the multicall, times the gas the dry run estimated for one, stays within the
  limit less the reserve. Limit and estimate are less than 2 to the power of 63, as the code converts them.
\<close>

theorem createEpochTransition_gas:
  assumes "100000 \<le> uint (GasLimit (ncChainConfig target))" and "uint (GasLimit (ncChainConfig target)) < 2 ^ 63"
    and "ncRelayHub target = Some hub" and "dry_run L source target hub epochBlock w = (Ret est, w1)"
    and "uint est < 2 ^ 63"
    and "createEpochTransition L source target epochBlock latest w = (Ret (), w')"
  shows "\<exists>inputs w3 tx w4. Transactor_Multicall (hubTransactor hub) (epoch_opts L source target) inputs w3 = (Ret tx, w4)
      \<and> waitTxToBeMined (ncClient target) (lbRuntime L) (tx_hash tx) w4 = (Ret (), w')
      \<and> int (length inputs) * uint est \<le> uint (GasLimit (ncChainConfig target)) - 100000"
proof -
  have "0 < GasLimit (ncChainConfig target)"
    using assms(1) by (auto simp: word_gt_0)
  then obtain tx w4 where tx: "batch_transaction L source target (epoch_opts L source target) epochBlock latest w
      = (Ret tx, w4)" and mined: "waitTxToBeMined (ncClient target) (lbRuntime L) (tx_hash tx) w4 = (Ret (), w')"
    using assms(6) by (auto simp: createEpochTransition_def Let_def io_bind_Ret_iff)
  obtain n N inputs w3 where n: "go_div (GasLimit (ncChainConfig target) - txGasReserve) est = Ret n"
    and loop: "batch_loop L source epochBlock latest (sint n) 0 0 [] w1 = (Ret (N, inputs), w3)"
    and call: "Transactor_Multicall (hubTransactor hub) (epoch_opts L source target) inputs w3 = (Ret tx, w4)"
    using batch_transaction_Ret [OF tx] assms(3,4) by auto
  have "inputs = [] \<or> int (length inputs) \<le> sint n"
    using batch_loop_sound [OF loop] by auto
  then have "int (length inputs) \<le> sint n"
    using batch_size_bound [OF n assms(1,2,5)] by auto
  then have "int (length inputs) * uint est \<le> sint n * uint est"
    by (rule mult_right_mono) simp
  then show ?thesis
    using call mined batch_size_bound [OF n assms(1,2,5)] by (intro exI conjI) auto
qed

theorem createEpochTransition_gas_witness:
  "\<exists>inputs w3 tx w4. Transactor_Multicall (hubTransactor sample_hub)
        (epoch_opts sample_libs (sample_source [1, 2]) (sample_target 10000000)) inputs w3 = (Ret tx, w4)
      \<and> waitTxToBeMined (ncClient (sample_target 10000000)) (lbRuntime sample_libs) (tx_hash tx) w4 = (Ret (), 1)
      \<and> int (length inputs) * 1000000 \<le> 9900000"
  using createEpochTransition_gas [OF _ _ _ sample_dry_run _ sample_batch [of 0]] by simp

text \<open>
  A gas limit below the reserve makes the budget wrap around to a negative number: the
  batch is empty, and after the dry run the relayer sends a multicall without any call, which does
  not advance the epoch, and waits for it.
\<close>

theorem createEpochTransition_below_reserve:
  assumes "0 < uint (GasLimit (ncChainConfig target))" and "uint (GasLimit (ncChainConfig target)) < 100000"
    and "ncRelayHub target = Some hub" and "dry_run L source target hub epochBlock w = (Ret est, w1)"
    and "0 < uint est" and "uint est < 2 ^ 63"
  shows "createEpochTransition L source target epochBlock latest w =
    io_bind (io_wrap ''failed to do multicall''
      (Transactor_Multicall (hubTransactor hub) (epoch_opts L source target) [])) (\<lambda>tx.
    waitTxToBeMined (ncClient target) (lbRuntime L) (tx_hash tx)) w1"
proof -
  have "est \<noteq> 0" using assms(5) by auto
  then obtain n where n: "go_div (GasLimit (ncChainConfig target) - txGasReserve) est = Ret n"
    by (simp add: go_div_def)
  have "batch_loop L source epochBlock latest (sint n) 0 0 [] = io_ret (sint n, [])"
    using batch_size_nonpos [OF n assms(2,5,6)] by (simp add: batch_loop.simps)
  then have "batch_transaction L source target (epoch_opts L source target) epochBlock latest w =
      io_wrap ''failed to do multicall'' (Transactor_Multicall (hubTransactor hub) (epoch_opts L source target) []) w1"
    using batch_transaction_after_dry_run [OF assms(3,4)] by (simp add: n)
  moreover have "0 < GasLimit (ncChainConfig target)"
    using assms(1) by (auto simp: word_gt_0)
  ultimately show ?thesis
    by (simp add: createEpochTransition_def Let_def io_bind_def)
qed

theorem createEpochTransition_below_reserve_witness:
  "createEpochTransition sample_libs (sample_source [1, 2]) (sample_target 50000) 2 5 0 = (Ret (), 1)"
  using createEpochTransition_below_reserve [of "sample_target 50000", OF _ _ _ sample_dry_run]
  by (simp add: io_bind_def io_map_def Transactor_Multicall_def sample_hub_def injectSigner_def
      new_transact_opts_def)

text \<open>
  An estimate of zero gas makes the relayer panic: it divides by it.
\<close>

theorem createEpochTransition_zero_estimate:
  assumes "GasLimit (ncChainConfig target) \<noteq> 0"
    and "ncRelayHub target = Some hub" and "dry_run L source target hub epochBlock w = (Ret 0, w1)"
  shows "createEpochTransition L source target epochBlock latest w = (Panic DivideByZero, w1)"
  using batch_transaction_after_dry_run [OF assms(2,3)] assms(1)
  by (simp add: createEpochTransition_def Let_def io_bind_def go_div_def io_lift_def word_gt_0)

definition sample_free_hub :: "nat RelayHub" where
  "sample_free_hub = sample_hub\<lparr>hubTransactor := \<lparr>transactorContract = sample_contract\<lparr>bcTransact :=
     (\<lambda>opts name args w. (Ret \<lparr>tx_hash = replicate 32 1, tx_gas = 0\<rparr>, Suc w))\<rparr>\<rparr>\<rparr>"

theorem createEpochTransition_zero_estimate_witness:
  "createEpochTransition sample_libs (sample_source [1, 2])
     ((sample_target 10000000)\<lparr>ncRelayHub := Some sample_free_hub\<rparr>) 2 5 0 = (Panic DivideByZero, 1)"
proof (rule createEpochTransition_zero_estimate)
  show "dry_run sample_libs (sample_source [1, 2]) ((sample_target 10000000)\<lparr>ncRelayHub := Some sample_free_hub\<rparr>)
      sample_free_hub 2 0 = (Ret 0, 1)"
    by (simp add: dry_run_def io_bind_eval(1) sample_one Transactor_UpdateValidatorSet_def sample_free_hub_def
        io_ret_def)
qed simp_all

end
