(* ===== verification/EpochWorker.thy ===== *)
theory EpochWorker
  imports Transition
begin

text \<open>
  The worker that moves the epochs of a source chain to a target chain (\<open>epochWorker\<close>,
  \<open>backgroundWorker\<close> and \<open>Start\<close> of \<open>relayer/service.go\<close>). Its local variables are a record; one
  received block number is one call of \<open>handle_block\<close>, whose result says what is logged as
  statistics. Before each number other goroutines may act on the service.
\<close>

section \<open>Definitions\<close>

record worker =
  latestTransitionedEpoch :: u64
  lastProcessTime :: i64
  totalProcessedBlocks :: u64

text \<open>\<open>err != nil\<close> as a value; a panic or an exit is not caught.\<close>

fun no_error :: "'a outcome \<Rightarrow> bool outcome" where
  "no_error (Ret x) = Ret True"
| "no_error (Fail e) = Ret False"
| "no_error (Panic p) = Panic p"
| "no_error (Exit m) = Exit m"

definition attempt :: "('w, 'a) lio \<Rightarrow> ('w, bool) lio" where
  "attempt m = (\<lambda>w. case m w of None \<Rightarrow> None | Some (r, w') \<Rightarrow> Some (no_error r, w'))"

definition get_epoch ::
    "('b, 'p, 'w) bind_lib \<Rightarrow> 'w nodeConfig \<Rightarrow> 'w nodeConfig \<Rightarrow> ('w, u64) io" where
  "get_epoch B source target =
     io_bind (io_lift (hub_of target)) (\<lambda>hub.
     io_map (fatal_on_error ''failed to fetch latest transitioned epoch'')
       (Caller_GetLatestTransitionedEpoch B (hubCaller hub) new_call_opts (ncChainId source)))"

definition now :: "('t, 'c, 'a, 'w) relay_libs \<Rightarrow> ('w, i64) io" where
  "now L w = (case rtNow (lbRuntime L) w of (t, w') \<Rightarrow> (Ret t, w'))"

definition sleep :: "('t, 'c, 'a, 'w) relay_libs \<Rightarrow> nat \<Rightarrow> ('w, unit) io" where
  "sleep L seconds w = (Ret (), rtSleep (lbRuntime L) seconds w)"

definition start_worker ::
    "('b, 'p, 'w) bind_lib \<Rightarrow> ('t, 'c, 'a, 'w) relay_libs \<Rightarrow> 'w nodeConfig \<Rightarrow> 'w nodeConfig \<Rightarrow> ('w, worker) io" where
  "start_worker B L source target =
     (if EpochLength (ncChainConfig source) = 0 then io_lift (Exit ''zero epoch blocks is not possible'')
      else
        io_bind (get_epoch B source target) (\<lambda>epoch.
        io_bind (now L) (\<lambda>time.
        io_ret \<lparr>latestTransitionedEpoch = epoch, lastProcessTime = time, totalProcessedBlocks = 0\<rparr>)))"

text \<open>The transition attempts for a confirmed epoch block: by checkpoint if other relayers are
  configured, and by confirmations if that is not done or fails. The result says whether one succeeded;
  if none did, the worker has slept.\<close>

definition attempt_transitions ::
    "('t, 'c, 'a, 'w) relay_libs \<Rightarrow> 'w nodeConfig \<Rightarrow> 'w nodeConfig \<Rightarrow> u64 \<Rightarrow> u64 \<Rightarrow> u64 \<Rightarrow>
     (('c, 'w) sys, bool) lio" where
  "attempt_transitions L source target waitForBlock latestKnownBlock epoch =
     lio_bind (if RelayerUrls (Relayer (ncConfig source)) \<noteq> []
               then attempt (createCheckpointTransition L source target waitForBlock epoch)
               else lio_of (io_ret False)) (\<lambda>success.
     if success then lio_of (io_ret True)
     else
       lio_bind (attempt (lio_of (on_env (createEpochTransition L source target waitForBlock latestKnownBlock)))) (\<lambda>ok.
       if ok then lio_of (io_ret True)
       else lio_bind (lio_of (on_env (sleep L 30))) (\<lambda>_. lio_of (io_ret False))))"

text \<open>After a transition: ask the hub, count the blocks, and compute what is logged.\<close>

definition record_progress ::
    "('b, 'p, 'w) bind_lib \<Rightarrow> ('t, 'c, 'a, 'w) relay_libs \<Rightarrow> 'w nodeConfig \<Rightarrow> 'w nodeConfig \<Rightarrow> u64 \<Rightarrow> worker \<Rightarrow>
     ('w, worker \<times> (i64 \<times> string) option) io" where
  "record_progress B L source target latestKnownBlock worker =
     (let prevLatestTransitionedEpoch = latestTransitionedEpoch worker in
      io_bind (get_epoch B source target) (\<lambda>epoch.
      let processedBlocks = (epoch - prevLatestTransitionedEpoch) * EpochLength (ncChainConfig source);
          worker = worker\<lparr>latestTransitionedEpoch := epoch,
                     totalProcessedBlocks := totalProcessedBlocks worker + processedBlocks\<rparr> in
      io_bind (now L) (\<lambda>time.
      io_bind (io_lift (go_div (totalProcessedBlocks worker) (time - lastProcessTime worker))) (\<lambda>blocksPerSecond.
      if blocksPerSecond = 0 then io_ret (worker, None)
      else
        io_bind (io_lift (go_div (latestKnownBlock - epoch * EpochLength (ncChainConfig source)) blocksPerSecond))
          (\<lambda>estimateTime.
        io_ret (worker, Some (blocksPerSecond, prettyFormatTime estimateTime)))))))"

definition handle_block ::
    "('b, 'p, 'w) bind_lib \<Rightarrow> ('t, 'c, 'a, 'w) relay_libs \<Rightarrow> 'w nodeConfig \<Rightarrow> 'w nodeConfig \<Rightarrow> u64 \<Rightarrow> worker \<Rightarrow>
     (('c, 'w) sys, worker \<times> (i64 \<times> string) option) lio" where
  "handle_block B L source target latestKnownBlock worker =
     (let waitForBlock = (latestTransitionedEpoch worker + 1) * EpochLength (ncChainConfig source) in
      if latestKnownBlock < waitForBlock \<or> waitForBlock > latestKnownBlock then lio_of (io_ret (worker, None))
      else
        lio_bind (attempt_transitions L source target waitForBlock latestKnownBlock (latestTransitionedEpoch worker))
          (\<lambda>ok.
        if ok then lio_of (on_env (record_progress B L source target latestKnownBlock worker))
        else lio_of (io_ret (worker, None))))"

text \<open>The loop, for the numbers it receives and what others do before each.\<close>

fun worker_loop ::
    "('b, 'p, 'w) bind_lib \<Rightarrow> ('t, 'c, 'a, 'w) relay_libs \<Rightarrow> 'w nodeConfig \<Rightarrow> 'w nodeConfig \<Rightarrow>
     (svc_action list \<times> u64) list \<Rightarrow> worker \<Rightarrow> (('c, 'w) sys, worker) lio" where
  "worker_loop B L source target [] worker = lio_of (io_ret worker)"
| "worker_loop B L source target ((acts, latestKnownBlock) # received) worker =
     lio_bind (lio_of (on_svc (\<lambda>s. (Ret (), others L acts s)))) (\<lambda>_.
     lio_bind (handle_block B L source target latestKnownBlock worker) (\<lambda>(worker, _).
     worker_loop B L source target received worker))"

definition epochWorker ::
    "('b, 'p, 'w) bind_lib \<Rightarrow> ('t, 'c, 'a, 'w) relay_libs \<Rightarrow> 'w nodeConfig \<Rightarrow> 'w nodeConfig \<Rightarrow>
     (svc_action list \<times> u64) list \<Rightarrow> (('c, 'w) sys, worker) lio" where
  "epochWorker B L source target received =
     lio_bind (lio_of (on_env (start_worker B L source target))) (\<lambda>worker.
     worker_loop B L source target received worker)"

text \<open>The pairs of nodes that the two workers are started with.\<close>

definition backgroundWorker ::
    "codec_lib \<Rightarrow> ('w eth_client, 'p, 'w) bind_lib \<Rightarrow> string \<Rightarrow> 'w eth_client \<Rightarrow> 'w eth_client \<Rightarrow> Config \<Rightarrow>
     ('w, ('w nodeConfig \<times> 'w nodeConfig) list) io" where
  "backgroundWorker cd B abiText rootRpc childRpc config =
     io_bind (toNodeConfig cd B abiText rootRpc childRpc config True) (\<lambda>source1.
     io_bind (toNodeConfig cd B abiText rootRpc childRpc config False) (\<lambda>target1.
     io_bind (toNodeConfig cd B abiText rootRpc childRpc config False) (\<lambda>source2.
     io_bind (toNodeConfig cd B abiText rootRpc childRpc config True) (\<lambda>target2.
     io_ret [(source1, target1), (source2, target2)]))))"

text \<open>\<open>Start\<close> connects to both chains and then starts the background worker in a goroutine; the
  result is the pair of connections.\<close>

definition Start ::
    "(string \<Rightarrow> ('w, 'w eth_client) io) \<Rightarrow> Config \<Rightarrow> ('w, 'w eth_client \<times> 'w eth_client) io" where
  "Start ethDial config =
     io_bind (ethDial (RpcUrl (Root config))) (\<lambda>rootRpc.
     io_bind (ethDial (RpcUrl (Child config))) (\<lambda>childRpc.
     io_ret (rootRpc, childRpc)))"

section \<open>One received number\<close>

lemma attempt_Ret_iff [io_inv]:
  "attempt m w = Some (Ret b, w') \<longleftrightarrow>
     (\<exists>x. m w = Some (Ret x, w') \<and> b) \<or> (\<exists>e. m w = Some (Fail e, w') \<and> \<not> b)"
proof -
  have "no_error r = Ret b \<longleftrightarrow> (\<exists>x. r = Ret x \<and> b) \<or> (\<exists>e. r = Fail e \<and> \<not> b)" for r :: "'b outcome"
    by (cases r) auto
  then show ?thesis by (auto simp: attempt_def split: option.splits prod.splits)
qed

text \<open>A new number leaves the worker alone or moves it to the epoch that the hub of the target
  reports.\<close>

definition advanced :: "'w nodeConfig \<Rightarrow> u64 \<Rightarrow> worker \<Rightarrow> worker \<Rightarrow> bool" where
  "advanced source epoch v v' \<longleftrightarrow>
     v' = v\<lparr>latestTransitionedEpoch := epoch, totalProcessedBlocks := totalProcessedBlocks v
            + (epoch - latestTransitionedEpoch v) * EpochLength (ncChainConfig source)\<rparr>"

lemma record_progress_Ret:
  assumes "record_progress B L source target known v w = (Ret (v', stats), w')"
  shows "\<exists>epoch w1. get_epoch B source target w = (Ret epoch, w1) \<and> advanced source epoch v v'
           \<and> (\<exists>time. now L w1 = (Ret time, w') \<and> time \<noteq> lastProcessTime v
                \<and> go_div (totalProcessedBlocks v') (time - lastProcessTime v)
                     = Ret (case stats of None \<Rightarrow> 0 | Some (bps, _) \<Rightarrow> bps))"
  using assms unfolding record_progress_def
  by (fastforce simp: io_inv Let_def advanced_def go_div_def split: if_splits)

lemma handle_block_Ret:
  assumes "handle_block B L source target known v st = Some (Ret (v', stats), st')"
  shows "v' = v \<and> stats = None \<or>
    (\<exists>st1. attempt_transitions L source target ((latestTransitionedEpoch v + 1) *
          EpochLength (ncChainConfig source)) known (latestTransitionedEpoch v) st = Some (Ret True, st1)
       \<and> (latestTransitionedEpoch v + 1) * EpochLength (ncChainConfig source) \<le> known
       \<and> record_progress B L source target known v (env st1) = (Ret (v', stats), env st')
       \<and> svc st' = svc st1)"
  using assms unfolding handle_block_def
  by (auto simp: Let_def io_inv not_less split: if_splits)

text \<open>Telescoping: an advance adds the blocks between the two epochs.\<close>

lemma advanced_total:
  assumes "advanced source epoch v v'"
    and "totalProcessedBlocks v = (latestTransitionedEpoch v - e0) * EpochLength (ncChainConfig source)"
  shows "totalProcessedBlocks v' = (latestTransitionedEpoch v' - e0) * EpochLength (ncChainConfig source)
         \<and> lastProcessTime v' = lastProcessTime v"
proof -
  have "(latestTransitionedEpoch v - e0) * len + (epoch - latestTransitionedEpoch v) * len = (epoch - e0) * len" for len
    by (simp add: left_diff_distrib)
  then show ?thesis using assms by (simp add: advanced_def)
qed

lemma handle_block_total:
  assumes "handle_block B L source target known v st = Some (Ret (v', stats), st')"
    and "totalProcessedBlocks v = (latestTransitionedEpoch v - e0) * EpochLength (ncChainConfig source)"
  shows "totalProcessedBlocks v' = (latestTransitionedEpoch v' - e0) * EpochLength (ncChainConfig source)
         \<and> lastProcessTime v' = lastProcessTime v"
proof -
  have "v' = v \<or> (\<exists>w w'. record_progress B L source target known v w = (Ret (v', stats), w'))"
    using handle_block_Ret [OF assms(1)] by blast
  then show ?thesis
  proof
    assume "\<exists>w w'. record_progress B L source target known v w = (Ret (v', stats), w')"
    then obtain w w' where "record_progress B L source target known v w = (Ret (v', stats), w')"
      by blast
    then have "\<exists>epoch. advanced source epoch v v'"
      by (auto dest: record_progress_Ret)
    then obtain epoch where "advanced source epoch v v'" ..
    then show ?thesis by (rule advanced_total [OF _ assms(2)])
  qed (use assms(2) in simp)
qed

lemma worker_loop_total:
  "worker_loop B L source target received v st = Some (Ret v', st') \<Longrightarrow>
   totalProcessedBlocks v = (latestTransitionedEpoch v - e0) * EpochLength (ncChainConfig source) \<Longrightarrow>
   totalProcessedBlocks v' = (latestTransitionedEpoch v' - e0) * EpochLength (ncChainConfig source)
     \<and> lastProcessTime v' = lastProcessTime v"
proof (induction received arbitrary: v st)
  case Nil
  then show ?case by (auto simp: io_inv)
next
  case (Cons r received)
  obtain acts known where r: "r = (acts, known)" by (cases r)
  obtain st1 v1 stats st2 where "handle_block B L source target known v st1 = Some (Ret (v1, stats), st2)"
    and rest: "worker_loop B L source target received v1 st2 = Some (Ret v', st')"
    using Cons.prems(1) unfolding r by (auto simp: io_inv)
  then show ?case
    using handle_block_total [OF _ Cons.prems(2)] Cons.IH [OF rest] by metis
qed

section \<open>Properties\<close>

text \<open>
  The worker does nothing before the first block of the next epoch is confirmed: for a
  smaller number the handler returns at once, with the worker, the service and the world unchanged.
\<close>

theorem handle_block_waits:
  assumes "latestKnownBlock < (latestTransitionedEpoch worker + 1) * EpochLength (ncChainConfig source)"
  shows "handle_block B L source target latestKnownBlock worker st = Some (Ret (worker, None), st)"
  using assms by (simp add: handle_block_def Let_def lio_of_def io_ret_def)

theorem handle_block_waits_witness:
  "handle_block sample_bind sample_libs (sample_source [1, 2]) (sample_target 0) 401
     \<lparr>latestTransitionedEpoch = 200, lastProcessTime = 0, totalProcessedBlocks = 0\<rparr> sample_state
   = Some (Ret (\<lparr>latestTransitionedEpoch = 200, lastProcessTime = 0, totalProcessedBlocks = 0\<rparr>, None), sample_state)"
  by (rule handle_block_waits) simp

text \<open>The attempt by checkpoint was not made, or failed; then the attempt by confirmations is due.\<close>

definition no_checkpoint ::
    "('t, 'c, 'a, 'w) relay_libs \<Rightarrow> 'w nodeConfig \<Rightarrow> 'w nodeConfig \<Rightarrow> u64 \<Rightarrow> u64 \<Rightarrow> ('c, 'w) sys \<Rightarrow> ('c, 'w) sys \<Rightarrow> bool" where
  "no_checkpoint L source target waitForBlock epoch st st1 \<longleftrightarrow>
     (if RelayerUrls (Relayer (ncConfig source)) = [] then st1 = st
      else \<exists>e. createCheckpointTransition L source target waitForBlock epoch st = Some (Fail e, st1))"

lemma attempt_transitions_Ret:
  assumes "attempt_transitions L source target b known epoch st = Some (Ret ok, st')"
  shows "ok \<and> RelayerUrls (Relayer (ncConfig source)) \<noteq> []
           \<and> createCheckpointTransition L source target b epoch st = Some (Ret (), st')
    \<or> (\<exists>st1. no_checkpoint L source target b epoch st st1 \<and>
         (ok \<and> (\<exists>w. createEpochTransition L source target b known (env st1) = (Ret (), w) \<and> st' = st1\<lparr>env := w\<rparr>) \<or>
          \<not> ok \<and> (\<exists>e w. createEpochTransition L source target b known (env st1) = (Fail e, w)
                 \<and> st' = st1\<lparr>env := rtSleep (lbRuntime L) 30 w\<rparr>)))"
proof -
  obtain success st1 where first: "(if RelayerUrls (Relayer (ncConfig source)) \<noteq> []
      then attempt (createCheckpointTransition L source target b epoch) else lio_of (io_ret False)) st
      = Some (Ret success, st1)"
    and rest: "(if success then lio_of (io_ret True)
     else lio_bind (attempt (lio_of (on_env (createEpochTransition L source target b known)))) (\<lambda>ok.
       if ok then lio_of (io_ret True)
       else lio_bind (lio_of (on_env (sleep L 30))) (\<lambda>_. lio_of (io_ret False)))) st1 = Some (Ret ok, st')"
    using assms unfolding attempt_transitions_def lio_bind_Ret_iff by blast
  show ?thesis
  proof (cases success)
    case True
    then show ?thesis
      using first rest by (auto simp: io_inv split: if_splits)
  next
    case False
    have fall: "no_checkpoint L source target b epoch st st1"
      using first False by (auto simp: no_checkpoint_def io_inv split: if_splits)
    moreover have "ok \<and> (\<exists>w. createEpochTransition L source target b known (env st1) = (Ret (), w) \<and> st' = st1\<lparr>env := w\<rparr>) \<or>
          \<not> ok \<and> (\<exists>e w. createEpochTransition L source target b known (env st1) = (Fail e, w)
                 \<and> st' = st1\<lparr>env := rtSleep (lbRuntime L) 30 w\<rparr>)"
      using rest False by (auto simp: io_inv on_env_def sleep_def split: prod.splits)
    ultimately show ?thesis by blast
  qed
qed

text \<open>
  Property C7. What one received number does once the next epoch block is confirmed, if the handler
  returns. A checkpoint transition is tried only when other relayers are configured, and the transition by
  confirmations exactly when that was not tried or failed. If both fail the worker stays as it is
  and the relayer sleeps for thirty seconds. If one succeeds the worker moves to the epoch that the hub
  of the target reports, and the speed that is logged is the number of blocks processed since the
  start divided by the seconds since the start.
\<close>

theorem handle_block_progress:
  assumes "handle_block B L source target known v st = Some (Ret (v', stats), st')"
    and "b = (latestTransitionedEpoch v + 1) * EpochLength (ncChainConfig source)" and "b \<le> known"
  shows "(\<exists>st1 e w. no_checkpoint L source target b (latestTransitionedEpoch v) st st1
            \<and> createEpochTransition L source target b known (env st1) = (Fail e, w)
            \<and> v' = v \<and> stats = None \<and> st' = st1\<lparr>env := rtSleep (lbRuntime L) 30 w\<rparr>)
    \<or> (\<exists>st2 epoch w1 time.
          (RelayerUrls (Relayer (ncConfig source)) \<noteq> []
             \<and> createCheckpointTransition L source target b (latestTransitionedEpoch v) st = Some (Ret (), st2)
           \<or> (\<exists>st1 w. no_checkpoint L source target b (latestTransitionedEpoch v) st st1
                \<and> createEpochTransition L source target b known (env st1) = (Ret (), w) \<and> st2 = st1\<lparr>env := w\<rparr>))
        \<and> get_epoch B source target (env st2) = (Ret epoch, w1) \<and> advanced source epoch v v'
        \<and> now L w1 = (Ret time, env st') \<and> svc st' = svc st2
        \<and> go_div (totalProcessedBlocks v') (time - lastProcessTime v)
            = Ret (case stats of None \<Rightarrow> 0 | Some (bps, _) \<Rightarrow> bps))"
proof -
  have "\<not> known < b" using assms(3) by (simp add: not_less)
  then obtain ok st2 where tried: "attempt_transitions L source target b known (latestTransitionedEpoch v) st
      = Some (Ret ok, st2)"
    and rest: "(if ok then lio_of (on_env (record_progress B L source target known v))
        else lio_of (io_ret (v, None))) st2 = Some (Ret (v', stats), st')"
    using assms(1) unfolding handle_block_def assms(2) [symmetric]
    by (auto simp: Let_def lio_bind_Ret_iff assms(2) [symmetric])
  show ?thesis
  proof (cases ok)
    case True
    then have "record_progress B L source target known v (env st2) = (Ret (v', stats), env st')"
      and svc: "svc st' = svc st2"
      using rest by (auto simp: io_inv)
    from record_progress_Ret [OF this(1)] show ?thesis
      using attempt_transitions_Ret [OF tried] True svc by blast
  next
    case False
    then show ?thesis
      using attempt_transitions_Ret [OF tried] rest by (auto simp: io_inv)
  qed
qed

lemma sample_get_epoch: "get_epoch sample_bind (sample_source vals) (sample_target g) w = (Ret (of_nat w), w)"
  by (simp add: get_epoch_def hub_of_def sample_hub_def Caller_GetLatestTransitionedEpoch_def sample_contract_def
      io_bind_def io_map_def io_lift_def convert_out0_def go_index_def sample_bind_def)

lemma sample_now: "now sample_libs w = (Ret (of_nat w), Suc w)"
  by (simp add: now_def sample_libs_def)

lemma sample_no_urls: "RelayerUrls (Relayer (sample_config [])) = []"
  by (simp add: sample_config_def)

lemma sample_attempt_at:
  "known = 4 \<or> known = 5 \<Longrightarrow> attempt_transitions sample_libs (sample_source [1, 2]) (sample_target 10000000) 2 known 0 st =
     Some (Ret True, st\<lparr>env := Suc (env st)\<rparr>)"
  by (simp add: attempt_transitions_def sample_no_urls lio_bind_def lio_of_def io_ret_def attempt_def on_env_def
      sample_batch_at)

lemma sample_attempt:
  "attempt_transitions sample_libs (sample_source [1, 2]) (sample_target 10000000) 2 5 0 st =
     Some (Ret True, st\<lparr>env := Suc (env st)\<rparr>)"
  by (simp add: sample_attempt_at)

lemma sample_handle:
  "handle_block sample_bind sample_libs (sample_source [1, 2]) (sample_target 10000000) 5
     \<lparr>latestTransitionedEpoch = 0, lastProcessTime = 0, totalProcessedBlocks = 0\<rparr> sample_state
   = Some (Ret (\<lparr>latestTransitionedEpoch = 1, lastProcessTime = 0, totalProcessedBlocks = 2\<rparr>,
       Some (2, prettyFormatTime 1)), sample_state\<lparr>env := 2\<rparr>)"
  by (simp add: handle_block_def Let_def lio_bind_def lio_of_def sample_attempt on_env_def sample_state_def
      record_progress_def sample_get_epoch sample_now io_bind_def io_lift_def io_ret_def go_div_def trunc_div_def)

theorem handle_block_progress_witness:
  "\<exists>v' st'. handle_block sample_bind sample_libs (sample_source [1, 2]) (sample_target 10000000) 5
     \<lparr>latestTransitionedEpoch = 0, lastProcessTime = 0, totalProcessedBlocks = 0\<rparr> sample_state
   = Some (Ret (v', Some (2, prettyFormatTime 1)), st')
   \<and> advanced (sample_source [1, 2]) 1 \<lparr>latestTransitionedEpoch = 0, lastProcessTime = 0, totalProcessedBlocks = 0\<rparr> v'"
  using handle_block_progress [OF sample_handle refl] sample_handle
  by (auto simp: sample_get_epoch advanced_def)

text \<open>
  A clock that still shows the second of the start makes the worker panic after its first
  successful transition: it divides by the seconds since the start.
\<close>

theorem handle_block_same_second:
  assumes "b = (latestTransitionedEpoch v + 1) * EpochLength (ncChainConfig source)" and "b \<le> known"
    and "attempt_transitions L source target b known (latestTransitionedEpoch v) st = Some (Ret True, st1)"
    and "get_epoch B source target (env st1) = (Ret epoch, w1)"
    and "now L w1 = (Ret (lastProcessTime v), w2)"
  shows "handle_block B L source target known v st = Some (Panic DivideByZero, st1\<lparr>env := w2\<rparr>)"
  using assms by (auto simp: handle_block_def Let_def not_less lio_bind_eval(1) lio_of_def on_env_def
      record_progress_def io_bind_eval(1) go_div_def io_bind_def io_lift_def)

theorem handle_block_same_second_witness:
  "handle_block sample_bind sample_libs (sample_source [1, 2]) (sample_target 10000000) 5
     \<lparr>latestTransitionedEpoch = 0, lastProcessTime = 1, totalProcessedBlocks = 0\<rparr> sample_state
   = Some (Panic DivideByZero, sample_state\<lparr>env := 2\<rparr>)"
  using handle_block_same_second [of 2 "\<lparr>latestTransitionedEpoch = 0, lastProcessTime = 1, totalProcessedBlocks = 0\<rparr>"
      "sample_source [1, 2]" 5 sample_libs "sample_target 10000000" sample_state _ sample_bind 1 1 2]
  by (simp add: sample_attempt sample_state_def sample_get_epoch sample_now)

text \<open>
  Property C25. An invariant of a worker through any sequence of received numbers and actions of other
  goroutines: the number of processed blocks is the distance, in 64-bit arithmetic, from the epoch
  the hub reported at the start to the worker's epoch, times the epoch length, and the start time stays.
\<close>

theorem epochWorker_total:
  assumes "epochWorker B L source target received st = Some (Ret v, st')"
  shows "\<exists>epoch0 w1 w2. EpochLength (ncChainConfig source) \<noteq> 0
      \<and> get_epoch B source target (env st) = (Ret epoch0, w1) \<and> now L w1 = (Ret (lastProcessTime v), w2)
      \<and> totalProcessedBlocks v = (latestTransitionedEpoch v - epoch0) * EpochLength (ncChainConfig source)"
proof -
  obtain v0 w0 where start: "start_worker B L source target (env st) = (Ret v0, w0)"
    and loop: "worker_loop B L source target received v0 (st\<lparr>env := w0\<rparr>) = Some (Ret v, st')"
    using assms by (auto simp: epochWorker_def io_inv)
  obtain epoch0 w1 time where epoch0: "EpochLength (ncChainConfig source) \<noteq> 0"
    "get_epoch B source target (env st) = (Ret epoch0, w1)" "now L w1 = (Ret time, w0)"
    "v0 = \<lparr>latestTransitionedEpoch = epoch0, lastProcessTime = time, totalProcessedBlocks = 0\<rparr>"
    using start by (auto simp: start_worker_def io_inv split: if_splits)
  then have "totalProcessedBlocks v0 = (latestTransitionedEpoch v0 - epoch0) * EpochLength (ncChainConfig source)"
    by simp
  from worker_loop_total [OF loop this] show ?thesis
    using epoch0 by auto
qed

theorem epochWorker_total_witness:
  "\<exists>v st' epoch0. epochWorker (sample_bind :: (unit, unit, nat) bind_lib) sample_libs (sample_source [1, 2]) (sample_target 10000000)
       [([sample_received], 5)] sample_state = Some (Ret v, st')
     \<and> totalProcessedBlocks v = (latestTransitionedEpoch v - epoch0) * 2 \<and> lastProcessTime v = 0"
proof -
  obtain v st' where run: "epochWorker (sample_bind :: (unit, unit, nat) bind_lib) sample_libs (sample_source [1, 2]) (sample_target 10000000)
       [([sample_received], 5)] sample_state = Some (Ret v, st')"
    by (simp add: epochWorker_def start_worker_def lio_bind_def lio_of_def on_env_def on_svc_def sample_state_def
        sample_get_epoch sample_now io_bind_def io_lift_def io_ret_def handle_block_def Let_def sample_attempt
        record_progress_def go_div_def trunc_div_def)
  show ?thesis
    using epochWorker_total [OF run] run
    by (intro exI [of _ v] exI [of _ st'] exI [of _ 0]) (simp add: sample_get_epoch sample_now sample_state_def)
qed

end
