(* ===== verification/Proto.thy ===== *)
theory Proto
  imports Checkpoint
begin

text \<open>
  The generated gRPC code that the relayer calls (\<open>relayer/proto/server.pb.go\<close> and
  \<open>relayer/proto/server_grpc.pb.go\<close>): the reply message with its getters, the client stub and the
  server-side handler with the description of the service. Connections and streams of the grpc
  package are records of operations. The protobuf reflection of the messages is not modelled.
\<close>

section \<open>Messages\<close>

record SignCheckpointProofReply =
  EpochNumber :: u64
  RawEpochBlock :: bytes
  BlockHash :: bytes
  CheckpointHash :: bytes
  Signatures :: "bytes list"
  Validators :: "bytes list"

text \<open>The getters are methods on a pointer that may be nil; a nil slice is the empty list.\<close>

definition GetEpochNumber :: "SignCheckpointProofReply option \<Rightarrow> u64" where
  "GetEpochNumber x = (case x of Some m \<Rightarrow> EpochNumber m | None \<Rightarrow> 0)"

definition GetRawEpochBlock :: "SignCheckpointProofReply option \<Rightarrow> bytes" where
  "GetRawEpochBlock x = (case x of Some m \<Rightarrow> RawEpochBlock m | None \<Rightarrow> [])"

definition GetBlockHash :: "SignCheckpointProofReply option \<Rightarrow> bytes" where
  "GetBlockHash x = (case x of Some m \<Rightarrow> BlockHash m | None \<Rightarrow> [])"

definition GetCheckpointHash :: "SignCheckpointProofReply option \<Rightarrow> bytes" where
  "GetCheckpointHash x = (case x of Some m \<Rightarrow> CheckpointHash m | None \<Rightarrow> [])"

definition GetSignatures :: "SignCheckpointProofReply option \<Rightarrow> bytes list" where
  "GetSignatures x = (case x of Some m \<Rightarrow> Signatures m | None \<Rightarrow> [])"

definition GetValidators :: "SignCheckpointProofReply option \<Rightarrow> bytes list" where
  "GetValidators x = (case x of Some m \<Rightarrow> Validators m | None \<Rightarrow> [])"

section \<open>The server side\<close>

datatype request = SignCheckpointProofRequest

record 'w server_stream =
  ssRecvMsg :: "('w, request) io"
  ssSendMsg :: "SignCheckpointProofReply \<Rightarrow> ('w, unit) io"

definition Send :: "'w server_stream \<Rightarrow> SignCheckpointProofReply \<Rightarrow> ('w, unit) io" where
  "Send x m = ssSendMsg x m"

text \<open>The registered handler reads the request and calls the method of the service.\<close>

definition SignCheckpointProof_Handler ::
    "(request \<Rightarrow> 'w server_stream \<Rightarrow> 'w \<Rightarrow> unit outcome option \<times> 'w) \<Rightarrow> 'w server_stream \<Rightarrow>
     'w \<Rightarrow> unit outcome option \<times> 'w" where
  "SignCheckpointProof_Handler method stream w =
     (case ssRecvMsg stream w of
        (Ret m, w') \<Rightarrow> method m stream w'
      | (Fail e, w') \<Rightarrow> (Some (Fail e), w')
      | (Panic p, w') \<Rightarrow> (Some (Panic p), w')
      | (Exit s, w') \<Rightarrow> (Some (Exit s), w'))"

text \<open>The base that an implementation may embed.\<close>

definition UnimplementedRelayHubServer_SignCheckpointProof ::
    "request \<Rightarrow> 'w server_stream \<Rightarrow> 'w \<Rightarrow> unit outcome option \<times> 'w" where
  "UnimplementedRelayHubServer_SignCheckpointProof req stream w =
     (Some (Fail (LibError ''method SignCheckpointProof not implemented'')), w)"

text \<open>The description of the service. A server of the grpc package holds the services that are
  registered with it; \<open>register\<close> is its \<open>RegisterService\<close>.\<close>

type_synonym 'w hub_server = "request \<Rightarrow> 'w server_stream \<Rightarrow> 'w \<Rightarrow> unit outcome option \<times> 'w"

record 'w stream_desc =
  sdStreamName :: string
  sdHandler :: "'w hub_server \<Rightarrow> 'w server_stream \<Rightarrow> 'w \<Rightarrow> unit outcome option \<times> 'w"
  sdServerStreams :: bool

record 'w service_desc =
  svServiceName :: string
  svMethods :: "string list"
  svStreams :: "'w stream_desc list"
  svMetadata :: string

definition RelayHub_ServiceDesc :: "'w service_desc" where
  "RelayHub_ServiceDesc =
    \<lparr>svServiceName = ''com.ankr.RelayHub'', svMethods = [],
     svStreams = [\<lparr>sdStreamName = ''SignCheckpointProof'', sdHandler = SignCheckpointProof_Handler,
                    sdServerStreams = True\<rparr>],
     svMetadata = ''relayer/proto/server.proto''\<rparr>"

definition RegisterRelayHubServer ::
    "('w service_desc \<Rightarrow> 'w hub_server \<Rightarrow> 'g \<Rightarrow> 'g) \<Rightarrow> 'g \<Rightarrow> 'w hub_server \<Rightarrow> 'g" where
  "RegisterRelayHubServer register s srv = register RelayHub_ServiceDesc srv s"

section \<open>The client stub\<close>

record 'w client_stream =
  csSendMsg :: "request \<Rightarrow> ('w, unit) io"
  csCloseSend :: "('w, unit) io"
  csRecvMsg :: "('w, SignCheckpointProofReply) io"

text \<open>A connection; the options of a call are values of an interface type, of which \<open>None\<close> is nil.\<close>

record ('o, 'w) client_conn =
  ccNewStream :: "'w stream_desc \<Rightarrow> string \<Rightarrow> 'o option list \<Rightarrow> ('w, 'w client_stream) io"

text \<open>The client wraps the connection it is given. \<open>grpc.Dial\<close> returns a nil pointer with its error; a
  call over that connection then reads fields of nil.\<close>

record ('o, 'w) relayHubClient = clientConn :: "('o, 'w) client_conn option"

definition NewRelayHubClient :: "('o, 'w) client_conn option \<Rightarrow> ('o, 'w) relayHubClient" where
  "NewRelayHubClient cc = \<lparr>clientConn = cc\<rparr>"

definition SignCheckpointProof_client ::
    "('o, 'w) relayHubClient \<Rightarrow> request \<Rightarrow> 'o option list \<Rightarrow> ('w, 'w client_stream) io" where
  "SignCheckpointProof_client c req opts =
     io_bind (case clientConn c of None \<Rightarrow> io_lift (Panic NilDereference)
              | Some conn \<Rightarrow> ccNewStream conn (hd (svStreams RelayHub_ServiceDesc)) ''/com.ankr.RelayHub/SignCheckpointProof'' opts) (\<lambda>x.
     io_bind (csSendMsg x req) (\<lambda>_.
     io_bind (csCloseSend x) (\<lambda>_.
     io_ret x)))"

definition Recv :: "'w client_stream \<Rightarrow> ('w, SignCheckpointProofReply) io" where
  "Recv x = io_bind (csRecvMsg x) (\<lambda>m. io_ret m)"

section \<open>Routing\<close>

text \<open>A server of the grpc package finds the stream of a service under the path made of both names. The
  path that the client opens is the one of the handler of the service.\<close>

definition stream_path :: "'w service_desc \<Rightarrow> 'w stream_desc \<Rightarrow> string" where
  "stream_path desc stream = ''/'' @ svServiceName desc @ ''/'' @ sdStreamName stream"

definition route :: "'w service_desc \<Rightarrow> string \<Rightarrow> 'w stream_desc option" where
  "route desc path = find (\<lambda>stream. stream_path desc stream = path) (svStreams desc)"

lemma client_path_routed:
  "SignCheckpointProof_client (NewRelayHubClient (Some conn)) req opts =
     io_bind (ccNewStream conn stream path opts) (\<lambda>x. io_bind (csSendMsg x req) (\<lambda>_. io_bind (csCloseSend x) (\<lambda>_. io_ret x)))
   \<and> route RelayHub_ServiceDesc path = Some stream \<and> sdHandler stream = SignCheckpointProof_Handler"
  if "stream = hd (svStreams RelayHub_ServiceDesc)" and "path = stream_path RelayHub_ServiceDesc stream"
  using that by (simp add: SignCheckpointProof_client_def NewRelayHubClient_def RelayHub_ServiceDesc_def
      stream_path_def route_def)

end
