(* ===== verification/Server.thy ===== *)
theory Server
  imports Service Proto
begin

text \<open>
  The exchange of signatures between relayers (\<open>relayer/server.go\<close>): the stream that a relayer serves
  to others, the loop that listens to another relayer, and the start of both. A loop that waits for
  further input is given the inputs it receives; its result is \<open>None\<close> while it has not returned.
\<close>

section \<open>Serving\<close>

text \<open>\<open>for k, v := range message.signatures { append ... }\<close>\<close>

fun reply_loop :: "codec_lib \<Rightarrow> (address, bytes) gomap \<Rightarrow> SignCheckpointProofReply \<Rightarrow> SignCheckpointProofReply" where
  "reply_loop cd [] reply = reply"
| "reply_loop cd ((k, v) # rest) reply =
     reply_loop cd rest (reply\<lparr>Validators := Validators reply @ [addressBytes cd k],
                               Signatures := Signatures reply @ [v]\<rparr>)"

definition make_reply ::
    "codec_lib \<Rightarrow> ((address, bytes) gomap \<Rightarrow> (address, bytes) gomap) \<Rightarrow> checkpointProof \<Rightarrow> SignCheckpointProofReply" where
  "make_reply cd ord message =
     reply_loop cd (ord (sigs_of message))
       \<lparr>EpochNumber = epochNumber message, RawEpochBlock = rawEpochBlock message,
        BlockHash = hashBytes cd (blockHash message), CheckpointHash = hashBytes cd (checkpointHash message),
        Signatures = [], Validators = []\<rparr>"

text \<open>What the \<open>select\<close> of the handler receives: an event with its arguments, read from the heap as
  it is then, or the end of the context.\<close>

datatype stream_input = Delivered "payload list" "ref \<Rightarrow> checkpointProof option" | Cancelled

definition serve_event ::
    "codec_lib \<Rightarrow> ((address, bytes) gomap \<Rightarrow> (address, bytes) gomap) \<Rightarrow> 'w server_stream \<Rightarrow> payload list \<Rightarrow>
     (ref \<Rightarrow> checkpointProof option) \<Rightarrow> ('w, unit) io" where
  "serve_event cd ord stream args heap =
     io_bind (io_lift (go_index args 0)) (\<lambda>arg.
     case arg of
       OtherArg \<Rightarrow> io_lift (Fail ErrBadEventPayload)
     | ProofArg r \<Rightarrow>
         (case heap r of
            None \<Rightarrow> io_lift (Panic NilDereference)
          | Some message \<Rightarrow> Send stream (make_reply cd ord message)))"

fun SignCheckpointProof ::
    "codec_lib \<Rightarrow> ((address, bytes) gomap \<Rightarrow> (address, bytes) gomap) \<Rightarrow> stream_input list \<Rightarrow> request \<Rightarrow>
     'w server_stream \<Rightarrow> 'w \<Rightarrow> unit outcome option \<times> 'w" where
  "SignCheckpointProof cd ord [] req stream w = (None, w)"
| "SignCheckpointProof cd ord (Cancelled # inputs) req stream w = (Some (Fail ErrContextDone), w)"
| "SignCheckpointProof cd ord (Delivered args heap # inputs) req stream w =
     (case serve_event cd ord stream args heap w of
        (Ret _, w') \<Rightarrow> SignCheckpointProof cd ord inputs req stream w'
      | (r, w') \<Rightarrow> (Some r, w'))"

section \<open>Listening\<close>

text \<open>\<open>for i, validator := range reply.Validators { signatures[...] = reply.Signatures[i] }\<close>\<close>

fun signatures_loop ::
    "codec_lib \<Rightarrow> bytes list \<Rightarrow> nat \<Rightarrow> bytes list \<Rightarrow> (address, bytes) gomap \<Rightarrow> (address, bytes) gomap outcome" where
  "signatures_loop cd sigs i [] result = Ret result"
| "signatures_loop cd sigs i (validator # validators) result =
     outcome_bind (go_index sigs i) (\<lambda>signature.
     signatures_loop cd sigs (Suc i) validators (go_put (bytesToAddress cd validator) signature result))"

definition decode_reply :: "codec_lib \<Rightarrow> SignCheckpointProofReply \<Rightarrow> checkpointProof outcome" where
  "decode_reply cd reply =
     (if length (Validators reply) \<noteq> length (Signatures reply)
      then Fail (ErrCorruptedReply (length (Validators reply)) (length (Signatures reply)))
      else
        outcome_bind (signatures_loop cd (Signatures reply) 0 (Validators reply) []) (\<lambda>sigs.
        Ret \<lparr>epochNumber = EpochNumber reply, rawEpochBlock = RawEpochBlock reply,
             blockHash = bytesToHash cd (BlockHash reply), checkpointHash = bytesToHash cd (CheckpointHash reply),
             signatures = Some sigs\<rparr>))"

text \<open>One round of the loop, with \<open>emit\<close> for \<open>s.emitter.Emit\<close>, and the loop itself for at most \<open>fuel\<close> rounds.\<close>

definition listen_round ::
    "codec_lib \<Rightarrow> (string \<Rightarrow> checkpointProof \<Rightarrow> ('w, unit) io) \<Rightarrow> 'w client_stream \<Rightarrow> ('w, unit) io" where
  "listen_round cd emit stream =
     io_bind (Recv stream) (\<lambda>reply.
     io_bind (io_lift (decode_reply cd reply)) (\<lambda>proof.
     emit checkpointProofReceived proof))"

fun listen_loop ::
    "codec_lib \<Rightarrow> (string \<Rightarrow> checkpointProof \<Rightarrow> ('w, unit) io) \<Rightarrow> nat \<Rightarrow> 'w client_stream \<Rightarrow> 'w \<Rightarrow>
     unit outcome option \<times> 'w" where
  "listen_loop cd emit 0 stream w = (None, w)"
| "listen_loop cd emit (Suc fuel) stream w =
     (case listen_round cd emit stream w of
        (Ret _, w') \<Rightarrow> listen_loop cd emit fuel stream w'
      | (r, w') \<Rightarrow> (Some r, w'))"

definition listenForIncomingMessages ::
    "codec_lib \<Rightarrow> (string \<Rightarrow> checkpointProof \<Rightarrow> ('w, unit) io) \<Rightarrow> nat \<Rightarrow> ('o, 'w) relayHubClient \<Rightarrow> 'w \<Rightarrow>
     unit outcome option \<times> 'w" where
  "listenForIncomingMessages cd emit fuel client w =
     (case SignCheckpointProof_client client SignCheckpointProofRequest [None] w of
        (Ret stream, w') \<Rightarrow> listen_loop cd emit fuel stream w'
      | (Fail e, w') \<Rightarrow> (Some (Fail e), w')
      | (Panic p, w') \<Rightarrow> (Some (Panic p), w')
      | (Exit m, w') \<Rightarrow> (Some (Exit m), w'))"

section \<open>Start\<close>

text \<open>The server object. The listener and the server of the grpc package are nil until \<open>Start\<close>.\<close>

record 'w grpc_server =
  gsServices :: "('w service_desc \<times> 'w hub_server) list"
  gsStop :: "('w, unit) io"

record 'w net_listener = lnClose :: "('w, unit) io"

record ('e, 'w) GrpcServer =
  srvEmitter :: 'e
  srvServer :: "'w grpc_server option"
  srvListener :: "'w net_listener option"

definition NewGrpcServer :: "'e \<Rightarrow> ('e, 'w) GrpcServer" where
  "NewGrpcServer emitter = \<lparr>srvEmitter = emitter, srvServer = None, srvListener = None\<rparr>"

text \<open>What \<open>Start\<close> calls: \<open>net.Listen\<close>, \<open>grpc.NewServer\<close> with no options, \<open>RegisterService\<close>, \<open>grpc.Dial\<close>.\<close>

record ('o, 'w) grpc_lib =
  grListen :: "string \<Rightarrow> ('w, 'w net_listener) io"
  grNewServer :: "'w grpc_server"
  grRegister :: "'w service_desc \<Rightarrow> 'w hub_server \<Rightarrow> 'w grpc_server \<Rightarrow> 'w grpc_server"
  grDial :: "string \<Rightarrow> ('w, ('o, 'w) client_conn) io"

text \<open>One goroutine per configured relayer, with the client of the connection that \<open>grpc.Dial\<close>
  returned: nil if it failed, which is logged only.\<close>

fun dial_loop ::
    "(string \<Rightarrow> ('w, ('o, 'w) client_conn) io) \<Rightarrow> string list \<Rightarrow> ('w, (string \<times> ('o, 'w) relayHubClient) list) io" where
  "dial_loop dial [] = io_ret []"
| "dial_loop dial (url # urls) =
     io_bind (io_map ignore_error (dial url)) (\<lambda>conn.
     let client = NewRelayHubClient conn in
     io_bind (dial_loop dial urls) (\<lambda>rest.
     io_ret ((url, client) # rest)))"

text \<open>\<open>srv\<close> is the server as an implementation of the service: its \<open>SignCheckpointProof\<close>. The goroutine
  that serves ends the process on an error and is not part of the result.\<close>

definition GrpcServer_Start ::
    "('o, 'w) grpc_lib \<Rightarrow> 'w hub_server \<Rightarrow> Config \<Rightarrow> ('e, 'w) GrpcServer \<Rightarrow>
     ('w, ('e, 'w) GrpcServer \<times> (string \<times> ('o, 'w) relayHubClient) list) io" where
  "GrpcServer_Start G srv config s =
     io_bind (io_wrap ''can't listen address'' (grListen G (GrpcAddress (Relayer config)))) (\<lambda>listener.
     let server = RegisterRelayHubServer (grRegister G) (grNewServer G) srv;
         s = s\<lparr>srvServer := Some server, srvListener := Some listener\<rparr> in
     io_bind (dial_loop (grDial G) (RelayerUrls (Relayer config))) (\<lambda>clients.
     io_ret (s, clients)))"

text \<open>The goroutine of one relayer: listen, log an error, sleep for 15 seconds, and again.\<close>

fun listen_forever ::
    "codec_lib \<Rightarrow> (string \<Rightarrow> checkpointProof \<Rightarrow> ('w, unit) io) \<Rightarrow> 'w runtime \<Rightarrow> nat \<Rightarrow> ('o, 'w) relayHubClient \<Rightarrow>
     nat \<Rightarrow> 'w \<Rightarrow> unit outcome option \<times> 'w" where
  "listen_forever cd emit rt fuel client 0 w = (None, w)"
| "listen_forever cd emit rt fuel client (Suc n) w =
     (case listenForIncomingMessages cd emit fuel client w of
        (Some (Ret _), w') \<Rightarrow> listen_forever cd emit rt fuel client n (rtSleep rt 15 w')
      | (Some (Fail e), w') \<Rightarrow> listen_forever cd emit rt fuel client n (rtSleep rt 15 w')
      | (r, w') \<Rightarrow> (r, w'))"

text \<open>\<open>Stop\<close> stops the server and closes the listener, dropping the error of the latter; both are nil
  before \<open>Start\<close>.\<close>

definition GrpcServer_Stop :: "('e, 'w) GrpcServer \<Rightarrow> ('w, unit) io" where
  "GrpcServer_Stop s =
     io_bind (case srvServer s of None \<Rightarrow> io_lift (Panic NilDereference) | Some server \<Rightarrow> gsStop server) (\<lambda>_.
     io_bind (case srvListener s of None \<Rightarrow> io_lift (Panic NilDereference)
              | Some listener \<Rightarrow> io_map ignore_error (lnClose listener)) (\<lambda>_.
     io_ret ()))"

section \<open>The contract of a wire format\<close>

text \<open>Whatever is fit to be sent comes back as the same value; then so does a list, in order.\<close>

locale wire_format =
  fixes fit :: "'p \<Rightarrow> bool"
    and enc :: "'p \<Rightarrow> 'm"
    and dec :: "'m \<Rightarrow> 'p outcome"
    and same :: "'p \<Rightarrow> 'p \<Rightarrow> bool"
  assumes dec_enc: "fit p \<Longrightarrow> \<exists>q. dec (enc p) = Ret q \<and> same p q"
begin

lemma dec_encs: "\<forall>p\<in>set ps. fit p \<Longrightarrow> \<exists>qs. list_all2 (\<lambda>p q. dec (enc p) = Ret q \<and> same p q) ps qs"
proof (induction ps)
  case (Cons p ps)
  then obtain q qs where "dec (enc p) = Ret q \<and> same p q"
    "list_all2 (\<lambda>p q. dec (enc p) = Ret q \<and> same p q) ps qs"
    using dec_enc [of p] by auto
  then show ?case by (intro exI [of _ "q # qs"]) simp
qed (auto intro: exI [of _ "[]"])

end

section \<open>Replies meet the contract\<close>

lemma reply_loop_eq:
  "reply_loop cd es reply = reply\<lparr>Validators := Validators reply @ map (\<lambda>e. addressBytes cd (fst e)) es,
                                   Signatures := Signatures reply @ map snd es\<rparr>"
  by (induction cd es reply rule: reply_loop.induct) auto

lemma signatures_loop_eq:
  "length vs + i \<le> length sigs \<Longrightarrow>
   signatures_loop cd sigs i vs acc =
     Ret (fold (\<lambda>(v, s). go_put (bytesToAddress cd v) s) (zip vs (drop i sigs)) acc)"
proof (induction cd sigs i vs acc rule: signatures_loop.induct)
  case (2 cd sigs i v vs acc)
  then have "i < length sigs" by simp
  then have "zip (v # vs) (drop i sigs) = (v, sigs ! i) # zip vs (drop (Suc i) sigs)"
    by (simp add: Cons_nth_drop_Suc [symmetric])
  with 2 show ?case by (simp add: go_index_def)
qed simp

text \<open>A proof that can be sent: its signatures form a map whose keys are addresses, its hashes are hashes.\<close>

definition sendable :: "checkpointProof \<Rightarrow> bool" where
  "sendable p \<longleftrightarrow> wf_proof p \<and> (\<forall>a\<in>fst ` set (sigs_of p). length a = 20)
                 \<and> length (blockHash p) = 32 \<and> length (checkpointHash p) = 32"

definition same_proof :: "checkpointProof \<Rightarrow> checkpointProof \<Rightarrow> bool" where
  "same_proof p q \<longleftrightarrow> epochNumber q = epochNumber p \<and> rawEpochBlock q = rawEpochBlock p
     \<and> blockHash q = blockHash p \<and> checkpointHash q = checkpointHash p \<and> sig_map q = sig_map p \<and> wf_proof q"

lemma fold_put_entries:
  "wf_map es \<Longrightarrow> \<forall>a\<in>fst ` set es. f (g a) = a \<Longrightarrow> fst ` set acc \<inter> fst ` set es = {} \<Longrightarrow>
   map_of (fold (\<lambda>(v, s). go_put (f v) s) (zip (map (\<lambda>e. g (fst e)) es) (map snd es)) acc) = map_of acc ++ map_of es"
proof (induction es arbitrary: acc)
  case (Cons e es)
  obtain a s where e: "e = (a, s)" by (cases e)
  have "a \<notin> fst ` set es" "wf_map es" "f (g a) = a"
    using Cons.prems by (auto simp: e wf_map_def)
  moreover have "fst ` set (go_put a s acc) \<inter> fst ` set es = {}"
    using Cons.prems(3) \<open>a \<notin> fst ` set es\<close> by (auto simp: keys_put e)
  ultimately show ?case
    using Cons.IH [of "go_put a s acc"] Cons.prems(2)
    by (auto simp: e map_add_def fun_eq_iff map_of_eq_None_iff split: option.splits)
qed simp

lemma fold_put_wf:
  "wf_map acc \<Longrightarrow> wf_map (fold (\<lambda>(v, s). go_put (f v) s) es acc)"
  by (induction es arbitrary: acc) auto

lemma decode_make_reply:
  assumes "codec_laws cd" and "range_order ord" and "sendable p"
  shows "\<exists>q. decode_reply cd (make_reply cd ord p) = Ret q \<and> same_proof p q"
proof -
  let ?es = "ord (sigs_of p)"
  let ?sigs = "fold (\<lambda>(v, s). go_put (bytesToAddress cd v) s)
     (zip (map (\<lambda>e. addressBytes cd (fst e)) ?es) (map snd ?es)) []"
  have wf: "wf_map ?es" and keys: "set ?es = set (sigs_of p)"
    using range_order_wf [OF assms(2)] range_order_set [OF assms(2)] assms(3)
    by (auto simp: sendable_def wf_proof_def)
  have "\<forall>a\<in>fst ` set ?es. bytesToAddress cd (addressBytes cd a) = a"
    using assms(3) codec_addressD(2) [OF assms(1)] unfolding keys by (auto simp: sendable_def)
  then have "map_of ?sigs = map_of (sigs_of p)"
    using fold_put_entries [OF wf, of "bytesToAddress cd" "addressBytes cd" "[]"]
      range_order_map_of [OF assms(2)] assms(3) by (simp add: sendable_def wf_proof_def)
  moreover have "wf_map ?sigs"
    by (rule fold_put_wf) simp
  ultimately show ?thesis
    using assms(3) codec_hashD [OF assms(1)]
    by (simp add: decode_reply_def make_reply_def reply_loop_eq signatures_loop_eq same_proof_def sendable_def
        sig_map_def wf_proof_def sigs_of_def)
qed

interpretation wire: wire_format "\<lambda>p. codec_laws cd \<and> range_order ord \<and> sendable p"
  "make_reply cd ord" "decode_reply cd" same_proof for cd ord
  by unfold_locales (blast intro: decode_make_reply)

section \<open>Streams\<close>

text \<open>
  The documented behaviour of a gRPC stream and of the event emitter, seen through what is still to
  be received and what has been emitted: messages arrive in order, then \<open>Recv\<close> fails; emitting appends.
\<close>

definition link_laws ::
    "'w client_stream \<Rightarrow> (string \<Rightarrow> checkpointProof \<Rightarrow> ('w, unit) io) \<Rightarrow> ('w \<Rightarrow> SignCheckpointProofReply list) \<Rightarrow>
     ('w \<Rightarrow> checkpointProof list) \<Rightarrow> bool" where
  "link_laws stream emit incoming emitted \<longleftrightarrow>
     (\<forall>w. (incoming w = [] \<longrightarrow> (\<exists>e w'. csRecvMsg stream w = (Fail e, w') \<and> emitted w' = emitted w))
        \<and> (\<forall>m ms. incoming w = m # ms \<longrightarrow>
             (\<exists>w'. csRecvMsg stream w = (Ret m, w') \<and> incoming w' = ms \<and> emitted w' = emitted w))
        \<and> (\<forall>p. \<exists>w'. emit checkpointProofReceived p w = (Ret (), w') \<and> incoming w' = incoming w \<and> emitted w' = emitted w @ [p]))"

lemma link_lawsD:
  assumes "link_laws stream emit incoming emitted"
  shows "incoming w = [] \<Longrightarrow> \<exists>e w'. csRecvMsg stream w = (Fail e, w') \<and> emitted w' = emitted w"
    and "incoming w = m # ms \<Longrightarrow>
           \<exists>w'. csRecvMsg stream w = (Ret m, w') \<and> incoming w' = ms \<and> emitted w' = emitted w"
    and "\<exists>w'. emit checkpointProofReceived p w = (Ret (), w') \<and> incoming w' = incoming w \<and> emitted w' = emitted w @ [p]"
  using assms unfolding link_laws_def by blast+

lemma listen_round_good:
  assumes "link_laws stream emit incoming emitted" and "incoming w = m # ms" and "decode_reply cd m = Ret q"
  shows "\<exists>w'. listen_round cd emit stream w = (Ret (), w') \<and> incoming w' = ms \<and> emitted w' = emitted w @ [q]"
proof -
  obtain w1 where "csRecvMsg stream w = (Ret m, w1)" "incoming w1 = ms" "emitted w1 = emitted w"
    using link_lawsD(2) [OF assms(1,2)] by blast
  moreover obtain w2 where "emit checkpointProofReceived q w1 = (Ret (), w2)" "incoming w2 = incoming w1" "emitted w2 = emitted w1 @ [q]"
    using link_lawsD(3) [OF assms(1)] by blast
  ultimately show ?thesis
    using assms(3) by (simp add: listen_round_def Recv_def io_bind_def io_ret_def io_lift_def)
qed

lemma listen_round_bad:
  assumes "link_laws stream emit incoming emitted"
    and "incoming w = [] \<or> (\<exists>m ms. incoming w = m # ms \<and> decode_reply cd m = Fail err)"
  shows "\<exists>e w'. listen_round cd emit stream w = (Fail e, w') \<and> emitted w' = emitted w
           \<and> (incoming w \<noteq> [] \<longrightarrow> e = err)"
  using assms(2)
proof
  assume "incoming w = []"
  then obtain e w1 where "csRecvMsg stream w = (Fail e, w1)" "emitted w1 = emitted w"
    using link_lawsD(1) [OF assms(1)] by blast
  then show ?thesis
    using \<open>incoming w = []\<close> by (simp add: listen_round_def Recv_def io_bind_def)
next
  assume "\<exists>m ms. incoming w = m # ms \<and> decode_reply cd m = Fail err"
  then obtain m ms where m: "incoming w = m # ms" "decode_reply cd m = Fail err" by blast
  then obtain w1 where "csRecvMsg stream w = (Ret m, w1)" "emitted w1 = emitted w"
    using link_lawsD(2) [OF assms(1)] by blast
  then show ?thesis
    using m by (simp add: listen_round_def Recv_def io_bind_def io_ret_def io_lift_def)
qed

lemma listen_loop_stream:
  assumes "link_laws stream emit incoming emitted"
    and "list_all2 (\<lambda>m q. decode_reply cd m = Ret q) ms qs" and "incoming w = ms @ rest"
    and "rest = [] \<or> decode_reply cd (hd rest) = Fail err" and "length ms < fuel"
  shows "\<exists>e w'. listen_loop cd emit fuel stream w = (Some (Fail e), w') \<and> emitted w' = emitted w @ qs
           \<and> (rest \<noteq> [] \<longrightarrow> e = err)"
  using assms(2-5)
proof (induction ms arbitrary: qs w fuel)
  case Nil
  obtain e w' where "listen_round cd emit stream w = (Fail e, w')" "emitted w' = emitted w"
    "incoming w \<noteq> [] \<longrightarrow> e = err"
    using listen_round_bad [OF assms(1), of w cd err] Nil by (cases rest) auto
  then show ?case
    using Nil by (cases fuel) auto
next
  case (Cons m ms)
  obtain q qs' where qs: "qs = q # qs'" "decode_reply cd m = Ret q"
    "list_all2 (\<lambda>m q. decode_reply cd m = Ret q) ms qs'"
    using Cons.prems(1) by (auto simp: list_all2_Cons1)
  obtain w1 where "listen_round cd emit stream w = (Ret (), w1)" "incoming w1 = ms @ rest"
    "emitted w1 = emitted w @ [q]"
    using listen_round_good [OF assms(1) _ qs(2), of w] Cons.prems(2) by auto
  moreover obtain fuel' where "fuel = Suc fuel'" "length ms < fuel'"
    using Cons.prems(4) by (cases fuel) auto
  ultimately show ?case
    using Cons.IH [OF qs(3) _ Cons.prems(3), of w1 fuel'] qs(1) by auto
qed

lemma dial_loop_failed:
  "dial_loop dial urls w = (Ret conns, w') \<Longrightarrow> url \<in> set urls \<Longrightarrow> \<forall>v. \<exists>e v'. dial url v = (Fail e, v') \<Longrightarrow>
   (url, NewRelayHubClient None) \<in> set conns"
proof (induction urls arbitrary: w conns)
  case (Cons u urls)
  obtain conn w1 rest where first: "io_map ignore_error (dial u) w = (Ret conn, w1)"
    and rest: "dial_loop dial urls w1 = (Ret rest, w')" and conns: "conns = (u, NewRelayHubClient conn) # rest"
    using Cons.prems(1) by (auto simp: io_inv Let_def)
  show ?case
  proof (cases "u = url")
    case True
    obtain e v' where "dial url w = (Fail e, v')" using Cons.prems(3) by blast
    then show ?thesis
      using first conns True by (simp add: io_map_def)
  next
    case False
    then show ?thesis
      using Cons.IH [OF rest] Cons.prems conns by simp
  qed
qed simp

text \<open>Messages that a server stream has accepted, in order.\<close>

definition send_laws :: "'w server_stream \<Rightarrow> ('w \<Rightarrow> SignCheckpointProofReply list) \<Rightarrow> bool" where
  "send_laws stream sent \<longleftrightarrow> (\<forall>m w. \<exists>w'. ssSendMsg stream m w = (Ret (), w') \<and> sent w' = sent w @ [m])"

lemma serve_events:
  assumes "send_laws stream sent"
    and "list_all2 (\<lambda>d p. \<exists>r args heap. d = Delivered (ProofArg r # args) heap \<and> heap r = Some p) ds ps"
  shows "\<exists>w'. sent w' = sent w @ map (make_reply cd ord) ps
           \<and> (\<forall>later. SignCheckpointProof cd ord (ds @ later) req stream w = SignCheckpointProof cd ord later req stream w')"
  using assms(2)
proof (induction ds ps arbitrary: w rule: list_all2_induct)
  case (Cons d ds p ps)
  obtain r args heap where d: "d = Delivered (ProofArg r # args) heap" "heap r = Some p"
    using Cons.hyps(1) by blast
  obtain w1 where "ssSendMsg stream (make_reply cd ord p) w = (Ret (), w1)"
    and w1: "sent w1 = sent w @ [make_reply cd ord p]"
    using assms(1) unfolding send_laws_def by blast
  then have "serve_event cd ord stream (ProofArg r # args) heap w = (Ret (), w1)"
    by (simp add: serve_event_def go_index_def d Send_def)
  then show ?case
    using Cons.IH [of w1] w1 d by auto
qed auto

section \<open>Properties\<close>

text \<open>
  Property C30. Sending a proof and reading the reply gives the proof back: epoch number, raw block,
  hashes and the signature of every signer, in whatever order the language ranges over the map.
\<close>

theorem reply_roundtrip:
  assumes "codec_laws cd" and "range_order ord" and "sendable p"
  shows "\<exists>q. decode_reply cd (make_reply cd ord p) = Ret q
           \<and> epochNumber q = epochNumber p \<and> rawEpochBlock q = rawEpochBlock p
           \<and> blockHash q = blockHash p \<and> checkpointHash q = checkpointHash p \<and> sig_map q = sig_map p"
  using wire.dec_enc [of cd ord p] assms by (auto simp: same_proof_def)

definition sample_sent :: "u64 \<Rightarrow> checkpointProof" where
  "sample_sent n = \<lparr>epochNumber = n, rawEpochBlock = [1, 2], blockHash = replicate 32 3,
     checkpointHash = replicate 32 4, signatures = Some [(replicate 20 5, [6]), (replicate 20 7, [8])]\<rparr>"

lemma sample_sendable: "sendable (sample_sent n)"
  by (simp add: sendable_def sample_sent_def wf_proof_def sigs_of_def wf_map_def)

theorem reply_roundtrip_witness:
  "\<exists>q. decode_reply sample_codec (make_reply sample_codec rev (sample_sent 9)) = Ret q
     \<and> epochNumber q = 9 \<and> sig_map q (replicate 20 7) = Some [8]"
  using reply_roundtrip [OF sample_codec_laws _ sample_sendable, of rev 9]
  by (auto simp: range_order_def sample_sent_def sig_map_def sigs_of_def)

text \<open>
  Property C26. What a relayer passes on from a peer. If the stream carries the replies for the proofs
  \<open>ps\<close> and then ends, or then carries a reply with unequal numbers of validators and signatures, the loop
  emits the same proofs in the same order, nothing else, and returns an error: for the corrupted reply
  the one that names both numbers.
\<close>

theorem listen_loop_passes_on:
  assumes "codec_laws cd" and "range_order ord" and "\<forall>p\<in>set ps. sendable p"
    and "link_laws stream emit incoming emitted"
    and "incoming w = map (make_reply cd ord) ps @ rest" and "length ps < fuel"
    and "rest = [] \<or> length (Validators (hd rest)) \<noteq> length (Signatures (hd rest))"
  shows "\<exists>e w' qs. listen_loop cd emit fuel stream w = (Some (Fail e), w')
           \<and> emitted w' = emitted w @ qs \<and> list_all2 same_proof ps qs
           \<and> (rest \<noteq> [] \<longrightarrow> e = ErrCorruptedReply (length (Validators (hd rest))) (length (Signatures (hd rest))))"
proof -
  obtain qs where qs: "list_all2 (\<lambda>p q. decode_reply cd (make_reply cd ord p) = Ret q \<and> same_proof p q) ps qs"
    using wire.dec_encs [of ps cd ord] assms(1-3) by blast
  have "list_all2 (\<lambda>m q. decode_reply cd m = Ret q) (map (make_reply cd ord) ps) qs"
    and "list_all2 same_proof ps qs"
    using qs by (auto simp: list.rel_map elim: list_all2_mono)
  then show ?thesis
    using listen_loop_stream [OF assms(4) _ assms(5), of cd qs
        "ErrCorruptedReply (length (Validators (hd rest))) (length (Signatures (hd rest)))" fuel] assms(6,7)
    by (auto simp: decode_reply_def)
qed

record sample_link =
  linkIncoming :: "SignCheckpointProofReply list"
  linkEmitted :: "checkpointProof list"

definition sample_stream :: "sample_link client_stream" where
  "sample_stream = \<lparr>csSendMsg = (\<lambda>m w. (Ret (), w)), csCloseSend = (\<lambda>w. (Ret (), w)),
     csRecvMsg = (\<lambda>w. case linkIncoming w of [] \<Rightarrow> (Fail (LibError ''EOF''), w)
                        | m # ms \<Rightarrow> (Ret m, w\<lparr>linkIncoming := ms\<rparr>))\<rparr>"

definition sample_emit :: "string \<Rightarrow> checkpointProof \<Rightarrow> (sample_link, unit) io" where
  "sample_emit name p w = (Ret (), w\<lparr>linkEmitted := linkEmitted w @ [p]\<rparr>)"

lemma sample_link_laws: "link_laws sample_stream sample_emit linkIncoming linkEmitted"
  by (auto simp: link_laws_def sample_stream_def sample_emit_def)

definition sample_corrupted :: SignCheckpointProofReply where
  "sample_corrupted = \<lparr>EpochNumber = 3, RawEpochBlock = [], BlockHash = [], CheckpointHash = [],
     Signatures = [[1]], Validators = []\<rparr>"

theorem listen_loop_passes_on_witness:
  "\<exists>w' qs. listen_loop sample_codec sample_emit 3 sample_stream
       \<lparr>linkIncoming = [make_reply sample_codec rev (sample_sent 1), make_reply sample_codec rev (sample_sent 2),
          sample_corrupted], linkEmitted = []\<rparr> = (Some (Fail (ErrCorruptedReply 0 1)), w')
     \<and> linkEmitted w' = qs \<and> list_all2 same_proof [sample_sent 1, sample_sent 2] qs"
  using listen_loop_passes_on [of sample_codec rev "[sample_sent 1, sample_sent 2]" sample_stream sample_emit
      linkIncoming linkEmitted "\<lparr>linkIncoming = [make_reply sample_codec rev (sample_sent 1),
        make_reply sample_codec rev (sample_sent 2), sample_corrupted], linkEmitted = []\<rparr>" "[sample_corrupted]" 3]
  by (simp add: range_order_def sample_sendable sample_link_laws)
     (simp add: sample_corrupted_def)

text \<open>
  What a relayer serves to a peer. For every signed proof that is announced the stream
  carries one reply, in order, made from the proof as it is then. The handler goes on after each, and
  returns the context's error when the context ends, and an error, with nothing sent, for an event
  whose argument is not a proof.
\<close>

theorem SignCheckpointProof_serves:
  assumes "send_laws stream sent"
    and "list_all2 (\<lambda>d p. \<exists>r args heap. d = Delivered (ProofArg r # args) heap \<and> heap r = Some p) ds ps"
  shows "\<exists>w'. sent w' = sent w @ map (make_reply cd ord) ps
      \<and> SignCheckpointProof cd ord ds req stream w = (None, w')
      \<and> SignCheckpointProof cd ord (ds @ Cancelled # later) req stream w = (Some (Fail ErrContextDone), w')
      \<and> SignCheckpointProof cd ord (ds @ Delivered (OtherArg # args) heap # later) req stream w
          = (Some (Fail ErrBadEventPayload), w')"
proof -
  obtain w' where sent: "sent w' = sent w @ map (make_reply cd ord) ps"
    and run: "SignCheckpointProof cd ord (ds @ later) req stream w = SignCheckpointProof cd ord later req stream w'" for later
    using serve_events [OF assms] by blast
  show ?thesis
    using sent run [of "[]"] run by (intro exI [of _ w']) (simp add: serve_event_def go_index_def io_lift_def io_bind_def)
qed

definition sample_server_stream :: "SignCheckpointProofReply list server_stream" where
  "sample_server_stream = \<lparr>ssRecvMsg = (\<lambda>w. (Ret SignCheckpointProofRequest, w)), ssSendMsg = (\<lambda>m w. (Ret (), w @ [m]))\<rparr>"

lemma sample_send_laws: "send_laws sample_server_stream id"
  by (simp add: send_laws_def sample_server_stream_def)

theorem SignCheckpointProof_serves_witness:
  "SignCheckpointProof sample_codec rev [Delivered [ProofArg 0] [0 \<mapsto> sample_sent 1],
       Delivered [ProofArg 1] [1 \<mapsto> sample_sent 2], Cancelled] SignCheckpointProofRequest sample_server_stream []
     = (Some (Fail ErrContextDone),
        [make_reply sample_codec rev (sample_sent 1), make_reply sample_codec rev (sample_sent 2)])"
  using SignCheckpointProof_serves [OF sample_send_laws, of "[Delivered [ProofArg 0] [0 \<mapsto> sample_sent 1],
      Delivered [ProofArg 1] [1 \<mapsto> sample_sent 2]]" "[sample_sent 1, sample_sent 2]" "[]" sample_codec rev
      SignCheckpointProofRequest "[]"]
  by simp

text \<open>
  A configured relayer that cannot be dialled brings the process down. \<open>Start\<close> only warns
  and goes on with the nil connection, and the goroutine for that relayer panics at its first call.
\<close>

theorem unreachable_relayer_panics:
  assumes "GrpcServer_Start G srv config s w = (Ret (s', clients), w')"
    and "url \<in> set (RelayerUrls (Relayer config))" and "\<forall>v. \<exists>e v'. grDial G url v = (Fail e, v')"
  shows "\<exists>client. (url, client) \<in> set clients
         \<and> listen_forever cd emit rt fuel client (Suc n) v = (Some (Panic NilDereference), v)"
proof -
  obtain w1 where "dial_loop (grDial G) (RelayerUrls (Relayer config)) w1 = (Ret clients, w')"
    using assms(1) by (auto simp: GrpcServer_Start_def io_inv Let_def)
  from dial_loop_failed [OF this assms(2,3)] show ?thesis
    by (intro exI [of _ "NewRelayHubClient None"])
       (simp add: listenForIncomingMessages_def SignCheckpointProof_client_def NewRelayHubClient_def io_bind_def io_lift_def)
qed

definition sample_grpc :: "(unit, unit) grpc_lib" where
  "sample_grpc = \<lparr>grListen = (\<lambda>a. io_ret \<lparr>lnClose = io_ret ()\<rparr>),
     grNewServer = \<lparr>gsServices = [], gsStop = io_ret ()\<rparr>,
     grRegister = (\<lambda>desc srv g. g\<lparr>gsServices := (desc, srv) # gsServices g\<rparr>),
     grDial = (\<lambda>url. io_lift (Fail (LibError ''no transport security set'')))\<rparr>"

theorem unreachable_relayer_panics_witness:
  "\<exists>s clients client. GrpcServer_Start sample_grpc UnimplementedRelayHubServer_SignCheckpointProof
       (sample_config [''relayer-2:6565'']) (NewGrpcServer ()) () = (Ret (s, clients), ())
     \<and> (''relayer-2:6565'', client) \<in> set clients
     \<and> listen_forever sample_codec (\<lambda>name p. io_ret ()) \<lparr>rtSleep = (\<lambda>n w. w), rtNow = (\<lambda>w. (0, w))\<rparr> 10
         client 1 () = (Some (Panic NilDereference), ())"
proof -
  obtain s clients where run: "GrpcServer_Start sample_grpc UnimplementedRelayHubServer_SignCheckpointProof
       (sample_config [''relayer-2:6565'']) (NewGrpcServer ()) () = (Ret (s, clients), ())"
    by (simp add: GrpcServer_Start_def sample_config_def sample_grpc_def Let_def io_bind_def io_map_def io_lift_def io_ret_def)
  show ?thesis
    using unreachable_relayer_panics [OF run, of "''relayer-2:6565''" sample_codec "\<lambda>name p. io_ret ()"
        "\<lparr>rtSleep = (\<lambda>n w. w), rtNow = (\<lambda>w. (0, w))\<rparr>" 10 0 "()"] run
    by (fastforce simp: sample_config_def sample_grpc_def io_lift_def)
qed

text \<open>A server is stopped after it has been started: then the server of the grpc package is stopped
  and the listener closed. Before that it cannot be.\<close>

lemma GrpcServer_started:
  assumes "GrpcServer_Start G srv config (NewGrpcServer emitter) w = (Ret (s, clients), w')"
  shows "srvServer s = Some (grRegister G RelayHub_ServiceDesc srv (grNewServer G)) \<and> srvEmitter s = emitter
    \<and> map fst clients = RelayerUrls (Relayer config)
    \<and> (\<exists>listener v. grListen G (GrpcAddress (Relayer config)) w = (Ret listener, v) \<and> srvListener s = Some listener)"
proof -
  have urls: "dial_loop dial us v = (Ret cs, w') \<Longrightarrow> map fst cs = us" for dial us v cs
    by (induction us arbitrary: v cs) (auto simp: io_inv Let_def)
  show ?thesis
    using assms urls unfolding GrpcServer_Start_def RegisterRelayHubServer_def NewGrpcServer_def
    by (auto simp: io_inv Let_def)
qed

lemma GrpcServer_Stop_started:
  "srvServer s = Some server \<Longrightarrow> srvListener s = Some listener \<Longrightarrow>
   GrpcServer_Stop s = io_bind (gsStop server) (\<lambda>_. io_bind (io_map ignore_error (lnClose listener)) (\<lambda>_. io_ret ()))"
  "GrpcServer_Stop (NewGrpcServer emitter) w = (Panic NilDereference, w)"
  by (simp_all add: GrpcServer_Stop_def NewGrpcServer_def io_bind_def io_lift_def)

end
