(* ===== verification/Relayer.thy ===== *)
theory Relayer
  imports EpochWorker Server
begin

text \<open>
  The program (\<open>relayer/main.go\<close>): read the configuration, start the relay service, start the gRPC
  server. Afterwards the main goroutine only sleeps; the goroutines that run are those of the
  theories EpochWorker, Service and Server.
\<close>

section \<open>Definitions\<close>

text \<open>An error of either start ends the process. The result is the service and the connections that
  the two starts have made.\<close>

definition relayer_main ::
    "crypto_lib \<Rightarrow> 'v viper_lib \<Rightarrow> (string \<Rightarrow> unit outcome) \<Rightarrow> (nat \<Rightarrow> 'e) \<Rightarrow> 'c lru_lib \<Rightarrow>
     (string \<Rightarrow> ('w, 'w eth_client) io) \<Rightarrow> ('o, 'w) grpc_lib \<Rightarrow> 'w hub_server \<Rightarrow>
     ('w, 'c RelayService \<times> ('w eth_client \<times> 'w eth_client) \<times> ('e, 'w) GrpcServer \<times>
          (string \<times> ('o, 'w) relayHubClient) list) io" where
  "relayer_main C V stat emitterNew lru ethDial G srv =
     io_bind (io_lift (newViper V stat)) (\<lambda>v.
     io_bind (io_lift (configFromViper C V v)) (\<lambda>config.
     let emitter = newEmitter emitterNew in
     io_bind (io_lift (NewRelayService lru)) (\<lambda>relayService.
     io_bind (io_map (fatal_on_error ''failed to start relay service'') (Start ethDial config)) (\<lambda>rpcs.
     let grpcServer = NewGrpcServer emitter in
     io_bind (io_map (fatal_on_error ''failed to start grpc server'') (GrpcServer_Start G srv config grpcServer))
       (\<lambda>(grpcServer, clients).
     io_ret (relayService, rpcs, grpcServer, clients))))))"

section \<open>What has been started\<close>

text \<open>
  What the program has started. If \<open>main\<close> reaches its endless sleep, then the configuration
  was read, the service is new, the two clients are those of the configured addresses, root first,
  the server is registered under the description of the service and shares its emitter, of capacity
  10000, with the service, and there is one listener per configured relayer, in order.
\<close>

theorem relayer_main_started:
  assumes "relayer_main C V stat emitterNew lru ethDial G srv w = (Ret (s, (rootRpc, childRpc), server, clients), w')"
  shows "\<exists>v config w1 w2. newViper V stat = Ret v \<and> configFromViper C V v = Ret config
      \<and> NewRelayService lru = Ret s
      \<and> ethDial (RpcUrl (Root config)) w = (Ret rootRpc, w1) \<and> ethDial (RpcUrl (Child config)) w1 = (Ret childRpc, w2)
      \<and> srvEmitter server = emitterNew 10000
      \<and> srvServer server = Some (grRegister G RelayHub_ServiceDesc srv (grNewServer G))
      \<and> map fst clients = RelayerUrls (Relayer config)"
proof -
  have started: "io_map (fatal_on_error msg) m w = (Ret x, w') \<longleftrightarrow> m w = (Ret x, w')"
    for msg and m :: "('x, 'y) io" and w x w'
    by (auto simp: io_map_def split: prod.splits)
  obtain v config w1 w2 where up: "newViper V stat = Ret v" "configFromViper C V v = Ret config"
    "NewRelayService lru = Ret s" "ethDial (RpcUrl (Root config)) w = (Ret rootRpc, w1)"
    "ethDial (RpcUrl (Child config)) w1 = (Ret childRpc, w2)"
    and start: "GrpcServer_Start G srv config (NewGrpcServer (emitterNew 10000)) w2 = (Ret (server, clients), w')"
    using assms unfolding relayer_main_def Start_def newEmitter_def
    by (fastforce simp: io_inv started Let_def)
  from up GrpcServer_started [OF start] show ?thesis
    by blast
qed

definition sample_settings :: "(string \<times> string) list viper_lib" where
  "sample_settings = sample_viper\<lparr>viperNew := [(''relayer.private-key'', ''12'')],
     viperGetStringSlice := (\<lambda>v k. [''relayer-2:6565''])\<rparr>"

lemma sample_main:
  "\<exists>s rpcs server clients. relayer_main sample_crypto sample_settings (\<lambda>f. Fail (LibError ''missing'')) id sample_lru
       (\<lambda>url. io_ret (sample_rpc 56)) sample_grpc UnimplementedRelayHubServer_SignCheckpointProof ()
     = (Ret (s, rpcs, server, clients), ())"
  by (simp add: relayer_main_def newViper_def readFromFile_def sample_settings_def sample_viper_def configFromViper_def
      sample_crypto_def must_def chainFromViper_def sample_service_start Start_def GrpcServer_Start_def sample_grpc_def
      Let_def io_bind_def io_map_def io_lift_def io_ret_def NewRelayHubClient_def)

theorem relayer_main_started_witness:
  "\<exists>s rpcs server clients. relayer_main sample_crypto sample_settings (\<lambda>f. Fail (LibError ''missing'')) id sample_lru
       (\<lambda>url. io_ret (sample_rpc 56)) sample_grpc UnimplementedRelayHubServer_SignCheckpointProof ()
     = (Ret (s, rpcs, server, clients), ()) \<and> srvEmitter server = 10000"
proof -
  obtain s rpcs server clients where run: "relayer_main sample_crypto sample_settings (\<lambda>f. Fail (LibError ''missing''))
       id sample_lru (\<lambda>url. io_ret (sample_rpc 56)) sample_grpc UnimplementedRelayHubServer_SignCheckpointProof ()
     = (Ret (s, rpcs, server, clients), ())"
    using sample_main by blast
  obtain rootRpc childRpc where rpcs: "rpcs = (rootRpc, childRpc)" by (cases rpcs)
  show ?thesis
    using relayer_main_started [OF run [unfolded rpcs]] run by fastforce
qed

end
