(* ===== verification/Events.thy ===== *)
theory Events
  imports Binding
begin

text \<open>
  The two events of the hub contract in its Go binding (\<open>relayer/abigen/basrelayhub.go\<close>, second part):
  the iterators over past logs, the subscriptions to new ones, and the parsers. The code has one copy
  of everything per event, and so has the model; what they share is proved once, in the locales
  \<open>log_iterator\<close> and \<open>log_watcher\<close>, which both copies interpret.

  An iterator holds its channel of logs as the list of those that wait in it. A \<open>select\<close> takes one of
  the cases that are ready; the argument \<open>pick\<close> says which if both are. A call that blocks is \<open>None\<close>.
\<close>

section \<open>Selecting between logs and errors\<close>

datatype selected = TakeLog raw_log "raw_log list" | TakeErr "go_error option" subscription | NothingReady

text \<open>An error is received once, then the channel is closed.\<close>

definition select_feed :: "bool \<Rightarrow> raw_log list \<Rightarrow> subscription \<Rightarrow> selected" where
  "select_feed pick logs sub =
     (case (logs, subErr sub) of
        ([], None) \<Rightarrow> NothingReady
      | (msg # rest, None) \<Rightarrow> TakeLog msg rest
      | ([], Some err) \<Rightarrow> TakeErr err (sub\<lparr>subErr := Some None\<rparr>)
      | (msg # rest, Some err) \<Rightarrow>
          if pick then TakeLog msg rest else TakeErr err (sub\<lparr>subErr := Some None\<rparr>))"

text \<open>\<open>for _, chainIdItem := range chainId { chainIdRule = append(chainIdRule, chainIdItem) }\<close>\<close>

definition chainIdRule :: "int list \<Rightarrow> go_val list" where
  "chainIdRule chainId = fold (\<lambda>item rule. rule @ [VBig item]) chainId []"

section \<open>ChainRegistered\<close>

definition new_ChainRegistered :: RelayHubChainRegistered where
  "new_ChainRegistered = \<lparr>crChainId = None, crInitValidatorSet = [], crRaw = new_log\<rparr>"

record 'w RelayHubChainRegisteredIterator =
  criEvent :: "RelayHubChainRegistered option"
  criContract :: "'w bound_contract"
  criName :: string
  criLogs :: "raw_log list"
  criSub :: subscription
  criDone :: bool
  criFail :: "go_error option"

text \<open>What each of the three cases that receive a log does with it.\<close>

definition ChainRegistered_receive ::
    "raw_log \<Rightarrow> 'w RelayHubChainRegisteredIterator \<Rightarrow> bool outcome \<times> 'w RelayHubChainRegisteredIterator" where
  "ChainRegistered_receive msg it =
     (case bcUnpackChainRegistered (criContract it) new_ChainRegistered (criName it) msg of
        (Ret _, ev) \<Rightarrow> (Ret True, it\<lparr>criEvent := Some (ev\<lparr>crRaw := msg\<rparr>)\<rparr>)
      | (Fail err, ev) \<Rightarrow> (Ret False, it\<lparr>criEvent := Some ev, criFail := Some err\<rparr>)
      | (Panic p, ev) \<Rightarrow> (Panic p, it\<lparr>criEvent := Some ev\<rparr>)
      | (Exit m, ev) \<Rightarrow> (Exit m, it\<lparr>criEvent := Some ev\<rparr>))"

function ChainRegistered_Next ::
    "bool \<Rightarrow> 'w RelayHubChainRegisteredIterator \<Rightarrow> (bool outcome \<times> 'w RelayHubChainRegisteredIterator) option" where
  "ChainRegistered_Next pick it =
     (if criFail it \<noteq> None then Some (Ret False, it)
      else if criDone it then
        (case criLogs it of
           msg # rest \<Rightarrow> Some (ChainRegistered_receive msg (it\<lparr>criLogs := rest\<rparr>))
         | [] \<Rightarrow> Some (Ret False, it))
      else
        (case select_feed pick (criLogs it) (criSub it) of
           TakeLog msg rest \<Rightarrow> Some (ChainRegistered_receive msg (it\<lparr>criLogs := rest\<rparr>))
         | TakeErr err sub \<Rightarrow> ChainRegistered_Next pick (it\<lparr>criSub := sub, criDone := True, criFail := err\<rparr>)
         | NothingReady \<Rightarrow> None))"
  by pat_completeness auto

termination by (relation "measure (\<lambda>(pick, it). if criDone it then 0 else 1)") auto

definition ChainRegistered_Error :: "'w RelayHubChainRegisteredIterator \<Rightarrow> go_error option" where
  "ChainRegistered_Error it = criFail it"

text \<open>\<open>unsubscribe\<close> is \<open>Unsubscribe\<close> of the event package.\<close>

definition ChainRegistered_Close ::
    "(subscription \<Rightarrow> subscription) \<Rightarrow> 'w RelayHubChainRegisteredIterator \<Rightarrow>
     unit outcome \<times> 'w RelayHubChainRegisteredIterator" where
  "ChainRegistered_Close unsubscribe it = (Ret (), it\<lparr>criSub := unsubscribe (criSub it)\<rparr>)"

definition FilterChainRegistered ::
    "'w RelayHubFilterer \<Rightarrow> filter_opts \<Rightarrow> int list \<Rightarrow> ('w, 'w RelayHubChainRegisteredIterator) io" where
  "FilterChainRegistered hub opts chainId =
     io_bind (bcFilterLogs (filtererContract hub) opts ''ChainRegistered'' [chainIdRule chainId]) (\<lambda>(logs, sub).
     io_ret \<lparr>criEvent = None, criContract = filtererContract hub, criName = ''ChainRegistered'',
             criLogs = logs, criSub = sub, criDone = False, criFail = None\<rparr>)"

definition ParseChainRegistered :: "'w RelayHubFilterer \<Rightarrow> raw_log \<Rightarrow> RelayHubChainRegistered outcome" where
  "ParseChainRegistered hub msg =
     (case bcUnpackChainRegistered (filtererContract hub) new_ChainRegistered ''ChainRegistered'' msg of
        (Ret _, ev) \<Rightarrow> Ret (ev\<lparr>crRaw := msg\<rparr>)
      | (Fail err, ev) \<Rightarrow> Fail err
      | (Panic p, ev) \<Rightarrow> Panic p
      | (Exit m, ev) \<Rightarrow> Exit m)"

text \<open>
  A subscription runs its loop in a goroutine. The choices say what each \<open>select\<close> takes: a log, and
  then whether the sink takes the event; an error of the source; or the end of the subscription. The
  result holds the events that the sink has taken, what the loop has returned (\<open>None\<close> while it runs)
  and the subscription to the source, cancelled by the deferred call when the loop is left.
\<close>

datatype sink_choice = SinkTakes | SinkErr "go_error option" | SinkQuit
datatype watch_choice = LogArrives raw_log sink_choice | SourceErr "go_error option" | Quit

fun returned_error :: "go_error option \<Rightarrow> unit outcome" where
  "returned_error None = Ret ()"
| "returned_error (Some e) = Fail e"

fun watch_ChainRegistered_loop ::
    "'w bound_contract \<Rightarrow> watch_choice list \<Rightarrow> RelayHubChainRegistered list \<Rightarrow>
     RelayHubChainRegistered list \<times> unit outcome option" where
  "watch_ChainRegistered_loop contract [] sink = (sink, None)"
| "watch_ChainRegistered_loop contract (LogArrives msg choice # choices) sink =
     (case bcUnpackChainRegistered contract new_ChainRegistered ''ChainRegistered'' msg of
        (Ret _, ev) \<Rightarrow>
          (case choice of
             SinkTakes \<Rightarrow> watch_ChainRegistered_loop contract choices (sink @ [ev\<lparr>crRaw := msg\<rparr>])
           | SinkErr err \<Rightarrow> (sink, Some (returned_error err))
           | SinkQuit \<Rightarrow> (sink, Some (Ret ())))
      | (Fail err, ev) \<Rightarrow> (sink, Some (Fail err))
      | (Panic p, ev) \<Rightarrow> (sink, Some (Panic p))
      | (Exit m, ev) \<Rightarrow> (sink, Some (Exit m)))"
| "watch_ChainRegistered_loop contract (SourceErr err # choices) sink = (sink, Some (returned_error err))"
| "watch_ChainRegistered_loop contract (Quit # choices) sink = (sink, Some (Ret ()))"

definition WatchChainRegistered ::
    "(subscription \<Rightarrow> subscription) \<Rightarrow> 'w RelayHubFilterer \<Rightarrow> watch_opts \<Rightarrow> int list \<Rightarrow>
     ('w, watch_choice list \<Rightarrow> RelayHubChainRegistered list \<times> unit outcome option \<times> subscription) io" where
  "WatchChainRegistered unsubscribe hub opts chainId =
     io_bind (bcWatchLogs (filtererContract hub) opts ''ChainRegistered'' [chainIdRule chainId]) (\<lambda>(logs, sub).
     io_ret (\<lambda>choices. case watch_ChainRegistered_loop (filtererContract hub) choices [] of
       (sink, result) \<Rightarrow> (sink, result, if result = None then sub else unsubscribe sub)))"

section \<open>ValidatorSetUpdated\<close>

definition new_ValidatorSetUpdated :: RelayHubValidatorSetUpdated where
  "new_ValidatorSetUpdated = \<lparr>vsChainId = None, vsNewValidatorSet = [], vsRaw = new_log\<rparr>"

record 'w RelayHubValidatorSetUpdatedIterator =
  vsiEvent :: "RelayHubValidatorSetUpdated option"
  vsiContract :: "'w bound_contract"
  vsiName :: string
  vsiLogs :: "raw_log list"
  vsiSub :: subscription
  vsiDone :: bool
  vsiFail :: "go_error option"

definition ValidatorSetUpdated_receive ::
    "raw_log \<Rightarrow> 'w RelayHubValidatorSetUpdatedIterator \<Rightarrow> bool outcome \<times> 'w RelayHubValidatorSetUpdatedIterator" where
  "ValidatorSetUpdated_receive msg it =
     (case bcUnpackValidatorSetUpdated (vsiContract it) new_ValidatorSetUpdated (vsiName it) msg of
        (Ret _, ev) \<Rightarrow> (Ret True, it\<lparr>vsiEvent := Some (ev\<lparr>vsRaw := msg\<rparr>)\<rparr>)
      | (Fail err, ev) \<Rightarrow> (Ret False, it\<lparr>vsiEvent := Some ev, vsiFail := Some err\<rparr>)
      | (Panic p, ev) \<Rightarrow> (Panic p, it\<lparr>vsiEvent := Some ev\<rparr>)
      | (Exit m, ev) \<Rightarrow> (Exit m, it\<lparr>vsiEvent := Some ev\<rparr>))"

function ValidatorSetUpdated_Next ::
    "bool \<Rightarrow> 'w RelayHubValidatorSetUpdatedIterator \<Rightarrow> (bool outcome \<times> 'w RelayHubValidatorSetUpdatedIterator) option" where
  "ValidatorSetUpdated_Next pick it =
     (if vsiFail it \<noteq> None then Some (Ret False, it)
      else if vsiDone it then
        (case vsiLogs it of
           msg # rest \<Rightarrow> Some (ValidatorSetUpdated_receive msg (it\<lparr>vsiLogs := rest\<rparr>))
         | [] \<Rightarrow> Some (Ret False, it))
      else
        (case select_feed pick (vsiLogs it) (vsiSub it) of
           TakeLog msg rest \<Rightarrow> Some (ValidatorSetUpdated_receive msg (it\<lparr>vsiLogs := rest\<rparr>))
         | TakeErr err sub \<Rightarrow> ValidatorSetUpdated_Next pick (it\<lparr>vsiSub := sub, vsiDone := True, vsiFail := err\<rparr>)
         | NothingReady \<Rightarrow> None))"
  by pat_completeness auto

termination by (relation "measure (\<lambda>(pick, it). if vsiDone it then 0 else 1)") auto

definition ValidatorSetUpdated_Error :: "'w RelayHubValidatorSetUpdatedIterator \<Rightarrow> go_error option" where
  "ValidatorSetUpdated_Error it = vsiFail it"

definition ValidatorSetUpdated_Close ::
    "(subscription \<Rightarrow> subscription) \<Rightarrow> 'w RelayHubValidatorSetUpdatedIterator \<Rightarrow>
     unit outcome \<times> 'w RelayHubValidatorSetUpdatedIterator" where
  "ValidatorSetUpdated_Close unsubscribe it = (Ret (), it\<lparr>vsiSub := unsubscribe (vsiSub it)\<rparr>)"

definition FilterValidatorSetUpdated ::
    "'w RelayHubFilterer \<Rightarrow> filter_opts \<Rightarrow> int list \<Rightarrow> ('w, 'w RelayHubValidatorSetUpdatedIterator) io" where
  "FilterValidatorSetUpdated hub opts chainId =
     io_bind (bcFilterLogs (filtererContract hub) opts ''ValidatorSetUpdated'' [chainIdRule chainId]) (\<lambda>(logs, sub).
     io_ret \<lparr>vsiEvent = None, vsiContract = filtererContract hub, vsiName = ''ValidatorSetUpdated'',
             vsiLogs = logs, vsiSub = sub, vsiDone = False, vsiFail = None\<rparr>)"

definition ParseValidatorSetUpdated :: "'w RelayHubFilterer \<Rightarrow> raw_log \<Rightarrow> RelayHubValidatorSetUpdated outcome" where
  "ParseValidatorSetUpdated hub msg =
     (case bcUnpackValidatorSetUpdated (filtererContract hub) new_ValidatorSetUpdated ''ValidatorSetUpdated'' msg of
        (Ret _, ev) \<Rightarrow> Ret (ev\<lparr>vsRaw := msg\<rparr>)
      | (Fail err, ev) \<Rightarrow> Fail err
      | (Panic p, ev) \<Rightarrow> Panic p
      | (Exit m, ev) \<Rightarrow> Exit m)"

fun watch_ValidatorSetUpdated_loop ::
    "'w bound_contract \<Rightarrow> watch_choice list \<Rightarrow> RelayHubValidatorSetUpdated list \<Rightarrow>
     RelayHubValidatorSetUpdated list \<times> unit outcome option" where
  "watch_ValidatorSetUpdated_loop contract [] sink = (sink, None)"
| "watch_ValidatorSetUpdated_loop contract (LogArrives msg choice # choices) sink =
     (case bcUnpackValidatorSetUpdated contract new_ValidatorSetUpdated ''ValidatorSetUpdated'' msg of
        (Ret _, ev) \<Rightarrow>
          (case choice of
             SinkTakes \<Rightarrow> watch_ValidatorSetUpdated_loop contract choices (sink @ [ev\<lparr>vsRaw := msg\<rparr>])
           | SinkErr err \<Rightarrow> (sink, Some (returned_error err))
           | SinkQuit \<Rightarrow> (sink, Some (Ret ())))
      | (Fail err, ev) \<Rightarrow> (sink, Some (Fail err))
      | (Panic p, ev) \<Rightarrow> (sink, Some (Panic p))
      | (Exit m, ev) \<Rightarrow> (sink, Some (Exit m)))"
| "watch_ValidatorSetUpdated_loop contract (SourceErr err # choices) sink = (sink, Some (returned_error err))"
| "watch_ValidatorSetUpdated_loop contract (Quit # choices) sink = (sink, Some (Ret ()))"

definition WatchValidatorSetUpdated ::
    "(subscription \<Rightarrow> subscription) \<Rightarrow> 'w RelayHubFilterer \<Rightarrow> watch_opts \<Rightarrow> int list \<Rightarrow>
     ('w, watch_choice list \<Rightarrow> RelayHubValidatorSetUpdated list \<times> unit outcome option \<times> subscription) io" where
  "WatchValidatorSetUpdated unsubscribe hub opts chainId =
     io_bind (bcWatchLogs (filtererContract hub) opts ''ValidatorSetUpdated'' [chainIdRule chainId]) (\<lambda>(logs, sub).
     io_ret (\<lambda>choices. case watch_ValidatorSetUpdated_loop (filtererContract hub) choices [] of
       (sink, result) \<Rightarrow> (sink, result, if result = None then sub else unsubscribe sub)))"

section \<open>The contract of an iterator\<close>

text \<open>
  What a client of an iterator sees: it calls \<open>Next\<close> until that returns false and takes the event after
  each true. Between its calls logs arrive and the source ends, as the trace says; a call that blocks
  is retried at the next call of the trace. The result holds the events taken and, if the loop is
  over, what the last call returned.
\<close>

datatype feed_event = Arrives raw_log | Ends "go_error option" | Calls bool

fun client_loop ::
    "(bool \<Rightarrow> 'it \<Rightarrow> (bool outcome \<times> 'it) option) \<Rightarrow> ('it \<Rightarrow> 'ev option) \<Rightarrow> (raw_log \<Rightarrow> 'it \<Rightarrow> 'it) \<Rightarrow>
     (go_error option \<Rightarrow> 'it \<Rightarrow> 'it) \<Rightarrow> feed_event list \<Rightarrow> 'it \<Rightarrow> 'ev option list \<times> bool outcome option \<times> 'it" where
  "client_loop nxt event arrive finish [] it = ([], None, it)"
| "client_loop nxt event arrive finish (Arrives l # t) it = client_loop nxt event arrive finish t (arrive l it)"
| "client_loop nxt event arrive finish (Ends e # t) it = client_loop nxt event arrive finish t (finish e it)"
| "client_loop nxt event arrive finish (Calls p # t) it =
     (case nxt p it of
        None \<Rightarrow> client_loop nxt event arrive finish t it
      | Some (Ret True, it') \<Rightarrow>
          (case client_loop nxt event arrive finish t it' of (evs, r, it'') \<Rightarrow> (event it' # evs, r, it''))
      | Some (r, it') \<Rightarrow> ([], Some r, it'))"

fun arrivals :: "feed_event list \<Rightarrow> raw_log list" where
  "arrivals [] = []"
| "arrivals (Arrives l # t) = l # arrivals t"
| "arrivals (_ # t) = arrivals t"

text \<open>A source delivers nothing after its end: \<open>over\<close> says whether it has ended before the trace.\<close>

fun proper :: "bool \<Rightarrow> feed_event list \<Rightarrow> bool" where
  "proper over [] = True"
| "proper over (Arrives l # t) = (\<not> over \<and> proper over t)"
| "proper over (Ends e # t) = proper True t"
| "proper over (Calls p # t) = proper over t"

fun failures :: "feed_event list \<Rightarrow> go_error set" where
  "failures [] = {}"
| "failures (Ends (Some e) # t) = insert e (failures t)"
| "failures (_ # t) = failures t"

text \<open>
  The promise of such a loop. With the logs that wait and the end of the source at its beginning
  (\<open>end\<close>), the events taken are those of the first logs, in order, each decoded. If \<open>Next\<close> has
  returned false without an error, no log is left; with one, the error is the source's or that of
  decoding the next log.
\<close>

definition explained ::
    "(raw_log \<Rightarrow> 'ev outcome) \<Rightarrow> go_error option option \<Rightarrow> feed_event list \<Rightarrow> raw_log list \<Rightarrow> go_error option \<Rightarrow> bool" where
  "explained dec end t rest failure \<longleftrightarrow>
     (case failure of
        None \<Rightarrow> proper (end \<noteq> None) t \<longrightarrow> rest = []
      | Some e \<Rightarrow> end = Some (Some e) \<or> e \<in> failures t \<or> (\<exists>l ls. rest = l # ls \<and> dec l = Fail e))"

definition undecodable :: "(raw_log \<Rightarrow> 'ev outcome) \<Rightarrow> raw_log list \<Rightarrow> bool outcome option \<Rightarrow> bool" where
  "undecodable dec rest r \<longleftrightarrow>
     (\<forall>x. r = Some x \<longrightarrow> x \<noteq> Ret False \<longrightarrow> (\<exists>l ls. rest = l # ls \<and> (\<forall>ev. dec l \<noteq> Ret ev)))"

definition loop_promise ::
    "(raw_log \<Rightarrow> 'ev outcome) \<Rightarrow> raw_log list \<Rightarrow> go_error option option \<Rightarrow> feed_event list \<Rightarrow>
     'ev option list \<Rightarrow> bool outcome option \<Rightarrow> go_error option \<Rightarrow> bool" where
  "loop_promise dec logs end t evs r failure \<longleftrightarrow>
     (\<exists>taken rest. logs @ arrivals t = taken @ rest
        \<and> list_all2 (\<lambda>l ev. \<exists>x. dec l = Ret x \<and> ev = Some x) taken evs
        \<and> (r = Some (Ret False) \<longrightarrow> explained dec end t rest failure)
        \<and> undecodable dec rest r)"

lemma promise_mono:
  assumes "loop_promise dec logs end t evs r failure" and "logs @ arrivals t = logs' @ arrivals t'"
    and "\<And>rest. explained dec end t rest failure \<Longrightarrow> explained dec end' t' rest failure"
  shows "loop_promise dec logs' end' t' evs r failure"
  using assms(1) unfolding loop_promise_def assms(2) by (blast intro: assms(3))

lemma promise_arrives:
  "loop_promise dec (logs @ [l]) end t evs r failure \<Longrightarrow> loop_promise dec logs end (Arrives l # t) evs r failure"
  by (erule promise_mono) (auto simp: explained_def split: option.splits)

lemma promise_ends:
  "loop_promise dec logs (if end = None then Some e else end) t evs r failure \<Longrightarrow>
   loop_promise dec logs end (Ends e # t) evs r failure"
  by (erule promise_mono; cases e) (auto simp: explained_def split: option.splits if_splits)

lemma promise_calls: "loop_promise dec logs end t evs r failure \<Longrightarrow> loop_promise dec logs end (Calls p # t) evs r failure"
  by (erule promise_mono) (auto simp: explained_def split: option.splits)

lemma promise_taken:
  assumes "loop_promise dec ls end' t evs r failure" and "dec l = Ret ev"
    and "end' = None \<longleftrightarrow> end = None" and "\<And>e. end' = Some (Some e) \<Longrightarrow> end = Some (Some e)"
  shows "loop_promise dec (l # ls) end t (Some ev # evs) r failure"
proof -
  obtain taken rest where split: "ls @ arrivals t = taken @ rest"
    "list_all2 (\<lambda>l ev. \<exists>x. dec l = Ret x \<and> ev = Some x) taken evs"
    "r = Some (Ret False) \<longrightarrow> explained dec end' t rest failure"
    "undecodable dec rest r"
    using assms(1) unfolding loop_promise_def by blast
  have "r = Some (Ret False) \<longrightarrow> explained dec end t rest failure"
    using split(3) assms(3,4) by (auto simp: explained_def split: option.splits)
  then show ?thesis
    using split(1,2,4) assms(2) unfolding loop_promise_def by (intro exI [of _ "l # taken"] exI [of _ rest]) simp
qed

lemma promise_over:
  "(r = Some (Ret False) \<Longrightarrow> explained dec end t (logs @ arrivals t) failure) \<Longrightarrow>
   (\<And>x. r = Some x \<Longrightarrow> x \<noteq> Ret False \<Longrightarrow> \<exists>l ls. logs = l # ls \<and> (\<forall>ev. dec l \<noteq> Ret ev)) \<Longrightarrow>
   loop_promise dec logs end t [] r failure"
  unfolding loop_promise_def by (intro exI [of _ "[]"] exI [of _ "logs @ arrivals t"]) (auto simp: undecodable_def)

lemma proper_over: "proper True t \<Longrightarrow> arrivals t = []"
  by (induction "True" t rule: proper.induct) auto

locale log_iterator =
  fixes nxt :: "bool \<Rightarrow> 'it \<Rightarrow> (bool outcome \<times> 'it) option"
    and event :: "'it \<Rightarrow> 'ev option"
    and arrive :: "raw_log \<Rightarrow> 'it \<Rightarrow> 'it"
    and finish :: "go_error option \<Rightarrow> 'it \<Rightarrow> 'it"
    and waiting :: "'it \<Rightarrow> raw_log list"
    and ended :: "'it \<Rightarrow> go_error option option"
    and failed :: "'it \<Rightarrow> go_error option"
    and decode :: "'it \<Rightarrow> raw_log \<Rightarrow> 'ev outcome"
    and good :: "'it \<Rightarrow> bool"
  assumes blocks: "good it \<Longrightarrow> nxt p it = None \<longleftrightarrow> failed it = None \<and> waiting it = [] \<and> ended it = None"
    and returns: "good it \<Longrightarrow> failed it = None \<Longrightarrow> nxt p it = Some (r, it') \<Longrightarrow>
      good it' \<and> decode it' = decode it \<and> (ended it' = None \<longleftrightarrow> ended it = None) \<and>
      (\<forall>e. ended it' = Some (Some e) \<longrightarrow> ended it = Some (Some e)) \<and>
      ((\<exists>l ls ev. waiting it = l # ls \<and> waiting it' = ls \<and> decode it l = Ret ev \<and> r = Ret True
           \<and> event it' = Some ev \<and> failed it' = None)
       \<or> (\<exists>l ls e. waiting it = l # ls \<and> decode it l = Fail e \<and> r = Ret False \<and> failed it' = Some e)
       \<or> (\<exists>l ls. waiting it = l # ls \<and> (\<forall>b. r \<noteq> Ret b) \<and> (\<forall>ev. decode it l \<noteq> Ret ev))
       \<or> (waiting it = [] \<and> ended it \<noteq> None \<and> r = Ret False \<and> failed it' = None)
       \<or> (\<exists>e. ended it = Some (Some e) \<and> r = Ret False \<and> failed it' = Some e))"
    and arriving: "good it \<Longrightarrow> good (arrive l it) \<and> waiting (arrive l it) = waiting it @ [l]
      \<and> ended (arrive l it) = ended it \<and> failed (arrive l it) = failed it \<and> decode (arrive l it) = decode it"
    and finishing: "good it \<Longrightarrow> good (finish e it) \<and> waiting (finish e it) = waiting it
      \<and> ended (finish e it) = (if ended it = None then Some e else ended it)
      \<and> failed (finish e it) = failed it \<and> decode (finish e it) = decode it"
begin

abbreviation run :: "feed_event list \<Rightarrow> 'it \<Rightarrow> 'ev option list \<times> bool outcome option \<times> 'it" where
  "run \<equiv> client_loop nxt event arrive finish"

text \<open>One call that does not block.\<close>

lemma call_promise:
  assumes "good it" and "failed it = None" and "nxt p it = Some (b, it1)"
    and "run (Calls p # t) it = (evs, r, it')"
    and IH: "\<And>evs1. run t it1 = (evs1, r, it') \<Longrightarrow> good it1 \<Longrightarrow> failed it1 = None \<Longrightarrow>
               loop_promise (decode it1) (waiting it1) (ended it1) t evs1 r (failed it')"
  shows "loop_promise (decode it) (waiting it) (ended it) t evs r (failed it')"
proof (cases "b = Ret True")
  case True
  note step = returns [OF assms(1-3)]
  obtain evs1 where rest: "run t it1 = (evs1, r, it')" "evs = event it1 # evs1"
    using assms(3,4) True by (auto split: prod.splits)
  obtain l ls ev where l: "waiting it = l # ls" "waiting it1 = ls" "decode it l = Ret ev"
    "event it1 = Some ev" "failed it1 = None"
    using step True by auto
  have "loop_promise (decode it) ls (ended it1) t evs1 r (failed it')"
    using IH [OF rest(1)] step l by simp
  then show ?thesis
    using promise_taken [of "decode it" ls "ended it1" t evs1 r "failed it'" l ev "ended it"] step l rest(2) by simp
next
  case False
  then have "evs = []" "r = Some b" "it' = it1"
    using assms(3,4) by (auto split: outcome.splits bool.splits)
  moreover have "explained (decode it) (ended it) t (waiting it @ arrivals t) (failed it1)" if "b = Ret False"
    using returns [OF assms(1-3)] that by (auto simp: explained_def proper_over)
  moreover have "\<exists>l ls. waiting it = l # ls \<and> (\<forall>ev. decode it l \<noteq> Ret ev)" if "b \<noteq> Ret False"
    using returns [OF assms(1-3)] that False by auto
  ultimately show ?thesis
    by (auto intro: promise_over)
qed

lemma run_promise:
  assumes "good it" and "failed it = None" and "run t it = (evs, r, it')"
  shows "loop_promise (decode it) (waiting it) (ended it) t evs r (failed it')"
  using assms
proof (induction t arbitrary: it evs r)
  case Nil
  then show ?case by (auto intro: promise_over)
next
  case (Cons x t)
  show ?case
  proof (cases x)
    case (Arrives l)
    then show ?thesis
      using Cons.IH [of "arrive l it" evs r] Cons.prems arriving [of it l] by (simp add: promise_arrives)
  next
    case (Ends e)
    then show ?thesis
      using Cons.IH [of "finish e it" evs r] Cons.prems finishing [of it e] by (simp add: promise_ends)
  next
    case (Calls p)
    show ?thesis
    proof (cases "nxt p it")
      case None
      then show ?thesis
        using Cons.IH [of it evs r] Cons.prems Calls by (simp add: promise_calls)
    next
      case (Some res)
      obtain b it1 where res: "nxt p it = Some (b, it1)" using Some by (cases res) simp
      show ?thesis
        using call_promise [OF Cons.prems(1,2) res] Cons.prems(3) Cons.IH by (simp add: Calls promise_calls)
    qed
  qed
qed

text \<open>Once the source has ended, one call more than there are logs ends the loop.\<close>

lemma run_returns:
  "good it \<Longrightarrow> failed it = None \<Longrightarrow> ended it \<noteq> None \<Longrightarrow> length (waiting it) < length ps \<Longrightarrow>
   \<exists>evs r it'. run (map Calls ps) it = (evs, Some r, it')"
proof (induction ps arbitrary: it)
  case (Cons p ps)
  obtain b it1 where res: "nxt p it = Some (b, it1)"
    using blocks [OF Cons.prems(1), of p] Cons.prems(3) by (cases "nxt p it") auto
  note step = returns [OF Cons.prems(1,2) res]
  show ?case
  proof (cases "b = Ret True")
    case True
    then have "\<exists>evs r it'. run (map Calls ps) it1 = (evs, Some r, it')"
      using Cons.IH [of it1] Cons.prems step by auto
    then show ?thesis using res True by auto
  next
    case False
    then show ?thesis using res by (auto split: outcome.splits bool.splits)
  qed
qed simp

lemma run_arrivals: "run (map Arrives ls @ t) it = run t (fold arrive ls it)"
  by (induction ls arbitrary: it) auto

lemma fold_arrive:
  "good it \<Longrightarrow> good (fold arrive ls it) \<and> waiting (fold arrive ls it) = waiting it @ ls
     \<and> ended (fold arrive ls it) = ended it \<and> failed (fold arrive ls it) = failed it
     \<and> decode (fold arrive ls it) = decode it"
  using arriving by (induction ls arbitrary: it) auto

lemma run_drains:
  assumes "good it" and "failed it = None" and "length (waiting it) + length ls < length ps"
  shows "\<exists>evs r it'. run (map Arrives ls @ Ends e # map Calls ps) it = (evs, Some r, it')"
proof -
  let ?it = "finish e (fold arrive ls it)"
  have "good ?it \<and> failed ?it = None \<and> ended ?it \<noteq> None \<and> waiting ?it = waiting it @ ls"
    using fold_arrive [OF assms(1), of ls] finishing [of "fold arrive ls it" e] assms(2) by simp
  then show ?thesis
    using run_returns [of ?it ps] assms(3) by (simp add: run_arrivals)
qed

text \<open>If moreover every log decodes and the source ends without an error, the events are all there.\<close>

lemma run_complete:
  assumes "good it" and "failed it = None" and "ended it = None" and "length (waiting it) + length ls < length ps"
    and decode: "list_all2 (\<lambda>l ev. decode it l = Ret ev) (waiting it @ ls) evs"
  shows "\<exists>it'. run (map Arrives ls @ Ends None # map Calls ps) it = (map Some evs, Some (Ret False), it') \<and> failed it' = None"
proof -
  let ?t = "map Arrives ls @ Ends None # map Calls ps"
  obtain es r it' where run: "run ?t it = (es, Some r, it')"
    using run_drains [OF assms(1,2,4)] by blast
  have calls: "arrivals (map Calls ps) = []" "failures (map Calls ps) = {}" "proper b (map Calls ps)" for b
    by (induction ps) auto
  have trace: "arrivals ?t = ls" "proper False ?t" "failures ?t = {}"
    by (induction ls) (auto simp: calls)
  obtain taken rest where split: "waiting it @ ls = taken @ rest"
    "list_all2 (\<lambda>l ev. \<exists>x. decode it l = Ret x \<and> ev = Some x) taken es"
    "r = Ret False \<longrightarrow> explained (decode it) None ?t rest (failed it')"
    "r \<noteq> Ret False \<longrightarrow> (\<exists>l ls. rest = l # ls \<and> (\<forall>ev. decode it l \<noteq> Ret ev))"
    using run_promise [OF assms(1,2) run] assms(3) trace(1) unfolding loop_promise_def undecodable_def by auto
  have good: "\<exists>ev. decode it l = Ret ev" if "l \<in> set (taken @ rest)" for l
    using decode that unfolding split(1) list_all2_conv_all_nth in_set_conv_nth by fastforce
  then have "r = Ret False"
    using split(4) by fastforce
  moreover have "decode it l \<noteq> Fail e" if "rest = l # ls" for l ls e
    using good [of l] that by auto
  ultimately have "rest = [] \<and> failed it' = None"
    using split(3) by (auto simp: explained_def trace split: option.splits)
  moreover from this have "es = map Some evs"
    using split(1,2) decode by (auto simp: list_all2_conv_all_nth intro!: nth_equalityI)
  ultimately show ?thesis
    using run \<open>r = Ret False\<close> by blast
qed

end

section \<open>Both iterators meet the contract\<close>

definition ChainRegistered_arrive ::
    "raw_log \<Rightarrow> 'w RelayHubChainRegisteredIterator \<Rightarrow> 'w RelayHubChainRegisteredIterator" where
  "ChainRegistered_arrive l it = it\<lparr>criLogs := criLogs it @ [l]\<rparr>"

definition ChainRegistered_finish ::
    "go_error option \<Rightarrow> 'w RelayHubChainRegisteredIterator \<Rightarrow> 'w RelayHubChainRegisteredIterator" where
  "ChainRegistered_finish e it = (if subErr (criSub it) = None then it\<lparr>criSub := \<lparr>subErr = Some e\<rparr>\<rparr> else it)"

definition ChainRegistered_good :: "'w RelayHubChainRegisteredIterator \<Rightarrow> bool" where
  "ChainRegistered_good it \<longleftrightarrow> criName it = ''ChainRegistered'' \<and> (criDone it \<longrightarrow> subErr (criSub it) \<noteq> None)"

lemma ChainRegistered_receive_cases:
  assumes "criName it = ''ChainRegistered''" and "ChainRegistered_receive l it = (r, it')"
  shows "criLogs it' = criLogs it \<and> criSub it' = criSub it \<and> criDone it' = criDone it
    \<and> criName it' = criName it \<and> criContract it' = criContract it
    \<and> (case ParseChainRegistered \<lparr>filtererContract = criContract it\<rparr> l of
         Ret ev \<Rightarrow> r = Ret True \<and> criEvent it' = Some ev \<and> criFail it' = criFail it
       | Fail e \<Rightarrow> r = Ret False \<and> criFail it' = Some e
       | _ \<Rightarrow> \<forall>b. r \<noteq> Ret b)"
  using assms
  by (auto simp: ChainRegistered_receive_def ParseChainRegistered_def split: prod.splits outcome.splits)

text \<open>A call that returns has received the first log, with the subscription as it was or just found
  closed, or has found no log after the end, or has received an error of the source.\<close>

lemma ChainRegistered_Next_cases:
  assumes "ChainRegistered_good it" and "criFail it = None" and "ChainRegistered_Next p it = Some (r, it')"
  shows "(\<exists>l ls it0. criLogs it = l # ls \<and> (ChainRegistered_receive l it0 = (r, it'))
            \<and> it0 = it\<lparr>criLogs := ls, criSub := criSub it0, criDone := criDone it0\<rparr>
            \<and> subErr (criSub it0) = subErr (criSub it) \<and> (criDone it0 \<longrightarrow> subErr (criSub it) \<noteq> None))
       \<or> (criLogs it = [] \<and> subErr (criSub it) \<noteq> None \<and> r = Ret False \<and> criFail it' = None
            \<and> ChainRegistered_good it' \<and> criContract it' = criContract it \<and> subErr (criSub it') = subErr (criSub it))
       \<or> (\<exists>e. subErr (criSub it) = Some (Some e) \<and> r = Ret False \<and> criFail it' = Some e
            \<and> ChainRegistered_good it' \<and> criContract it' = criContract it \<and> subErr (criSub it') = Some None)"
  (is "?log \<or> ?end \<or> ?err")
proof (cases "criDone it")
  case True
  then show ?thesis
    using assms by (cases "criLogs it") (auto simp: ChainRegistered_good_def)
next
  case False
  consider (log) l ls where "select_feed p (criLogs it) (criSub it) = TakeLog l ls"
    | (err) e sub where "select_feed p (criLogs it) (criSub it) = TakeErr e sub"
    | (none) "select_feed p (criLogs it) (criSub it) = NothingReady"
    by (cases "select_feed p (criLogs it) (criSub it)") auto
  then show ?thesis
  proof cases
    case log
    then have "criLogs it = l # ls"
      by (auto simp: select_feed_def split: list.splits option.splits if_splits)
    moreover have "ChainRegistered_receive l (it\<lparr>criLogs := ls\<rparr>) = (r, it')"
      using assms log False by simp
    ultimately have ?log
      using False by (intro exI [of _ l] exI [of _ ls] exI [of _ "it\<lparr>criLogs := ls\<rparr>"]) simp
    then show ?thesis ..
  next
    case err
    then have sub: "subErr (criSub it) = Some e" "subErr sub = Some None"
      by (auto simp: select_feed_def split: list.splits option.splits if_splits)
    show ?thesis
    proof (cases e)
      case (Some x)
      then have ?err
        using assms err False sub by (auto simp: ChainRegistered_good_def)
      then show ?thesis by blast
    next
      case None
      then show ?thesis
        using assms err False sub
        by (cases "criLogs it") (auto simp: ChainRegistered_good_def)
    qed
  next
    case none
    then show ?thesis using assms False by simp
  qed
qed

interpretation cr: log_iterator ChainRegistered_Next criEvent ChainRegistered_arrive ChainRegistered_finish
  criLogs "\<lambda>it. subErr (criSub it)" criFail "\<lambda>it. ParseChainRegistered \<lparr>filtererContract = criContract it\<rparr>"
  ChainRegistered_good
proof (unfold_locales, goal_cases)
  case (1 it p)
  then show ?case
    by (auto simp: ChainRegistered_good_def select_feed_def split: list.splits option.splits)
next
  case (2 it p r it')
  note cases = ChainRegistered_Next_cases [OF 2]
  show ?case
    using cases
  proof (elim disjE exE conjE)
    fix l ls it0
    assume l: "criLogs it = l # ls" "ChainRegistered_receive l it0 = (r, it')"
      and it0: "it0 = it\<lparr>criLogs := ls, criSub := criSub it0, criDone := criDone it0\<rparr>"
        "subErr (criSub it0) = subErr (criSub it)" "criDone it0 \<longrightarrow> subErr (criSub it) \<noteq> None"
    have same: "criName it0 = criName it" "criContract it0 = criContract it" "criLogs it0 = ls" "criFail it0 = criFail it"
      by (subst it0(1), simp)+
    show ?thesis
      using ChainRegistered_receive_cases [OF _ l(2)] l(1) it0(2,3) same 2(1,2)
      by (auto simp: ChainRegistered_good_def split: outcome.splits)
  qed (use 2 in simp_all)
next
  case (3 it l)
  then show ?case by (simp add: ChainRegistered_good_def ChainRegistered_arrive_def)
next
  case (4 it e)
  then show ?case by (simp add: ChainRegistered_good_def ChainRegistered_finish_def)
qed

definition ValidatorSetUpdated_arrive ::
    "raw_log \<Rightarrow> 'w RelayHubValidatorSetUpdatedIterator \<Rightarrow> 'w RelayHubValidatorSetUpdatedIterator" where
  "ValidatorSetUpdated_arrive l it = it\<lparr>vsiLogs := vsiLogs it @ [l]\<rparr>"

definition ValidatorSetUpdated_finish ::
    "go_error option \<Rightarrow> 'w RelayHubValidatorSetUpdatedIterator \<Rightarrow> 'w RelayHubValidatorSetUpdatedIterator" where
  "ValidatorSetUpdated_finish e it = (if subErr (vsiSub it) = None then it\<lparr>vsiSub := \<lparr>subErr = Some e\<rparr>\<rparr> else it)"

definition ValidatorSetUpdated_good :: "'w RelayHubValidatorSetUpdatedIterator \<Rightarrow> bool" where
  "ValidatorSetUpdated_good it \<longleftrightarrow> vsiName it = ''ValidatorSetUpdated'' \<and> (vsiDone it \<longrightarrow> subErr (vsiSub it) \<noteq> None)"

lemma ValidatorSetUpdated_receive_cases:
  assumes "vsiName it = ''ValidatorSetUpdated''" and "ValidatorSetUpdated_receive l it = (r, it')"
  shows "vsiLogs it' = vsiLogs it \<and> vsiSub it' = vsiSub it \<and> vsiDone it' = vsiDone it
    \<and> vsiName it' = vsiName it \<and> vsiContract it' = vsiContract it
    \<and> (case ParseValidatorSetUpdated \<lparr>filtererContract = vsiContract it\<rparr> l of
         Ret ev \<Rightarrow> r = Ret True \<and> vsiEvent it' = Some ev \<and> vsiFail it' = vsiFail it
       | Fail e \<Rightarrow> r = Ret False \<and> vsiFail it' = Some e
       | _ \<Rightarrow> \<forall>b. r \<noteq> Ret b)"
  using assms
  by (auto simp: ValidatorSetUpdated_receive_def ParseValidatorSetUpdated_def split: prod.splits outcome.splits)

lemma ValidatorSetUpdated_Next_cases:
  assumes "ValidatorSetUpdated_good it" and "vsiFail it = None" and "ValidatorSetUpdated_Next p it = Some (r, it')"
  shows "(\<exists>l ls it0. vsiLogs it = l # ls \<and> (ValidatorSetUpdated_receive l it0 = (r, it'))
            \<and> it0 = it\<lparr>vsiLogs := ls, vsiSub := vsiSub it0, vsiDone := vsiDone it0\<rparr>
            \<and> subErr (vsiSub it0) = subErr (vsiSub it) \<and> (vsiDone it0 \<longrightarrow> subErr (vsiSub it) \<noteq> None))
       \<or> (vsiLogs it = [] \<and> subErr (vsiSub it) \<noteq> None \<and> r = Ret False \<and> vsiFail it' = None
            \<and> ValidatorSetUpdated_good it' \<and> vsiContract it' = vsiContract it \<and> subErr (vsiSub it') = subErr (vsiSub it))
       \<or> (\<exists>e. subErr (vsiSub it) = Some (Some e) \<and> r = Ret False \<and> vsiFail it' = Some e
            \<and> ValidatorSetUpdated_good it' \<and> vsiContract it' = vsiContract it \<and> subErr (vsiSub it') = Some None)"
  (is "?log \<or> ?end \<or> ?err")
proof (cases "vsiDone it")
  case True
  then show ?thesis
    using assms by (cases "vsiLogs it") (auto simp: ValidatorSetUpdated_good_def)
next
  case False
  consider (log) l ls where "select_feed p (vsiLogs it) (vsiSub it) = TakeLog l ls"
    | (err) e sub where "select_feed p (vsiLogs it) (vsiSub it) = TakeErr e sub"
    | (none) "select_feed p (vsiLogs it) (vsiSub it) = NothingReady"
    by (cases "select_feed p (vsiLogs it) (vsiSub it)") auto
  then show ?thesis
  proof cases
    case log
    then have "vsiLogs it = l # ls"
      by (auto simp: select_feed_def split: list.splits option.splits if_splits)
    moreover have "ValidatorSetUpdated_receive l (it\<lparr>vsiLogs := ls\<rparr>) = (r, it')"
      using assms log False by simp
    ultimately have ?log
      using False by (intro exI [of _ l] exI [of _ ls] exI [of _ "it\<lparr>vsiLogs := ls\<rparr>"]) simp
    then show ?thesis ..
  next
    case err
    then have sub: "subErr (vsiSub it) = Some e" "subErr sub = Some None"
      by (auto simp: select_feed_def split: list.splits option.splits if_splits)
    show ?thesis
    proof (cases e)
      case (Some x)
      then have ?err
        using assms err False sub by (auto simp: ValidatorSetUpdated_good_def)
      then show ?thesis by blast
    next
      case None
      then show ?thesis
        using assms err False sub
        by (cases "vsiLogs it") (auto simp: ValidatorSetUpdated_good_def)
    qed
  next
    case none
    then show ?thesis using assms False by simp
  qed
qed

interpretation vs: log_iterator ValidatorSetUpdated_Next vsiEvent ValidatorSetUpdated_arrive ValidatorSetUpdated_finish
  vsiLogs "\<lambda>it. subErr (vsiSub it)" vsiFail "\<lambda>it. ParseValidatorSetUpdated \<lparr>filtererContract = vsiContract it\<rparr>"
  ValidatorSetUpdated_good
proof (unfold_locales, goal_cases)
  case (1 it p)
  then show ?case
    by (auto simp: ValidatorSetUpdated_good_def select_feed_def split: list.splits option.splits)
next
  case (2 it p r it')
  note cases = ValidatorSetUpdated_Next_cases [OF 2]
  show ?case
    using cases
  proof (elim disjE exE conjE)
    fix l ls it0
    assume l: "vsiLogs it = l # ls" "ValidatorSetUpdated_receive l it0 = (r, it')"
      and it0: "it0 = it\<lparr>vsiLogs := ls, vsiSub := vsiSub it0, vsiDone := vsiDone it0\<rparr>"
        "subErr (vsiSub it0) = subErr (vsiSub it)" "vsiDone it0 \<longrightarrow> subErr (vsiSub it) \<noteq> None"
    have same: "vsiName it0 = vsiName it" "vsiContract it0 = vsiContract it" "vsiLogs it0 = ls" "vsiFail it0 = vsiFail it"
      by (subst it0(1), simp)+
    show ?thesis
      using ValidatorSetUpdated_receive_cases [OF _ l(2)] l(1) it0(2,3) same 2(1,2)
      by (auto simp: ValidatorSetUpdated_good_def split: outcome.splits)
  qed (use 2 in simp_all)
next
  case (3 it l)
  then show ?case by (simp add: ValidatorSetUpdated_good_def ValidatorSetUpdated_arrive_def)
next
  case (4 it e)
  then show ?case by (simp add: ValidatorSetUpdated_good_def ValidatorSetUpdated_finish_def)
qed

section \<open>The contract of a subscription\<close>

text \<open>The choices at which the loop of a subscription returns, and what it returns: all but a log that
  parses and is taken.\<close>

definition watch_stop :: "(raw_log \<Rightarrow> 'ev outcome) \<Rightarrow> watch_choice \<Rightarrow> unit outcome option" where
  "watch_stop parse choice =
     (case choice of
        Quit \<Rightarrow> Some (Ret ())
      | SourceErr err \<Rightarrow> Some (returned_error err)
      | LogArrives l c \<Rightarrow>
          (case parse l of
             Ret ev \<Rightarrow>
               (case c of SinkTakes \<Rightarrow> None | SinkErr err \<Rightarrow> Some (returned_error err) | SinkQuit \<Rightarrow> Some (Ret ()))
           | Fail e \<Rightarrow> Some (Fail e)
           | Panic p \<Rightarrow> Some (Panic p)
           | Exit m \<Rightarrow> Some (Exit m)))"

locale log_watcher =
  fixes loop :: "watch_choice list \<Rightarrow> 'ev list \<Rightarrow> 'ev list \<times> unit outcome option"
    and parse :: "raw_log \<Rightarrow> 'ev outcome"
  assumes waits: "loop [] sink = (sink, None)"
    and takes: "parse l = Ret ev \<Longrightarrow> loop (LogArrives l SinkTakes # choices) sink = loop choices (sink @ [ev])"
    and stops: "watch_stop parse choice = Some r \<Longrightarrow> loop (choice # choices) sink = (sink, Some r)"
begin

lemma forwards:
  "list_all2 (\<lambda>l ev. parse l = Ret ev) ls evs \<Longrightarrow>
   loop (map (\<lambda>l. LogArrives l SinkTakes) ls @ later) sink = loop later (sink @ evs)"
  by (induction ls evs arbitrary: sink rule: list_all2_induct) (simp_all add: takes)

lemma run_of:
  assumes "list_all2 (\<lambda>l ev. parse l = Ret ev) ls evs" and "watch_stop parse choice = Some r"
  shows "loop (map (\<lambda>l. LogArrives l SinkTakes) ls) [] = (evs, None)"
    and "loop (map (\<lambda>l. LogArrives l SinkTakes) ls @ choice # later) [] = (evs, Some r)"
  using forwards [OF assms(1), of "[]" "[]"] forwards [OF assms(1), of "choice # later" "[]"] stops [OF assms(2)]
  by (simp_all add: waits)

end

lemma watch_ChainRegistered_stops:
  "watch_stop (ParseChainRegistered hub) choice = Some r \<Longrightarrow>
   watch_ChainRegistered_loop (filtererContract hub) (choice # choices) sink = (sink, Some r)"
  by (cases choice)
     (auto simp: watch_stop_def ParseChainRegistered_def split: prod.splits outcome.splits sink_choice.splits)

interpretation crw: log_watcher "watch_ChainRegistered_loop (filtererContract hub)" "ParseChainRegistered hub" for hub
proof (unfold_locales, goal_cases)
  case (2 l ev choices sink)
  then show ?case
    by (auto simp: ParseChainRegistered_def split: prod.splits outcome.splits)
qed (simp_all add: watch_ChainRegistered_stops)

lemma watch_ValidatorSetUpdated_stops:
  "watch_stop (ParseValidatorSetUpdated hub) choice = Some r \<Longrightarrow>
   watch_ValidatorSetUpdated_loop (filtererContract hub) (choice # choices) sink = (sink, Some r)"
  by (cases choice)
     (auto simp: watch_stop_def ParseValidatorSetUpdated_def split: prod.splits outcome.splits sink_choice.splits)

interpretation vsw: log_watcher "watch_ValidatorSetUpdated_loop (filtererContract hub)" "ParseValidatorSetUpdated hub" for hub
proof (unfold_locales, goal_cases)
  case (2 l ev choices sink)
  then show ?case
    by (auto simp: ParseValidatorSetUpdated_def split: prod.splits outcome.splits)
qed (simp_all add: watch_ValidatorSetUpdated_stops)

section \<open>Properties\<close>

lemma filterer_eq: "\<lparr>filtererContract = filtererContract hub\<rparr> = hub"
  by simp

lemma FilterChainRegistered_iterator:
  "FilterChainRegistered hub opts ids w = (Ret it, w') \<longleftrightarrow>
     (\<exists>logs sub. bcFilterLogs (filtererContract hub) opts ''ChainRegistered'' [chainIdRule ids] w = (Ret (logs, sub), w')
       \<and> it = \<lparr>criEvent = None, criContract = filtererContract hub, criName = ''ChainRegistered'',
               criLogs = logs, criSub = sub, criDone = False, criFail = None\<rparr>)"
  by (auto simp: FilterChainRegistered_def io_inv)

lemma FilterValidatorSetUpdated_iterator:
  "FilterValidatorSetUpdated hub opts ids w = (Ret it, w') \<longleftrightarrow>
     (\<exists>logs sub. bcFilterLogs (filtererContract hub) opts ''ValidatorSetUpdated'' [chainIdRule ids] w = (Ret (logs, sub), w')
       \<and> it = \<lparr>vsiEvent = None, vsiContract = filtererContract hub, vsiName = ''ValidatorSetUpdated'',
               vsiLogs = logs, vsiSub = sub, vsiDone = False, vsiFail = None\<rparr>)"
  by (auto simp: FilterValidatorSetUpdated_def io_inv)

text \<open>
  Property C27. Iterating over \<open>ChainRegistered\<close> events. However logs arrive between the calls of \<open>Next\<close>,
  and whichever case each \<open>select\<close> takes, the events are the parsed logs, in order and none left out.
  If the iteration stops without an error then no log is left; if it stops with one, the error is the
  source's or that of parsing the next log.
\<close>

theorem ChainRegistered_Next_delivers:
  assumes "FilterChainRegistered hub opts ids w = (Ret it, w')"
    and "client_loop ChainRegistered_Next criEvent ChainRegistered_arrive ChainRegistered_finish t it = (evs, r, it')"
  shows "\<exists>taken rest. criLogs it @ arrivals t = taken @ rest
      \<and> list_all2 (\<lambda>l ev. \<exists>x. ParseChainRegistered hub l = Ret x \<and> ev = Some x) taken evs
      \<and> (r = Some (Ret False) \<longrightarrow>
           (case ChainRegistered_Error it' of
              None \<Rightarrow> proper (subErr (criSub it) \<noteq> None) t \<longrightarrow> rest = []
            | Some e \<Rightarrow> subErr (criSub it) = Some (Some e) \<or> e \<in> failures t
                \<or> (\<exists>l ls. rest = l # ls \<and> ParseChainRegistered hub l = Fail e)))"
proof -
  have it: "ChainRegistered_good it" "criFail it = None" "criContract it = filtererContract hub"
    using assms(1) by (auto simp: FilterChainRegistered_iterator ChainRegistered_good_def)
  show ?thesis
    using cr.run_promise [OF it(1,2) assms(2)]
    unfolding loop_promise_def explained_def ChainRegistered_Error_def it(3) filterer_eq by blast
qed

text \<open>A sample contract: a log with data unpacks to its data, one without does not.\<close>

definition sample_log :: "bytes \<Rightarrow> raw_log" where
  "sample_log d = new_log\<lparr>logData := d\<rparr>"

definition sample_source_contract :: "unit bound_contract" where
  "sample_source_contract =
    \<lparr>bcCall = (\<lambda>opts name args w. (Ret [], w)), bcTransact = (\<lambda>opts name args w. (Fail (LibError ''none''), w)),
     bcTransfer = (\<lambda>opts w. (Fail (LibError ''none''), w)),
     bcFilterLogs = (\<lambda>opts name query w. (Ret ([sample_log [1]], \<lparr>subErr = None\<rparr>), w)),
     bcWatchLogs = (\<lambda>opts name query w. (Ret ([], \<lparr>subErr = None\<rparr>), w)),
     bcUnpackChainRegistered = (\<lambda>out name l.
       if logData l = [] then (Fail (LibError ''short''), out) else (Ret (), out\<lparr>crInitValidatorSet := [logData l]\<rparr>)),
     bcUnpackValidatorSetUpdated = (\<lambda>out name l.
       if logData l = [] then (Fail (LibError ''short''), out) else (Ret (), out\<lparr>vsNewValidatorSet := [logData l]\<rparr>))\<rparr>"

definition sample_filterer :: "unit RelayHubFilterer" where
  "sample_filterer = \<lparr>filtererContract = sample_source_contract\<rparr>"

definition sample_ChainRegistered :: "bytes \<Rightarrow> RelayHubChainRegistered" where
  "sample_ChainRegistered d = \<lparr>crChainId = None, crInitValidatorSet = [d], crRaw = sample_log d\<rparr>"

lemma sample_parsed:
  "ParseChainRegistered sample_filterer (sample_log d) =
     (if d = [] then Fail (LibError ''short'') else Ret (sample_ChainRegistered d))"
  by (simp add: ParseChainRegistered_def sample_filterer_def sample_source_contract_def sample_log_def
      sample_ChainRegistered_def new_ChainRegistered_def new_log_def)

definition sample_iterator :: "unit RelayHubChainRegisteredIterator" where
  "sample_iterator = \<lparr>criEvent = None, criContract = sample_source_contract, criName = ''ChainRegistered'',
     criLogs = [sample_log [1]], criSub = \<lparr>subErr = None\<rparr>, criDone = False, criFail = None\<rparr>"

theorem ChainRegistered_Next_delivers_witness:
  "\<exists>evs r it' taken rest.
      client_loop ChainRegistered_Next criEvent ChainRegistered_arrive ChainRegistered_finish
        [Calls True, Calls False, Arrives (sample_log []), Ends None, Calls False] sample_iterator = (evs, r, it')
      \<and> [sample_log [1], sample_log []] = taken @ rest
      \<and> list_all2 (\<lambda>l ev. \<exists>x. ParseChainRegistered sample_filterer l = Ret x \<and> ev = Some x) taken evs"
proof -
  let ?t = "[Calls True, Calls False, Arrives (sample_log []), Ends None, Calls False]"
  have start: "FilterChainRegistered sample_filterer \<lparr>foStart = 0, foEnd = None\<rparr> [] () = (Ret sample_iterator, ())"
    by (simp add: FilterChainRegistered_iterator sample_filterer_def sample_source_contract_def sample_iterator_def)
  obtain evs r it' where run: "client_loop ChainRegistered_Next criEvent ChainRegistered_arrive ChainRegistered_finish
      ?t sample_iterator = (evs, r, it')"
    by (metis prod_cases3)
  show ?thesis
    using ChainRegistered_Next_delivers [OF start run] run by (auto simp: sample_iterator_def)
qed

text \<open>
  Iterating over \<open>ValidatorSetUpdated\<close> events to the end. When the source has delivered
  its logs, all of which parse, and has ended without an error, then one call of \<open>Next\<close> more than there
  are logs is enough for the loop to end, whichever case each \<open>select\<close> takes, and the events taken are
  all of them, in order.
\<close>

theorem ValidatorSetUpdated_Next_drains:
  assumes "FilterValidatorSetUpdated hub opts ids w = (Ret it, w')" and "subErr (vsiSub it) = None"
    and "list_all2 (\<lambda>l ev. ParseValidatorSetUpdated hub l = Ret ev) (vsiLogs it @ ls) evs"
    and "length (vsiLogs it @ ls) < length picks"
  shows "\<exists>it'. client_loop ValidatorSetUpdated_Next vsiEvent ValidatorSetUpdated_arrive ValidatorSetUpdated_finish
        (map Arrives ls @ Ends None # map Calls picks) it = (map Some evs, Some (Ret False), it')
      \<and> ValidatorSetUpdated_Error it' = None"
proof -
  have it: "ValidatorSetUpdated_good it" "vsiFail it = None" "vsiContract it = filtererContract hub"
    using assms(1) by (auto simp: FilterValidatorSetUpdated_iterator ValidatorSetUpdated_good_def)
  show ?thesis
    using vs.run_complete [OF it(1,2) assms(2)] assms(3,4)
    unfolding ValidatorSetUpdated_Error_def it(3) filterer_eq by simp
qed

definition sample_ValidatorSetUpdated :: "bytes \<Rightarrow> RelayHubValidatorSetUpdated" where
  "sample_ValidatorSetUpdated d = \<lparr>vsChainId = None, vsNewValidatorSet = [d], vsRaw = sample_log d\<rparr>"

theorem ValidatorSetUpdated_Next_drains_witness:
  "\<exists>it it'. FilterValidatorSetUpdated sample_filterer \<lparr>foStart = 0, foEnd = None\<rparr> [] () = (Ret it, ())
     \<and> client_loop ValidatorSetUpdated_Next vsiEvent ValidatorSetUpdated_arrive ValidatorSetUpdated_finish
         [Arrives (sample_log [2]), Ends None, Calls False, Calls True, Calls False] it =
         ([Some (sample_ValidatorSetUpdated [1]), Some (sample_ValidatorSetUpdated [2])], Some (Ret False), it')"
proof -
  let ?it = "\<lparr>vsiEvent = None, vsiContract = sample_source_contract, vsiName = ''ValidatorSetUpdated'',
     vsiLogs = [sample_log [1]], vsiSub = \<lparr>subErr = None\<rparr>, vsiDone = False, vsiFail = None\<rparr>"
  have start: "FilterValidatorSetUpdated sample_filterer \<lparr>foStart = 0, foEnd = None\<rparr> [] () = (Ret ?it, ())"
    by (simp add: FilterValidatorSetUpdated_iterator sample_filterer_def sample_source_contract_def)
  have "ParseValidatorSetUpdated sample_filterer (sample_log [x]) = Ret (sample_ValidatorSetUpdated [x])" for x
    by (simp add: ParseValidatorSetUpdated_def sample_filterer_def sample_source_contract_def sample_log_def
        sample_ValidatorSetUpdated_def new_ValidatorSetUpdated_def new_log_def)
  then show ?thesis
    using ValidatorSetUpdated_Next_drains [OF start, of "[sample_log [2]]"
        "[sample_ValidatorSetUpdated [1], sample_ValidatorSetUpdated [2]]" "[False, True, False]"] start
    by fastforce
qed

text \<open>
  Closing an iterator ends it. With the subscription cancelled (its error channel is then
  closed, which is the documented effect) \<open>Next\<close> blocks no more: one call more than there are logs
  ends the loop, and a log that waited when the iterator was closed may still be delivered.
\<close>

theorem ChainRegistered_Close_ends:
  assumes "FilterChainRegistered hub opts ids w = (Ret it, w')"
    and "\<forall>sub. subErr (unsubscribe sub) = Some None" and "length (criLogs it) < length picks"
  shows "\<exists>it1 evs r it'. ChainRegistered_Close unsubscribe it = (Ret (), it1)
      \<and> client_loop ChainRegistered_Next criEvent ChainRegistered_arrive ChainRegistered_finish (map Calls picks) it1
          = (evs, Some r, it')
      \<and> (\<exists>taken rest. criLogs it = taken @ rest
           \<and> list_all2 (\<lambda>l ev. \<exists>x. ParseChainRegistered hub l = Ret x \<and> ev = Some x) taken evs)"
proof -
  let ?it = "snd (ChainRegistered_Close unsubscribe it)"
  have it: "ChainRegistered_good ?it" "criFail ?it = None" "criContract ?it = filtererContract hub"
    "subErr (criSub ?it) \<noteq> None" "criLogs ?it = criLogs it" "ChainRegistered_Close unsubscribe it = (Ret (), ?it)"
    using assms(1,2)
    by (auto simp: FilterChainRegistered_iterator ChainRegistered_good_def ChainRegistered_Close_def)
  have calls: "arrivals (map Calls picks) = []"
    by (induction picks) auto
  obtain evs r it' where run: "client_loop ChainRegistered_Next criEvent ChainRegistered_arrive ChainRegistered_finish
      (map Calls picks) ?it = (evs, Some r, it')"
    using cr.run_returns [OF it(1,2,4)] it(5) assms(3) by metis
  have "loop_promise (ParseChainRegistered hub) (criLogs it) (subErr (criSub ?it)) (map Calls picks) evs (Some r) (criFail it')"
    using cr.run_promise [OF it(1,2) run] unfolding it(3,5) filterer_eq .
  then have "\<exists>taken rest. criLogs it = taken @ rest
      \<and> list_all2 (\<lambda>l ev. \<exists>x. ParseChainRegistered hub l = Ret x \<and> ev = Some x) taken evs"
    unfolding loop_promise_def calls by auto
  with run it(6) show ?thesis by blast
qed

theorem ChainRegistered_Close_ends_witness:
  "\<exists>it1 evs r it'. ChainRegistered_Close (\<lambda>sub. \<lparr>subErr = Some None\<rparr>) sample_iterator = (Ret (), it1)
      \<and> client_loop ChainRegistered_Next criEvent ChainRegistered_arrive ChainRegistered_finish
          [Calls False, Calls True] it1 = (evs, Some r, it')"
proof -
  have start: "FilterChainRegistered sample_filterer \<lparr>foStart = 0, foEnd = None\<rparr> [] () = (Ret sample_iterator, ())"
    by (simp add: FilterChainRegistered_iterator sample_filterer_def sample_source_contract_def sample_iterator_def)
  show ?thesis
    using ChainRegistered_Close_ends [OF start, of "\<lambda>sub. \<lparr>subErr = Some None\<rparr>" "[False, True]"]
    by (auto simp: sample_iterator_def)
qed

text \<open>
  A subscription to \<open>ChainRegistered\<close> events. While logs arrive that parse and the sink
  takes the events, all of them are forwarded in order and the source stays subscribed. At anything
  else (a log that does not parse, an error of the source or the end of the subscription, also while
  the sink does not take the event) the loop returns, with the error if there is one, the source is
  unsubscribed, and nothing is forwarded after that.
\<close>

theorem WatchChainRegistered_forwards:
  assumes "WatchChainRegistered unsubscribe hub opts ids w = (Ret run, w')"
    and "list_all2 (\<lambda>l ev. ParseChainRegistered hub l = Ret ev) ls evs"
    and "watch_stop (ParseChainRegistered hub) choice = Some result"
  shows "\<exists>logs sub. bcWatchLogs (filtererContract hub) opts ''ChainRegistered'' [chainIdRule ids] w = (Ret (logs, sub), w')
      \<and> run (map (\<lambda>l. LogArrives l SinkTakes) ls) = (evs, None, sub)
      \<and> run (map (\<lambda>l. LogArrives l SinkTakes) ls @ choice # later) = (evs, Some result, unsubscribe sub)"
  using assms(1) crw.run_of [OF assms(2,3)] by (auto simp: WatchChainRegistered_def io_inv)

theorem WatchChainRegistered_forwards_witness:
  "\<exists>run sub. WatchChainRegistered (\<lambda>sub. \<lparr>subErr = Some None\<rparr>) sample_filterer \<lparr>woStart = None\<rparr> [56] () = (Ret run, ())
     \<and> run [LogArrives (sample_log [1]) SinkTakes, LogArrives (sample_log [2]) SinkTakes,
            LogArrives (sample_log []) SinkTakes, LogArrives (sample_log [3]) SinkTakes]
         = ([sample_ChainRegistered [1], sample_ChainRegistered [2]], Some (Fail (LibError ''short'')), sub)"
proof -
  let ?watch = "WatchChainRegistered (\<lambda>sub. \<lparr>subErr = Some None\<rparr>) sample_filterer \<lparr>woStart = None\<rparr> [56] ()"
  obtain run where run: "?watch = (Ret run, ())"
    by (auto simp: WatchChainRegistered_def sample_filterer_def sample_source_contract_def io_bind_def io_ret_def)
  show ?thesis
    using WatchChainRegistered_forwards [OF run, of "[sample_log [1], sample_log [2]]"
        "[sample_ChainRegistered [1], sample_ChainRegistered [2]]" "LogArrives (sample_log []) SinkTakes"
        "Fail (LibError ''short'')" "[LogArrives (sample_log [3]) SinkTakes]"] run
    by (auto simp: sample_parsed watch_stop_def)
qed

text \<open>The other event's subscription behaves alike.\<close>

lemma WatchValidatorSetUpdated_run:
  assumes "WatchValidatorSetUpdated unsubscribe hub opts ids w = (Ret run, w')"
    and "list_all2 (\<lambda>l ev. ParseValidatorSetUpdated hub l = Ret ev) ls evs"
    and "watch_stop (ParseValidatorSetUpdated hub) choice = Some result"
  shows "\<exists>logs sub. bcWatchLogs (filtererContract hub) opts ''ValidatorSetUpdated'' [chainIdRule ids] w = (Ret (logs, sub), w')
      \<and> run (map (\<lambda>l. LogArrives l SinkTakes) ls) = (evs, None, sub)
      \<and> run (map (\<lambda>l. LogArrives l SinkTakes) ls @ choice # later) = (evs, Some result, unsubscribe sub)"
  using assms(1) vsw.run_of [OF assms(2,3)] by (auto simp: WatchValidatorSetUpdated_def io_inv)

end
