(* ===== verification/HubABI.thy ===== *)
theory HubABI
  imports Events Transition
begin

text \<open>
  The interface of the hub contract that the binding is generated from (\<open>RelayHubMetaData.ABI\<close> of
  \<open>relayer/abigen/basrelayhub.go\<close>): its functions and events, read off the JSON text. The theorems say
  that everything the binding and the relayer pass to the generic contract is declared there, with these
  types, and that what comes back as declared is returned without a panic.
\<close>

section \<open>The declarations\<close>

record abi_method =
  amName :: string
  amView :: bool
  amInputs :: "(string \<times> string) list"
  amOutputs :: "string list"

text \<open>An input of an event: its name, its type, and whether it is indexed.\<close>

record abi_event =
  aeName :: string
  aeInputs :: "(string \<times> string \<times> bool) list"

record abi_spec =
  abiConstructor :: "(string \<times> string) list"
  abiMethods :: "abi_method list"
  abiEvents :: "abi_event list"

definition RelayHubMetaData :: abi_spec where
  "RelayHubMetaData = \<lparr>abiConstructor = [(''defaultVerificationFunction'', ''address'')],
    abiMethods =
    [\<lparr>amName = ''multicall'', amView = False,
       amInputs = [(''data'', ''bytes[]'')], amOutputs = [''bytes[]'']\<rparr>,
     \<lparr>amName = ''getBridgeAddress'', amView = True,
       amInputs = [(''chainId'', ''uint256'')], amOutputs = [''address'']\<rparr>,
     \<lparr>amName = ''registerCertifiedBAS'', amView = False,
       amInputs = [(''chainId'', ''uint256''), (''genesisBlock'', ''bytes''), (''bridgeAddress'', ''address''), (''epochLength'', ''uint32'')], amOutputs = []\<rparr>,
     \<lparr>amName = ''registerUsingCheckpoint'', amView = False,
       amInputs = [(''chainId'', ''uint256''), (''checkpointBlock'', ''bytes''), (''checkpointHash'', ''bytes32''), (''bridgeAddress'', ''address''), (''epochLength'', ''uint32'')], amOutputs = []\<rparr>,
     \<lparr>amName = ''registerBAS'', amView = False,
       amInputs = [(''chainId'', ''uint256''), (''verificationFunction'', ''address''), (''genesisBlock'', ''bytes''), (''bridgeAddress'', ''address''), (''epochLength'', ''uint32'')], amOutputs = []\<rparr>,
     \<lparr>amName = ''getActiveValidators'', amView = True,
       amInputs = [(''chainId'', ''uint256'')], amOutputs = [''address[]'']\<rparr>,
     \<lparr>amName = ''checkValidators'', amView = True,
       amInputs = [(''chainId'', ''uint256''), (''validators'', ''address[]''), (''epoch'', ''uint64'')], amOutputs = [''uint64'']\<rparr>,
     \<lparr>amName = ''getLatestTransitionedEpoch'', amView = True,
       amInputs = [(''chainId'', ''uint256'')], amOutputs = [''uint64'']\<rparr>,
     \<lparr>amName = ''updateValidatorSet'', amView = False,
       amInputs = [(''chainId'', ''uint256''), (''blockProofs'', ''bytes[]'')], amOutputs = []\<rparr>,
     \<lparr>amName = ''updateValidatorSetUsingEpochBlocks'', amView = False,
       amInputs = [(''chainId'', ''uint256''), (''blockProofs'', ''bytes[]'')], amOutputs = []\<rparr>,
     \<lparr>amName = ''checkpointTransition'', amView = False,
       amInputs = [(''chainId'', ''uint256''), (''rawEpochBlock'', ''bytes''), (''checkpointHash'', ''bytes32''), (''signatures'', ''bytes[]'')], amOutputs = []\<rparr>,
     \<lparr>amName = ''checkValidatorsAndQuorumReached'', amView = True,
       amInputs = [(''chainId'', ''uint256''), (''validatorSet'', ''address[]''), (''epochNumber'', ''uint64'')], amOutputs = [''bool'']\<rparr>,
     \<lparr>amName = ''checkReceiptProof'', amView = True,
       amInputs = [(''chainId'', ''uint256''), (''blockProofs'', ''bytes[]''), (''rawReceipt'', ''bytes''), (''proofSiblings'', ''bytes''), (''proofPath'', ''bytes'')], amOutputs = [''bool'']\<rparr>],
    abiEvents =
    [\<lparr>aeName = ''ChainRegistered'', aeInputs = [(''chainId'', ''uint256'', True), (''initValidatorSet'', ''address[]'', False)]\<rparr>,
     \<lparr>aeName = ''ValidatorSetUpdated'', aeInputs = [(''chainId'', ''uint256'', True), (''newValidatorSet'', ''address[]'', False)]\<rparr>]\<rparr>"

text \<open>The ABI type under which the ABI package accepts a Go value; an integer of arbitrary size is the
  Go type of \<open>uint256\<close>.\<close>

fun abi_type :: "go_val \<Rightarrow> string" where
  "abi_type (VBool b) = ''bool''"
| "abi_type (VUint32 n) = ''uint32''"
| "abi_type (VUint64 n) = ''uint64''"
| "abi_type (VBig i) = ''uint256''"
| "abi_type (VAddress a) = ''address''"
| "abi_type (VAddresses as) = ''address[]''"
| "abi_type (VBytes b) = ''bytes''"
| "abi_type (VBytes32 h) = ''bytes32''"
| "abi_type (VBytesList bs) = ''bytes[]''"

definition method_of :: "string \<Rightarrow> abi_method option" where
  "method_of name = find (\<lambda>m. amName m = name) (abiMethods RelayHubMetaData)"

definition event_of :: "string \<Rightarrow> abi_event option" where
  "event_of name = find (\<lambda>e. aeName e = name) (abiEvents RelayHubMetaData)"

definition declared :: "bool \<Rightarrow> string \<Rightarrow> go_val list \<Rightarrow> bool" where
  "declared view name args \<longleftrightarrow>
     (case method_of name of None \<Rightarrow> False
      | Some m \<Rightarrow> amView m = view \<and> map snd (amInputs m) = map abi_type args)"

text \<open>A query has one list of admitted values per indexed input.\<close>

definition declared_query :: "string \<Rightarrow> go_val list list \<Rightarrow> bool" where
  "declared_query name query \<longleftrightarrow>
     (case event_of name of None \<Rightarrow> False
      | Some e \<Rightarrow> list_all2 (\<lambda>t vs. \<forall>v\<in>set vs. abi_type v = t)
          (map (\<lambda>(_, t, _). t) (filter (\<lambda>(_, _, indexed). indexed) (aeInputs e))) query)"

text \<open>A contract that refuses whatever is not declared.\<close>

definition refuse :: "('w, 'a) io" where
  "refuse = io_lift (Panic (PanicMessage ''not declared''))"

definition checked :: "'w bound_contract \<Rightarrow> 'w bound_contract" where
  "checked c = c
     \<lparr>bcCall := \<lambda>opts name args. if declared True name args then bcCall c opts name args else refuse,
      bcTransact := \<lambda>opts name args. if declared False name args then bcTransact c opts name args else refuse,
      bcFilterLogs := \<lambda>opts name query. if declared_query name query then bcFilterLogs c opts name query else refuse,
      bcWatchLogs := \<lambda>opts name query. if declared_query name query then bcWatchLogs c opts name query else refuse\<rparr>"

lemma checked_call: "declared True name args \<Longrightarrow> bcCall (checked c) opts name args = bcCall c opts name args"
  by (simp add: checked_def)

lemma checked_transact: "declared False name args \<Longrightarrow> bcTransact (checked c) opts name args = bcTransact c opts name args"
  by (simp add: checked_def)

lemma checked_logs:
  "declared_query name query \<Longrightarrow> bcFilterLogs (checked c) fopts name query = bcFilterLogs c fopts name query"
  "declared_query name query \<Longrightarrow> bcWatchLogs (checked c) wopts name query = bcWatchLogs c wopts name query"
  by (simp_all add: checked_def)

lemmas abi_lookup = declared_def method_of_def declared_query_def event_of_def RelayHubMetaData_def

lemma chainIdRule_eq: "chainIdRule ids = map VBig ids"
proof -
  have "fold (\<lambda>item rule. rule @ [VBig item]) ids acc = acc @ map VBig ids" for acc
    by (induction ids arbitrary: acc) auto
  then show ?thesis by (simp add: chainIdRule_def)
qed

section \<open>Well-typed use\<close>

lemma checked_unpack [simp]:
  "bcUnpackChainRegistered (checked c) = bcUnpackChainRegistered c"
  "bcUnpackValidatorSetUpdated (checked c) = bcUnpackValidatorSetUpdated c"
  by (simp_all add: checked_def)

lemma checked_loop:
  "watch_ChainRegistered_loop (checked c) choices evs = watch_ChainRegistered_loop c choices evs"
  "watch_ValidatorSetUpdated_loop (checked c) choices evs' = watch_ValidatorSetUpdated_loop c choices evs'"
proof -
  show "watch_ChainRegistered_loop (checked c) choices evs = watch_ChainRegistered_loop c choices evs"
    by (induction c choices evs rule: watch_ChainRegistered_loop.induct)
       (simp_all split: prod.split outcome.split sink_choice.split)
  show "watch_ValidatorSetUpdated_loop (checked c) choices evs' = watch_ValidatorSetUpdated_loop c choices evs'"
    by (induction c choices evs' rule: watch_ValidatorSetUpdated_loop.induct)
       (simp_all split: prod.split outcome.split sink_choice.split)
qed

text \<open>
  Property C32. The binding against the interface it is generated from. Every call, transaction, log query and
  subscription that it makes names a function or an event of the contract's ABI, of the right
  mutability, with arguments of the declared types: over a contract that refuses anything else it
  behaves as over the contract itself.
\<close>

theorem binding_well_typed:
  "Caller_CheckReceiptProof B \<lparr>callerContract = checked c\<rparr> opts chainId blockProofs rawReceipt proofSiblings proofPath = Caller_CheckReceiptProof B \<lparr>callerContract = c\<rparr> opts chainId blockProofs rawReceipt proofSiblings proofPath
    \<and> Caller_CheckValidators B \<lparr>callerContract = checked c\<rparr> opts chainId validators epoch = Caller_CheckValidators B \<lparr>callerContract = c\<rparr> opts chainId validators epoch
    \<and> Caller_CheckValidatorsAndQuorumReached B \<lparr>callerContract = checked c\<rparr> opts chainId validators epoch = Caller_CheckValidatorsAndQuorumReached B \<lparr>callerContract = c\<rparr> opts chainId validators epoch
    \<and> Caller_GetActiveValidators B \<lparr>callerContract = checked c\<rparr> opts chainId = Caller_GetActiveValidators B \<lparr>callerContract = c\<rparr> opts chainId
    \<and> Caller_GetBridgeAddress B \<lparr>callerContract = checked c\<rparr> opts chainId = Caller_GetBridgeAddress B \<lparr>callerContract = c\<rparr> opts chainId
    \<and> Caller_GetLatestTransitionedEpoch B \<lparr>callerContract = checked c\<rparr> opts chainId = Caller_GetLatestTransitionedEpoch B \<lparr>callerContract = c\<rparr> opts chainId
    \<and> Transactor_CheckpointTransition \<lparr>transactorContract = checked c\<rparr> topts chainId block hash sigs = Transactor_CheckpointTransition \<lparr>transactorContract = c\<rparr> topts chainId block hash sigs
    \<and> Transactor_Multicall \<lparr>transactorContract = checked c\<rparr> topts inputs = Transactor_Multicall \<lparr>transactorContract = c\<rparr> topts inputs
    \<and> Transactor_RegisterBAS \<lparr>transactorContract = checked c\<rparr> topts chainId verification block bridge length32 = Transactor_RegisterBAS \<lparr>transactorContract = c\<rparr> topts chainId verification block bridge length32
    \<and> Transactor_RegisterCertifiedBAS \<lparr>transactorContract = checked c\<rparr> topts chainId block bridge length32 = Transactor_RegisterCertifiedBAS \<lparr>transactorContract = c\<rparr> topts chainId block bridge length32
    \<and> Transactor_RegisterUsingCheckpoint \<lparr>transactorContract = checked c\<rparr> topts chainId block hash bridge length32 = Transactor_RegisterUsingCheckpoint \<lparr>transactorContract = c\<rparr> topts chainId block hash bridge length32
    \<and> Transactor_UpdateValidatorSet \<lparr>transactorContract = checked c\<rparr> topts chainId blockProofs = Transactor_UpdateValidatorSet \<lparr>transactorContract = c\<rparr> topts chainId blockProofs
    \<and> Transactor_UpdateValidatorSetUsingEpochBlocks \<lparr>transactorContract = checked c\<rparr> topts chainId blockProofs = Transactor_UpdateValidatorSetUsingEpochBlocks \<lparr>transactorContract = c\<rparr> topts chainId blockProofs
    \<and> FilterChainRegistered \<lparr>filtererContract = checked c\<rparr> fopts ids =
        io_bind (FilterChainRegistered \<lparr>filtererContract = c\<rparr> fopts ids) (\<lambda>it. io_ret (it\<lparr>criContract := checked c\<rparr>))
    \<and> FilterValidatorSetUpdated \<lparr>filtererContract = checked c\<rparr> fopts ids =
        io_bind (FilterValidatorSetUpdated \<lparr>filtererContract = c\<rparr> fopts ids) (\<lambda>it. io_ret (it\<lparr>vsiContract := checked c\<rparr>))
    \<and> WatchChainRegistered unsubscribe \<lparr>filtererContract = checked c\<rparr> wopts ids =
        WatchChainRegistered unsubscribe \<lparr>filtererContract = c\<rparr> wopts ids
    \<and> WatchValidatorSetUpdated unsubscribe \<lparr>filtererContract = checked c\<rparr> wopts ids =
        WatchValidatorSetUpdated unsubscribe \<lparr>filtererContract = c\<rparr> wopts ids"
proof -
  have calls: "declared True ''checkReceiptProof'' [VBig i, VBytesList bs, VBytes b1, VBytes b2, VBytes b3]"
    "declared True ''checkValidators'' [VBig i, VAddresses as, VUint64 n]"
    "declared True ''checkValidatorsAndQuorumReached'' [VBig i, VAddresses as, VUint64 n]"
    "declared True ''getActiveValidators'' [VBig i]" "declared True ''getBridgeAddress'' [VBig i]"
    "declared True ''getLatestTransitionedEpoch'' [VBig i]" for i bs b1 b2 b3 as n
    by (simp_all add: abi_lookup)
  have transactions: "declared False ''checkpointTransition'' [VBig i, VBytes b, VBytes32 h, VBytesList bs]"
    "declared False ''multicall'' [VBytesList bs]"
    "declared False ''registerBAS'' [VBig i, VAddress a, VBytes b, VAddress a', VUint32 n]"
    "declared False ''registerCertifiedBAS'' [VBig i, VBytes b, VAddress a, VUint32 n]"
    "declared False ''registerUsingCheckpoint'' [VBig i, VBytes b, VBytes32 h, VAddress a, VUint32 n]"
    "declared False ''updateValidatorSet'' [VBig i, VBytesList bs]"
    "declared False ''updateValidatorSetUsingEpochBlocks'' [VBig i, VBytesList bs]" for i b h bs a a' n
    by (simp_all add: abi_lookup)
  have events: "declared_query ''ChainRegistered'' [chainIdRule ids]" "declared_query ''ValidatorSetUpdated'' [chainIdRule ids]"
    by (simp_all add: abi_lookup chainIdRule_eq)
  show ?thesis
    by (intro conjI)
       (simp_all add: Caller_CheckReceiptProof_def Caller_CheckValidators_def Caller_CheckValidatorsAndQuorumReached_def Caller_GetActiveValidators_def Caller_GetBridgeAddress_def Caller_GetLatestTransitionedEpoch_def
         Transactor_CheckpointTransition_def Transactor_Multicall_def Transactor_RegisterBAS_def Transactor_RegisterCertifiedBAS_def Transactor_RegisterUsingCheckpoint_def Transactor_UpdateValidatorSet_def Transactor_UpdateValidatorSetUsingEpochBlocks_def
         FilterChainRegistered_def FilterValidatorSetUpdated_def WatchChainRegistered_def WatchValidatorSetUpdated_def
         checked_call checked_transact checked_logs checked_loop calls transactions events case_prod_beta io_bind_def io_ret_def
         fun_eq_iff split: prod.split outcome.split)
qed

section \<open>Well-typed results\<close>

text \<open>The contract returns what its ABI declares, and \<open>abi.ConvertType\<close> keeps a value that has the
  type it is to be converted to.\<close>

definition returns_declared :: "'w bound_contract \<Rightarrow> bool" where
  "returns_declared c \<longleftrightarrow> (\<forall>opts name args w vs w'. bcCall c opts name args w = (Ret vs, w') \<longrightarrow>
     (\<exists>m. method_of name = Some m \<and> map abi_type vs = amOutputs m))"

definition convert_laws :: "('b, 'p, 'w) bind_lib \<Rightarrow> bool" where
  "convert_laws B \<longleftrightarrow> (\<forall>v proto. abi_type v = abi_type proto \<longrightarrow> convertType B v proto = Ret v)"

text \<open>Two calls that end in the same way and in the same world.\<close>

fun same_end :: "'a outcome \<times> 'w \<Rightarrow> 'b outcome \<times> 'w \<Rightarrow> bool" where
  "same_end (Ret x, w) (Ret y, w') = (w = w')"
| "same_end (Fail e, w) (Fail e', w') = (e = e' \<and> w = w')"
| "same_end (Panic p, w) (Panic p', w') = (p = p' \<and> w = w')"
| "same_end (Exit m, w) (Exit m', w') = (m = m' \<and> w = w')"
| "same_end _ _ = False"

lemma call_same_end:
  assumes "convert_laws B" and "returns_declared c"
    and "method_of name = Some m" and "amOutputs m = [abi_type proto]"
    and "\<And>v. abi_type v = abi_type proto \<Longrightarrow> assertion v \<noteq> None"
  shows "same_end (bcCall c opts name args w)
     (io_bind (bcCall c opts name args) (\<lambda>out. io_lift (convert_out0 B proto assertion out)) w)"
proof (cases "bcCall c opts name args w")
  case (Pair r w')
  show ?thesis
  proof (cases r)
    case (Ret vs)
    then have "map abi_type vs = [abi_type proto]"
      using assms(2-4) Pair unfolding returns_declared_def by fastforce
    then obtain v where v: "vs = [v]" "abi_type v = abi_type proto"
      by (cases vs) auto
    then obtain x where "assertion v = Some x"
      using assms(5) by blast
    then have "convert_out0 B proto assertion vs = Ret x"
      using v assms(1) by (simp add: convert_out0_def go_index_def convert_laws_def)
    then show ?thesis
      using Pair Ret by (simp add: io_bind_def io_lift_def)
  qed (use Pair in \<open>simp_all add: io_bind_def\<close>)
qed

lemma assertions:
  "abi_type v = abi_type (VBool b) \<Longrightarrow> asBool v \<noteq> None"
  "abi_type v = abi_type (VUint64 n) \<Longrightarrow> asUint64 v \<noteq> None"
  "abi_type v = abi_type (VAddress a) \<Longrightarrow> asAddress v \<noteq> None"
  "abi_type v = abi_type (VAddresses as) \<Longrightarrow> asAddresses v \<noteq> None"
  by (cases v; simp)+

text \<open>
  Property C39. The read-only calls of the binding are safe. If the contract returns what its ABI declares then
  each of them returns whenever the contract call does, with no panic from the conversion of its
  output, and ends with the contract call's error or panic otherwise, in the same world.
\<close>

theorem binding_calls_safe:
  assumes "convert_laws B" and "returns_declared c"
  shows "same_end (bcCall c opts ''checkReceiptProof'' [VBig chainId, VBytesList blockProofs, VBytes rawReceipt, VBytes proofSiblings, VBytes proofPath] w)
        (Caller_CheckReceiptProof B \<lparr>callerContract = c\<rparr> opts chainId blockProofs rawReceipt proofSiblings proofPath w)
    \<and> same_end (bcCall c opts ''checkValidators'' [VBig chainId, VAddresses validators, VUint64 epoch] w)
        (Caller_CheckValidators B \<lparr>callerContract = c\<rparr> opts chainId validators epoch w)
    \<and> same_end (bcCall c opts ''checkValidatorsAndQuorumReached'' [VBig chainId, VAddresses validators, VUint64 epoch] w)
        (Caller_CheckValidatorsAndQuorumReached B \<lparr>callerContract = c\<rparr> opts chainId validators epoch w)
    \<and> same_end (bcCall c opts ''getActiveValidators'' [VBig chainId] w)
        (Caller_GetActiveValidators B \<lparr>callerContract = c\<rparr> opts chainId w)
    \<and> same_end (bcCall c opts ''getBridgeAddress'' [VBig chainId] w)
        (Caller_GetBridgeAddress B \<lparr>callerContract = c\<rparr> opts chainId w)
    \<and> same_end (bcCall c opts ''getLatestTransitionedEpoch'' [VBig chainId] w)
        (Caller_GetLatestTransitionedEpoch B \<lparr>callerContract = c\<rparr> opts chainId w)"
proof -
  note ends = call_same_end [OF assms _ _ assertions(1)] call_same_end [OF assms _ _ assertions(2)]
    call_same_end [OF assms _ _ assertions(3)] call_same_end [OF assms _ _ assertions(4)]
  show ?thesis
    unfolding Caller_CheckReceiptProof_def Caller_CheckValidators_def Caller_CheckValidatorsAndQuorumReached_def Caller_GetActiveValidators_def Caller_GetBridgeAddress_def Caller_GetLatestTransitionedEpoch_def bound_contract.simps RelayHubCaller.simps
    by (intro conjI ends, simp_all add: abi_lookup) simp_all
qed

fun sample_value :: "string \<Rightarrow> go_val" where
  "sample_value t = (if t = ''bool'' then VBool True else if t = ''uint64'' then VUint64 7
     else if t = ''address'' then VAddress (sample_address 1)
     else if t = ''address[]'' then VAddresses [sample_address 1] else VBytesList [])"

definition sample_hub_contract :: "unit bound_contract" where
  "sample_hub_contract = sample_source_contract\<lparr>bcCall := \<lambda>opts name args w.
     (case method_of name of None \<Rightarrow> Fail (LibError ''no method'') | Some m \<Rightarrow> Ret (map sample_value (amOutputs m)), w)\<rparr>"

lemma method_of_in: "method_of name = Some m \<Longrightarrow> m \<in> set (abiMethods RelayHubMetaData)"
  by (auto simp: method_of_def find_Some_iff)

lemma sample_hub_declared: "returns_declared sample_hub_contract"
proof -
  have "\<forall>m\<in>set (abiMethods RelayHubMetaData). map abi_type (map sample_value (amOutputs m)) = amOutputs m"
    by (simp add: RelayHubMetaData_def)
  then show ?thesis
    using method_of_in by (fastforce simp: returns_declared_def sample_hub_contract_def split: option.splits)
qed

theorem binding_calls_safe_witness:
  "\<exists>e. Caller_GetLatestTransitionedEpoch (sample_bind :: (unit, unit, unit) bind_lib)
     \<lparr>callerContract = sample_hub_contract\<rparr> new_call_opts 56 () = (Ret e, ())"
proof -
  have convert: "convert_laws (sample_bind :: (unit, unit, unit) bind_lib)"
    by (simp add: convert_laws_def sample_bind_def)
  have "same_end (bcCall sample_hub_contract new_call_opts ''getLatestTransitionedEpoch'' [VBig 56] ())
     (Caller_GetLatestTransitionedEpoch (sample_bind :: (unit, unit, unit) bind_lib)
        \<lparr>callerContract = sample_hub_contract\<rparr> new_call_opts 56 ())"
    using binding_calls_safe [OF convert sample_hub_declared] by blast
  moreover have "bcCall sample_hub_contract new_call_opts ''getLatestTransitionedEpoch'' [VBig 56] () = (Ret [VUint64 7], ())"
    by (simp add: sample_hub_contract_def abi_lookup)
  ultimately show ?thesis
    by (cases "fst (Caller_GetLatestTransitionedEpoch (sample_bind :: (unit, unit, unit) bind_lib)
        \<lparr>callerContract = sample_hub_contract\<rparr> new_call_opts 56 ())";
        cases "Caller_GetLatestTransitionedEpoch (sample_bind :: (unit, unit, unit) bind_lib)
        \<lparr>callerContract = sample_hub_contract\<rparr> new_call_opts 56 ()") auto
qed

section \<open>The calls inside a multicall\<close>

text \<open>The signature of a method as it is hashed into its selector. The relayer writes the one of the calls
  in a batch by hand; it is the declared one, and the arguments have the declared types.\<close>

fun comma_separated :: "string list \<Rightarrow> string" where
  "comma_separated [] = []"
| "comma_separated [t] = t"
| "comma_separated (t # ts) = t @ '','' @ comma_separated ts"

definition signature_of :: "abi_method \<Rightarrow> string" where
  "signature_of m = amName m @ ''('' @ comma_separated (map snd (amInputs m)) @ '')''"

lemma batch_input_declared:
  "\<exists>m. method_of ''updateValidatorSet'' = Some m
     \<and> batch_input L source epochBlock =
         io_bind (createBlockProofs (lbCodec L) (lbCrypto L) (lbRlp L) (ncClient source) epochBlock
            (EpochLength (ncChainConfig source))) (\<lambda>blockProofs.
         io_lift (encodeFunctionCall (lbAbi L) (signature_of m) [VBig (ncChainId source), VBytesList blockProofs]))
     \<and> declared False ''updateValidatorSet'' [VBig i, VBytesList proofs]"
  by (simp add: batch_input_def abi_lookup signature_of_def)

end
