(* ===== verification/CatchUp.thy ===== *)
theory CatchUp
  imports EpochWorker
begin

text \<open>
  The epoch worker (\<open>epochWorker\<close> of \<open>relayer/service.go\<close>) between the fetcher that feeds it and the hub
  that it moves. Liveness: a worker that falls behind catches up with the chain, for any sequence of
  received numbers, given that attempts fail only finitely often. What that means of the outside
  world is \<open>hub_moves\<close>; nothing of the worker itself is assumed. Safety: it acts on confirmed epochs only,
  given that the chain is long enough for the fetcher not to wrap around.
\<close>

section \<open>A world in which attempts fail finitely often\<close>

text \<open>
  \<open>hub w\<close> is the epoch that the hub of the target has reached in world \<open>w\<close>, and \<open>fails w\<close> bounds how many
  attempts will still fail. In the good states of the system, an attempt to move the hub to its next
  epoch, when that is confirmed by one of the numbers \<open>heads\<close>, ends. Either it succeeds: then the hub has moved
  by at least one (other relayers may have moved it further), it can be asked, and the clock has left the
  second in which the worker started. Or it fails, and nobody has moved the hub. (A worker
  whose attempt fails does not ask the hub; if another relayer has moved it meanwhile, the worker stays behind
  and goes on attempting an epoch that the hub has passed.) Whatever other goroutines do, the state stays good.
\<close>

definition succeeds ::
    "('b, 'p, 'w) bind_lib \<Rightarrow> ('t, 'c, 'a, 'w) relay_libs \<Rightarrow> 'w nodeConfig \<Rightarrow> 'w nodeConfig \<Rightarrow> i64 \<Rightarrow>
     (('c, 'w) sys \<Rightarrow> bool) \<Rightarrow> ('w \<Rightarrow> u64) \<Rightarrow> ('w \<Rightarrow> nat) \<Rightarrow> u64 \<Rightarrow> ('c, 'w) sys \<Rightarrow> bool" where
  "succeeds B L source target start good hub fails known st \<longleftrightarrow>
     (\<exists>st1 w1 t w2. attempt_transitions L source target ((hub (env st) + 1) * EpochLength (ncChainConfig source)) known
          (hub (env st)) st = Some (Ret True, st1)
        \<and> get_epoch B source target (env st1) = (Ret (hub w2), w1) \<and> now L w1 = (Ret t, w2) \<and> t \<noteq> start
        \<and> hub (env st) < hub w2 \<and> fails w2 \<le> fails (env st) \<and> good (st1\<lparr>env := w2\<rparr>))"

definition fails_once ::
    "('t, 'c, 'a, 'w) relay_libs \<Rightarrow> 'w nodeConfig \<Rightarrow> 'w nodeConfig \<Rightarrow>
     (('c, 'w) sys \<Rightarrow> bool) \<Rightarrow> ('w \<Rightarrow> u64) \<Rightarrow> ('w \<Rightarrow> nat) \<Rightarrow> u64 \<Rightarrow> ('c, 'w) sys \<Rightarrow> bool" where
  "fails_once L source target good hub fails known st \<longleftrightarrow>
     (\<exists>st1. attempt_transitions L source target ((hub (env st) + 1) * EpochLength (ncChainConfig source)) known
          (hub (env st)) st = Some (Ret False, st1)
        \<and> hub (env st1) = hub (env st) \<and> fails (env st1) < fails (env st) \<and> good st1)"

definition hub_moves ::
    "('b, 'p, 'w) bind_lib \<Rightarrow> ('t, 'c, 'a, 'w) relay_libs \<Rightarrow> 'w nodeConfig \<Rightarrow> 'w nodeConfig \<Rightarrow> u64 set \<Rightarrow> i64 \<Rightarrow>
     (('c, 'w) sys \<Rightarrow> bool) \<Rightarrow> ('w \<Rightarrow> u64) \<Rightarrow> ('w \<Rightarrow> nat) \<Rightarrow> bool" where
  "hub_moves B L source target heads start good hub fails \<longleftrightarrow>
     (let len = EpochLength (ncChainConfig source) in
      (\<forall>st. good st \<longrightarrow> unat (hub (env st)) * unat len + unat len < 2 ^ 64
         \<and> (\<forall>acts. good (st\<lparr>svc := others L acts (svc st)\<rparr>)))
      \<and> (\<forall>st known. good st \<longrightarrow> known \<in> heads \<longrightarrow> unat (hub (env st)) * unat len + unat len \<le> unat known \<longrightarrow>
           succeeds B L source target start good hub fails known st \<or> fails_once L source target good hub fails known st))"

lemma hub_movesD:
  assumes "hub_moves B L source target heads start good hub fails" and "good st"
  shows "unat (hub (env st)) * unat (EpochLength (ncChainConfig source)) + unat (EpochLength (ncChainConfig source)) < 2 ^ 64"
    and "good (st\<lparr>svc := others L acts (svc st)\<rparr>)"
    and "known \<in> heads \<Longrightarrow>
      unat (hub (env st)) * unat (EpochLength (ncChainConfig source)) + unat (EpochLength (ncChainConfig source)) \<le> unat known \<Longrightarrow>
      succeeds B L source target start good hub fails known st \<or> fails_once L source target good hub fails known st"
  using assms unfolding hub_moves_def Let_def by blast+

text \<open>The block that the worker waits for, without wrap-around.\<close>

lemma wait_block:
  "unat e * unat len + unat len < 2 ^ 64 \<Longrightarrow> unat ((e + 1) * len) = unat e * unat len + unat (len :: u64)"
proof -
  assume bound: "unat e * unat len + unat len < 2 ^ 64"
  have "(e + 1) * len = of_nat (unat e * unat len + unat len)"
    by (simp add: distrib_right)
  then have "unat ((e + 1) * len) = (unat e * unat len + unat len) mod 2 ^ 64"
    by (simp only: unat_of_nat) simp
  then show ?thesis
    using bound by simp
qed

text \<open>With the clock off the start, the statistics never fail.\<close>

lemma record_progress_runs:
  assumes "get_epoch B source target w = (Ret epoch, w1)" and "now L w1 = (Ret t, w2)" and "t \<noteq> lastProcessTime v"
  shows "\<exists>v' stats. record_progress B L source target known v w = (Ret (v', stats), w2)
           \<and> latestTransitionedEpoch v' = epoch \<and> lastProcessTime v' = lastProcessTime v"
  using assms
  by (auto simp: record_progress_def Let_def io_bind_eval(1) go_div_def io_ret_def)

lemma handle_block_succeeds:
  assumes "succeeds B L source target (lastProcessTime v) good hub fails known st" and "latestTransitionedEpoch v = hub (env st)"
    and "\<not> known < (hub (env st) + 1) * EpochLength (ncChainConfig source)"
  shows "\<exists>v' stats st'. handle_block B L source target known v st = Some (Ret (v', stats), st')
    \<and> good st' \<and> latestTransitionedEpoch v' = hub (env st') \<and> lastProcessTime v' = lastProcessTime v
    \<and> hub (env st) < hub (env st') \<and> fails (env st') \<le> fails (env st)"
proof -
  let ?b = "(latestTransitionedEpoch v + 1) * EpochLength (ncChainConfig source)"
  obtain st1 w1 t w2 where moved: "attempt_transitions L source target ?b known (latestTransitionedEpoch v) st = Some (Ret True, st1)"
    "get_epoch B source target (env st1) = (Ret (hub w2), w1)" "now L w1 = (Ret t, w2)" "t \<noteq> lastProcessTime v"
    "hub (env st) < hub w2" "fails w2 \<le> fails (env st)" "good (st1\<lparr>env := w2\<rparr>)"
    using assms(1,2) unfolding succeeds_def by metis
  then show ?thesis
    using record_progress_runs [OF moved(2-4), of known] assms(2,3)
    by (auto simp: handle_block_def Let_def not_less lio_bind_eval(1) lio_of_def on_env_def)
qed

lemma handle_block_fails:
  assumes "fails_once L source target good hub fails known st" and "latestTransitionedEpoch v = hub (env st)"
    and "\<not> known < (hub (env st) + 1) * EpochLength (ncChainConfig source)"
  shows "\<exists>st'. handle_block B L source target known v st = Some (Ret (v, None), st')
    \<and> good st' \<and> hub (env st') = hub (env st) \<and> fails (env st') < fails (env st)"
proof -
  let ?b = "(latestTransitionedEpoch v + 1) * EpochLength (ncChainConfig source)"
  obtain st1 where "attempt_transitions L source target ?b known (latestTransitionedEpoch v) st = Some (Ret False, st1)"
    "hub (env st1) = hub (env st)" "fails (env st1) < fails (env st)" "good st1"
    using assms(1,2) unfolding fails_once_def by metis
  then show ?thesis
    using assms(2,3) by (intro exI [of _ st1]) (simp add: handle_block_def Let_def lio_bind_def lio_of_def io_ret_def not_less)
qed

text \<open>One number: a confirmed epoch moves the hub or uses up a failure.\<close>

lemma handle_block_moves:
  assumes "hub_moves B L source target heads (lastProcessTime v) good hub fails" and "good st" and "known \<in> heads"
    and "latestTransitionedEpoch v = hub (env st)" and "len = EpochLength (ncChainConfig source)"
  obtains v' stats st' where "handle_block B L source target known v st = Some (Ret (v', stats), st')"
    and "good st'" and "latestTransitionedEpoch v' = hub (env st')" and "lastProcessTime v' = lastProcessTime v"
    and "unat (hub (env st)) \<le> unat (hub (env st'))" and "fails (env st') \<le> fails (env st)"
    and "unat (hub (env st)) * unat len + unat len \<le> unat known \<Longrightarrow>
           unat (hub (env st)) + fails (env st') + 1 \<le> unat (hub (env st')) + fails (env st)"
proof -
  have b: "unat ((hub (env st) + 1) * EpochLength (ncChainConfig source)) = unat (hub (env st)) * unat len + unat len"
    using wait_block hub_movesD(1) [OF assms(1,2)] assms(5) by simp
  show ?thesis
  proof (cases "unat (hub (env st)) * unat len + unat len \<le> unat known")
    case False
    then have "known < (latestTransitionedEpoch v + 1) * EpochLength (ncChainConfig source)"
      using b assms(4) by (simp add: word_less_nat_alt)
    then show ?thesis
      using False assms(2,4) by (intro that [of v None st]) (simp_all add: handle_block_def Let_def lio_of_def io_ret_def)
  next
    case True
    then have due: "\<not> known < (hub (env st) + 1) * EpochLength (ncChainConfig source)"
      using b by (simp add: word_less_nat_alt)
    have "succeeds B L source target (lastProcessTime v) good hub fails known st \<or> fails_once L source target good hub fails known st"
      using hub_movesD(3) [OF assms(1-3)] True assms(5) by simp
    then show ?thesis
    proof
      assume "succeeds B L source target (lastProcessTime v) good hub fails known st"
      from handle_block_succeeds [OF this assms(4) due] show ?thesis
        by (elim exE conjE) (erule that, auto simp: word_less_nat_alt)
    next
      assume "fails_once L source target good hub fails known st"
      from handle_block_fails [OF this assms(4) due, of B] show ?thesis
        by (elim exE conjE) (erule that, auto simp: assms(4))
    qed
  qed
qed

section \<open>Catching up\<close>

text \<open>The received numbers that confirm the first block of epoch \<open>N\<close>.\<close>

definition confirming :: "u64 \<Rightarrow> nat \<Rightarrow> (svc_action list \<times> u64) list \<Rightarrow> (svc_action list \<times> u64) list" where
  "confirming len N received = filter (\<lambda>(_, known). N * unat len \<le> unat known) received"

lemma worker_loop_moves:
  "hub_moves B L source target heads (lastProcessTime v) good hub fails \<Longrightarrow> good st \<Longrightarrow> snd ` set received \<subseteq> heads \<Longrightarrow>
   latestTransitionedEpoch v = hub (env st) \<Longrightarrow> len = EpochLength (ncChainConfig source) \<Longrightarrow>
   \<exists>v' st'. worker_loop B L source target received v st = Some (Ret v', st')
     \<and> latestTransitionedEpoch v' = hub (env st') \<and> unat (hub (env st)) \<le> unat (hub (env st'))
     \<and> (N \<le> unat (hub (env st')) \<or>
        unat (hub (env st)) + length (confirming len N received) \<le> unat (hub (env st')) + fails (env st))"
proof (induction received arbitrary: v st)
  case Nil
  then show ?case by (simp add: lio_of_def io_ret_def confirming_def)
next
  case (Cons r received)
  obtain acts known where r: "r = (acts, known)" by (cases r)
  let ?st = "st\<lparr>svc := others L acts (svc st)\<rparr>"
  have st: "good ?st" "known \<in> heads" "latestTransitionedEpoch v = hub (env ?st)"
    using hub_movesD(2) [OF Cons.prems(1,2)] Cons.prems(3,4) by (auto simp: r)
  obtain v1 stats st1 where block: "handle_block B L source target known v ?st = Some (Ret (v1, stats), st1)"
    "good st1" "latestTransitionedEpoch v1 = hub (env st1)" "lastProcessTime v1 = lastProcessTime v"
    "unat (hub (env st)) \<le> unat (hub (env st1))" "fails (env st1) \<le> fails (env st)"
    "unat (hub (env st)) * unat len + unat len \<le> unat known \<Longrightarrow>
       unat (hub (env st)) + fails (env st1) + 1 \<le> unat (hub (env st1)) + fails (env st)"
    by (rule handle_block_moves [OF Cons.prems(1) st Cons.prems(5)]) (erule that, simp_all)
  obtain v' st' where rest: "worker_loop B L source target received v1 st1 = Some (Ret v', st')"
    "latestTransitionedEpoch v' = hub (env st')" "unat (hub (env st1)) \<le> unat (hub (env st'))"
    "N \<le> unat (hub (env st')) \<or>
       unat (hub (env st1)) + length (confirming len N received) \<le> unat (hub (env st')) + fails (env st1)"
    using Cons.IH [of v1 st1] Cons.prems(1,3,5) block(2-4) by auto
  have run: "worker_loop B L source target (r # received) v st = Some (Ret v', st')"
    using block(1) rest(1) by (simp add: r lio_bind_def lio_of_def on_svc_def)
  have "N \<le> unat (hub (env st')) \<or>
      unat (hub (env st)) + length (confirming len N (r # received)) \<le> unat (hub (env st')) + fails (env st)"
  proof (cases "N * unat len \<le> unat known \<and> unat (hub (env st)) < N")
    case True
    then have "(unat (hub (env st)) + 1) * unat len \<le> N * unat len"
      by (intro mult_le_mono1) simp
    then have "unat (hub (env st)) * unat len + unat len \<le> unat known"
      using True by (simp add: distrib_right)
    then show ?thesis
      using block(7) rest(4) True by (auto simp: confirming_def r)
  next
    case False
    then show ?thesis
      using block(5,6) rest(3,4) by (auto simp: confirming_def r)
  qed
  then show ?case
    using run rest(2,3) block(5) by (intro exI [of _ v'] exI [of _ st']) simp
qed

section \<open>Properties\<close>

text \<open>
  Property C16. A worker that is behind catches up. Let a sequence of block numbers arrive, in any
  order and with any actions of other goroutines in between, such as the increasing numbers
  of the fetcher. If as many of them confirm the first block of epoch \<open>N\<close> as the hub lacks epochs up to \<open>N\<close>,
  and one more for each attempt that fails (\<open>hub_moves\<close>), then the worker is still running afterwards, has
  neither panicked nor waited forever, has reached epoch \<open>N\<close>, and stands where the hub stands.
\<close>

theorem epochWorker_catches_up:
  assumes "len = EpochLength (ncChainConfig source)" and "len \<noteq> 0"
    and "get_epoch B source target (env st) = (Ret (hub w2), w1)" and "now L w1 = (Ret start, w2)"
    and "hub_moves B L source target (snd ` set received) start good hub fails" and "good (st\<lparr>env := w2\<rparr>)"
    and "N + fails w2 \<le> unat (hub w2) + length (filter (\<lambda>(_, known). N * unat len \<le> unat known) received)"
  shows "\<exists>v st'. epochWorker B L source target received st = Some (Ret v, st')
           \<and> N \<le> unat (latestTransitionedEpoch v) \<and> latestTransitionedEpoch v = hub (env st')"
proof -
  let ?v = "\<lparr>latestTransitionedEpoch = hub w2, lastProcessTime = start, totalProcessedBlocks = 0\<rparr>"
  have start: "start_worker B L source target (env st) = (Ret ?v, w2)"
    using assms(1-4) by (simp add: start_worker_def io_bind_eval(1) io_ret_def)
  have moves: "hub_moves B L source target (snd ` set received) (lastProcessTime ?v) good hub fails"
    using assms(5) by simp
  obtain v st' where loop: "worker_loop B L source target received ?v (st\<lparr>env := w2\<rparr>) = Some (Ret v, st')"
    "latestTransitionedEpoch v = hub (env st')"
    "N \<le> unat (hub (env st')) \<or> unat (hub w2) + length (confirming len N received) \<le> unat (hub (env st')) + fails w2"
    using worker_loop_moves [OF moves assms(6) subset_refl _ assms(1), of N] by auto
  then have "N \<le> unat (hub (env st'))"
    using assms(7) by (auto simp: confirming_def)
  then show ?thesis
    using start loop(1,2) by (simp add: epochWorker_def lio_bind_def lio_of_def on_env_def)
qed

theorem epochWorker_catches_up_witness:
  "\<exists>v st'. epochWorker (sample_bind :: (unit, unit, nat) bind_lib) sample_libs (sample_source [1, 2]) (sample_target 10000000)
       [([sample_received], 4), ([], 5)] sample_state = Some (Ret v, st')
     \<and> 2 \<le> unat (latestTransitionedEpoch v)"
proof -
  let ?hub = "\<lambda>w. of_nat (w - 1) :: u64"
  let ?good = "\<lambda>st :: ((lru_key \<times> ref) list, nat) sys. env st = 1 \<or> env st = 3"
  have moves: "hub_moves (sample_bind :: (unit, unit, nat) bind_lib) sample_libs (sample_source [1, 2])
      (sample_target 10000000) (snd ` set [([sample_received], 4), ([], 5)]) 0 ?good ?hub (\<lambda>_. 0)"
    by (auto simp: hub_moves_def succeeds_def Let_def sample_attempt_at sample_get_epoch sample_now)
  show ?thesis
    using epochWorker_catches_up [OF refl _ _ _ moves, of sample_state 1 0 2]
    by (simp add: sample_get_epoch sample_now sample_state_def) blast
qed

text \<open>Every number that the fetcher sends is a head that the node has reported, less the confirmations.\<close>

lemma latestBlockFetcher_reported:
  "latestBlockFetcher conf client n l w = (Ret (l', sent), w') \<Longrightarrow> known \<in> set sent \<Longrightarrow>
   \<exists>head v v'. ethBlockNumber client v = (Ret head, v') \<and> known = head - conf"
proof (induction n arbitrary: l w sent)
  case 0
  then show ?case by (auto simp: io_ret_iff)
next
  case (Suc n)
  obtain l1 out w1 rest where tick: "fetcher_tick conf client l w = (Ret (l1, out), w1)"
    and run: "latestBlockFetcher conf client n l1 w1 = (Ret (l', rest), w')"
    and sent: "sent = (case out of None \<Rightarrow> rest | Some b \<Rightarrow> b # rest)"
    using Suc.prems(1) by (auto simp: io_bind_Ret_iff io_ret_iff)
  have out: "out = Some known \<Longrightarrow> \<exists>head v v'. ethBlockNumber client v = (Ret head, v') \<and> known = head - conf"
    using tick unfolding fetcher_tick_Ret_iff by (auto split: if_splits)
  have "known \<in> set rest \<or> out = Some known"
    using Suc.prems(2) sent by (auto split: option.splits)
  then show ?case
    using Suc.IH [OF run] out by blast
qed

text \<open>
  Property C17. The worker acts on confirmed epochs only. If a number that the fetcher has sent makes it do
  anything at all (attempt a transition, sleep, ask the hub), then the node has reported a head with
  at least the configured number of confirmations on top of the first block of the epoch that the worker
  attempts. This needs a chain that is longer than the number of confirmations.
\<close>

theorem handle_block_confirmed:
  assumes "latestBlockFetcher conf client n l w = (Ret (l', sent), w')" and "known \<in> set sent" 
    and "\<forall>u head u'. ethBlockNumber client u = (Ret head, u') \<longrightarrow> conf \<le> head"
    and "handle_block B L source target known v st \<noteq> Some (Ret (v, None), st)"
    and "b = (latestTransitionedEpoch v + 1) * EpochLength (ncChainConfig source)"
  shows "\<exists>head u u'. ethBlockNumber client u = (Ret head, u') \<and> known = head - conf
           \<and> unat b + unat conf \<le> unat head"
proof -
  obtain head u u' where head: "ethBlockNumber client u = (Ret head, u')" "known = head - conf"
    using latestBlockFetcher_reported [OF assms(1,2)] by blast
  have "handle_block B L source target known v st = Some (Ret (v, None), st)" if "known < b"
    using that unfolding assms(5) by (simp add: handle_block_def Let_def lio_of_def io_ret_def)
  then have "b \<le> known"
    using assms(4) by (meson not_less)
  moreover have "conf \<le> head"
    using head(1) assms(3) by blast
  then have "unat known = unat head - unat conf" and "unat conf \<le> unat head"
    using head(2) by (simp_all add: unat_sub word_le_nat_alt)
  ultimately have "unat b + unat conf \<le> unat head"
    by (simp add: word_le_nat_alt)
  then show ?thesis using head by blast
qed

theorem handle_block_confirmed_witness:
  "\<exists>head u u'. ethBlockNumber (sample_client [1, 2] id) u = (Ret head, u') \<and> (5 :: u64) = head - 95
     \<and> unat (2 :: u64) + unat (95 :: u64) \<le> unat head"
proof -
  let ?v = "\<lparr>latestTransitionedEpoch = 0, lastProcessTime = 0, totalProcessedBlocks = 0\<rparr>"
  have run: "latestBlockFetcher 95 (sample_client [1, 2] id) 1 0 () = (Ret (100, [5]), ())"
    by (simp add: fetcher_tick_def sample_client_def io_bind_def io_ret_def)
  have acts: "handle_block sample_bind sample_libs (sample_source [1, 2]) (sample_target 10000000) 5 ?v sample_state
      \<noteq> Some (Ret (?v, None), sample_state)"
    by (simp add: sample_handle)
  show ?thesis
    using handle_block_confirmed [OF run _ _ acts refl] by (simp add: sample_client_def)
qed

end
