(* ===== verification/Solidity.thy ===== *)
theory Solidity
  imports Ethereum
begin

text \<open>
  The part of Solidity and of the EVM that the contracts under \<open>contracts/\<close> use: calls that return or
  revert, arithmetic that is checked (outside \<open>assembly\<close>) or wraps (inside), calldata that reads as
  zero past its end, and byte arrays in memory.

  A \<open>uint256\<close> that counts bytes or points into calldata is a natural number, with the bound
  \<open>2 ^ 256\<close> written out; a \<open>uint256\<close> that is a set of bits is a \<open>256 word\<close>; \<open>uint64\<close> and
  \<open>uint32\<close> are words as on the Go side.
\<close>

named_theorems evm_inv \<open>inversion of a completed contract call into its parts\<close>

section \<open>Calls\<close>

datatype sol_error =
    Require string
  | Arithmetic
  | DivisionByZero
  | OutOfBounds
  | BadAllocation
  | OutOfGas
  | CallFailed string
  | BadCalldata

datatype 'a evm = Done 'a | Revert sol_error

fun evm_bind :: "'a evm \<Rightarrow> ('a \<Rightarrow> 'b evm) \<Rightarrow> 'b evm" where
  "evm_bind (Done x) f = f x"
| "evm_bind (Revert e) f = Revert e"

definition require :: "bool \<Rightarrow> string \<Rightarrow> unit evm" where
  "require c msg = (if c then Done () else Revert (Require msg))"

lemma evm_bind_Done_iff [evm_inv]: "evm_bind m f = Done y \<longleftrightarrow> (\<exists>x. m = Done x \<and> f x = Done y)"
  by (cases m) auto

lemma evm_bind_assoc: "evm_bind (evm_bind m f) g = evm_bind m (\<lambda>x. evm_bind (f x) g)"
  by (cases m) auto

lemma require_Done_iff [evm_inv]: "require c msg = Done u \<longleftrightarrow> c"
  by (simp add: require_def)

lemma require_simps [simp]: "c \<Longrightarrow> require c msg = Done ()" "\<not> c \<Longrightarrow> require c msg = Revert (Require msg)"
  by (simp_all add: require_def)

text \<open>As a congruence rule: evaluate the first call of a sequence before looking at the rest.\<close>

lemma evm_first: "m = m' \<Longrightarrow> evm_bind m f = evm_bind m' f"
  by simp

section \<open>Arithmetic\<close>

type_synonym u256 = "256 word"

definition uadd :: "nat \<Rightarrow> nat \<Rightarrow> nat evm" where
  "uadd a b = (if a + b < 2 ^ 256 then Done (a + b) else Revert Arithmetic)"

definition usub :: "nat \<Rightarrow> nat \<Rightarrow> nat evm" where
  "usub a b = (if b \<le> a then Done (a - b) else Revert Arithmetic)"

lemma uadd_Done_iff [evm_inv]: "uadd a b = Done c \<longleftrightarrow> a + b < 2 ^ 256 \<and> c = a + b"
  by (auto simp: uadd_def)

lemma usub_Done_iff [evm_inv]: "usub a b = Done c \<longleftrightarrow> b \<le> a \<and> c = a - b"
  by (auto simp: usub_def)

lemma uadd_Done: "a + b < 2 ^ 256 \<Longrightarrow> uadd a b = Done (a + b)"
  by (simp add: uadd_def)

lemma usub_Done: "b \<le> a \<Longrightarrow> usub a b = Done (a - b)"
  by (simp add: usub_def)

text \<open>\<open>uint64\<close>, checked.\<close>

definition add64 :: "u64 \<Rightarrow> u64 \<Rightarrow> u64 evm" where
  "add64 a b = (if unat a + unat b < 2 ^ 64 then Done (a + b) else Revert Arithmetic)"

definition sub64 :: "u64 \<Rightarrow> u64 \<Rightarrow> u64 evm" where
  "sub64 a b = (if b \<le> a then Done (a - b) else Revert Arithmetic)"

definition div64 :: "u64 \<Rightarrow> u64 \<Rightarrow> u64 evm" where
  "div64 a b = (if b = 0 then Revert DivisionByZero else Done (a div b))"

definition mod64 :: "u64 \<Rightarrow> u64 \<Rightarrow> u64 evm" where
  "mod64 a b = (if b = 0 then Revert DivisionByZero else Done (a mod b))"

lemma div64_Done_iff [evm_inv]: "div64 a b = Done c \<longleftrightarrow> b \<noteq> 0 \<and> c = a div b"
  by (auto simp: div64_def)

lemma mod64_Done_iff [evm_inv]: "mod64 a b = Done c \<longleftrightarrow> b \<noteq> 0 \<and> c = a mod b"
  by (auto simp: mod64_def)

lemma sub64_Done_iff [evm_inv]: "sub64 a b = Done c \<longleftrightarrow> b \<le> a \<and> c = a - b"
  by (auto simp: sub64_def)

lemma add64_Done_iff [evm_inv]: "add64 a b = Done c \<longleftrightarrow> unat a + unat b < 2 ^ 64 \<and> c = a + b"
  by (auto simp: add64_def)

text \<open>The instructions \<open>ADD\<close>, \<open>SUB\<close>, \<open>MUL\<close> and \<open>SHR\<close> of \<open>assembly\<close> blocks.\<close>

definition evm_add :: "nat \<Rightarrow> nat \<Rightarrow> nat" where
  "evm_add a b = (a + b) mod 2 ^ 256"

definition evm_sub :: "nat \<Rightarrow> nat \<Rightarrow> nat" where
  "evm_sub a b = (if b \<le> a then a - b else a + 2 ^ 256 - b)"

definition evm_mul :: "nat \<Rightarrow> nat \<Rightarrow> nat" where
  "evm_mul a b = a * b mod 2 ^ 256"

definition evm_shr :: "nat \<Rightarrow> nat \<Rightarrow> nat" where
  "evm_shr s w = (if s < 256 then w div 2 ^ s else 0)"

lemma evm_sub_le: "b \<le> a \<Longrightarrow> evm_sub a b = a - b"
  by (simp add: evm_sub_def)

lemma evm_add_less: "a + b < 2 ^ 256 \<Longrightarrow> evm_add a b = a + b"
  by (simp add: evm_add_def)

section \<open>Numbers as bytes\<close>

text \<open>Big-endian: the value of a byte string, a number in \<open>n\<close> bytes, and in as few as possible.\<close>

fun be_val :: "bytes \<Rightarrow> nat" where
  "be_val [] = 0"
| "be_val (b # bs) = unat b * 256 ^ length bs + be_val bs"

fun be_fixed :: "nat \<Rightarrow> nat \<Rightarrow> bytes" where
  "be_fixed 0 v = []"
| "be_fixed (Suc n) v = be_fixed n (v div 256) @ [word_of_nat v]"

function be_min :: "nat \<Rightarrow> bytes" where
  "be_min v = (if v = 0 then [] else be_min (v div 256) @ [word_of_nat v])"
  by pat_completeness auto
termination
  by (relation "measure id") auto

declare be_min.simps [simp del]

lemma be_val_append: "be_val (xs @ ys) = be_val xs * 256 ^ length ys + be_val ys"
  by (induction xs) (simp_all add: algebra_simps power_add)

lemma be_val_less: "be_val bs < 256 ^ length bs"
proof (induction bs)
  case (Cons b bs)
  have "unat b < 256"
    using unsigned_less [of b] by simp
  then have "unat b * 256 ^ length bs + be_val bs < Suc (unat b) * 256 ^ length bs"
    using Cons.IH by simp
  also have "\<dots> \<le> 256 * 256 ^ length bs"
    using \<open>unat b < 256\<close> by (intro mult_right_mono) simp_all
  finally show ?case by simp
qed simp

lemma length_be_fixed [simp]: "length (be_fixed n v) = n"
  by (induction n arbitrary: v) auto

lemma unat_low_byte: "unat (word_of_nat v :: u8) = v mod 256"
  by (simp add: unat_of_nat)

lemma be_val_fixed: "be_val (be_fixed n v) = v mod 256 ^ n"
proof (induction n arbitrary: v)
  case (Suc n)
  have "v mod (256 * 256 ^ n) = 256 * (v div 256 mod 256 ^ n) + v mod 256"
    by (rule mod_mult2_eq)
  then show ?case
    by (simp add: be_val_append Suc.IH unat_low_byte)
qed simp

lemma be_val_snoc: "be_val (bs @ [b]) = be_val bs * 256 + unat b"
  by (simp add: be_val_append)

lemma be_fixed_val: "be_fixed (length bs) (be_val bs) = bs"
proof (induction bs rule: rev_induct)
  case (snoc b bs)
  have b: "unat b < 256"
    using unsigned_less [of b] by simp
  have "(be_val bs * 256 + unat b) div 256 = be_val bs"
    using b by simp
  moreover have "(word_of_nat (be_val bs * 256 + unat b) :: u8) = b"
    using b by (intro word_unat_eq_iff [THEN iffD2]) (simp add: unat_low_byte del: of_nat_add of_nat_mult)
  ultimately show ?case
    using snoc.IH by (simp add: be_val_snoc del: of_nat_add of_nat_mult)
qed simp

lemma be_val_min: "be_val (be_min v) = v"
proof (induction v rule: less_induct)
  case (less v)
  show ?case
  proof (cases "v = 0")
    case False
    then have "be_val (be_min (v div 256)) = v div 256"
      by (intro less.IH) simp
    then show ?thesis
      using False by (simp add: be_min.simps [of v] be_val_append unat_low_byte)
  qed (simp add: be_min.simps)
qed

lemma length_be_min_le: "v < 256 ^ n \<Longrightarrow> length (be_min v) \<le> n"
proof (induction n arbitrary: v)
  case (Suc n)
  then have "v div 256 < 256 ^ n"
    by (simp add: less_mult_imp_div_less mult.commute)
  then show ?case
    using Suc.IH by (simp add: be_min.simps [of v])
qed (simp add: be_min.simps)

lemma be_min_Nil_iff [simp]: "be_min v = [] \<longleftrightarrow> v = 0"
  by (simp add: be_min.simps [of v])

section \<open>Calldata and memory\<close>

definition cd_slice :: "bytes \<Rightarrow> nat \<Rightarrow> nat \<Rightarrow> bytes" where
  "cd_slice cd p n = take n (drop p cd @ replicate n 0)"

definition calldataload :: "bytes \<Rightarrow> nat \<Rightarrow> nat" where
  "calldataload cd p = be_val (cd_slice cd p 32)"

lemma length_cd_slice [simp]: "length (cd_slice cd p n) = n"
  by (simp add: cd_slice_def)

text \<open>\<open>new bytes(n)\<close>, and writing bytes at an offset of an array: writes past its end go to memory that
  is allocated, and then cleared, only afterwards. A copy of \<open>2 ^ 64\<close> bytes or more exceeds every
  gas limit.\<close>

definition new_bytes :: "nat \<Rightarrow> bytes evm" where
  "new_bytes n = (if n < 2 ^ 64 then Done (replicate n 0) else Revert BadAllocation)"

definition mem_write :: "bytes \<Rightarrow> nat \<Rightarrow> bytes \<Rightarrow> bytes" where
  "mem_write arr at bs = take at arr @ take (length arr - at) bs @ drop (at + length bs) arr"

definition calldatacopy :: "bytes \<Rightarrow> bytes \<Rightarrow> nat \<Rightarrow> nat \<Rightarrow> nat \<Rightarrow> bytes evm" where
  "calldatacopy cd arr dst src len =
     (if len < 2 ^ 64 then Done (mem_write arr dst (cd_slice cd src (min len (length arr - dst))))
      else Revert OutOfGas)"

definition set_byte :: "bytes \<Rightarrow> nat \<Rightarrow> u8 \<Rightarrow> bytes evm" where
  "set_byte arr i b = (if i < length arr then Done (arr[i := b]) else Revert OutOfBounds)"

definition get_byte :: "bytes \<Rightarrow> nat \<Rightarrow> u8 evm" where
  "get_byte arr i = (if i < length arr then Done (arr ! i) else Revert OutOfBounds)"

lemma mem_write_mid: "length x = length bs \<Longrightarrow> mem_write (a @ x @ c) (length a) bs = a @ bs @ c"
  by (simp add: mem_write_def)

lemma length_mem_write [simp]: "at + length bs \<le> length arr \<Longrightarrow> length (mem_write arr at bs) = length arr"
  by (simp add: mem_write_def)

lemma set_byte_mid: "set_byte (a @ x # c) (length a) b = Done (a @ b # c)"
  by (simp add: set_byte_def)

text \<open>The bytes \<open>x\<close> lie in the calldata at \<open>p\<close>.\<close>

definition lies :: "bytes \<Rightarrow> nat \<Rightarrow> bytes \<Rightarrow> bool" where
  "lies cd p x \<longleftrightarrow> take (length x) (drop p cd) = x"

lemma lies_append: "lies cd p (x @ y) \<longleftrightarrow> lies cd p x \<and> lies cd (p + length x) y"
proof -
  have "take (length x + length y) (drop p cd) = take (length x) (drop p cd) @ take (length y) (drop (length x) (drop p cd))"
    by (rule take_add)
  moreover have "take (length x) (drop p cd) @ zs = x @ y \<longleftrightarrow> take (length x) (drop p cd) = x \<and> zs = y"
    if "length zs \<le> length y" for zs
  proof (cases "length (take (length x) (drop p cd)) = length x")
    case False
    then have "length (take (length x) (drop p cd)) < length x" by simp
    then have "length (take (length x) (drop p cd) @ zs) < length (x @ y)"
      using that by simp
    then show ?thesis
      using \<open>length (take (length x) (drop p cd)) < length x\<close> by (metis nat_less_le)
  qed simp
  ultimately show ?thesis
    by (simp add: lies_def add.commute)
qed

lemma lies_Cons: "lies cd p (b # x) \<longleftrightarrow> lies cd p [b] \<and> lies cd (Suc p) x"
  using lies_append [of cd p "[b]" x] by simp

lemma lies_bound: "lies cd p x \<Longrightarrow> x \<noteq> [] \<Longrightarrow> p + length x \<le> length cd"
proof -
  assume *: "lies cd p x" "x \<noteq> []"
  then have "length x \<le> length cd - p"
    by (metis length_drop length_take lies_def min.cobounded1)
  moreover have "p < length cd"
    using * by (cases "p < length cd") (auto simp: lies_def)
  ultimately show ?thesis by simp
qed

lemma lies_slice: "lies cd p x \<Longrightarrow> cd_slice cd p (length x) = x"
proof (cases "x = []")
  case False
  assume "lies cd p x"
  then show ?thesis
    using lies_bound [OF _ False, of cd p] by (simp add: cd_slice_def lies_def)
qed (simp add: cd_slice_def)

text \<open>The leading bytes of a word of calldata, as a shift to the right reads them.\<close>

lemma cd_slice_take: "k \<le> n \<Longrightarrow> take k (cd_slice cd p n) = cd_slice cd p k"
  by (cases "k \<le> length cd - p") (simp_all add: cd_slice_def min_absorb1)

lemma calldataload_shr:
  assumes "k \<le> 32"
  shows "evm_shr (8 * (32 - k)) (calldataload cd p) = be_val (cd_slice cd p k)"
proof -
  have "cd_slice cd p 32 = cd_slice cd p k @ drop k (cd_slice cd p 32)"
    using cd_slice_take [OF assms, of cd p] append_take_drop_id [of k "cd_slice cd p 32"] by simp
  then have eq: "calldataload cd p = be_val (cd_slice cd p k) * 256 ^ (32 - k) + be_val (drop k (cd_slice cd p 32))"
    unfolding calldataload_def using be_val_append [of "cd_slice cd p k" "drop k (cd_slice cd p 32)"] by simp
  moreover have "be_val (drop k (cd_slice cd p 32)) < 256 ^ (32 - k)"
    using be_val_less [of "drop k (cd_slice cd p 32)"] by simp
  moreover have pow: "(2 :: nat) ^ (8 * (32 - k)) = 256 ^ (32 - k)"
    by (simp add: power_mult)
  ultimately have "calldataload cd p div 256 ^ (32 - k) = be_val (cd_slice cd p k)"
    by simp
  then show ?thesis
    using pow by (cases "k = 0") (simp_all add: evm_shr_def cd_slice_def)
qed

lemma calldataload_lies:
  "lies cd p x \<Longrightarrow> length x \<le> 32 \<Longrightarrow> evm_shr (8 * (32 - length x)) (calldataload cd p) = be_val x"
  by (simp add: calldataload_shr lies_slice)

end
