(* ===== verification/ContractRlp.thy ===== *)
theory ContractRlp
  imports Solidity
begin

text \<open>
  RLP in calldata (\<open>contracts/libraries/RLP.sol\<close>): iterators over items, the readers of numbers, hashes
  and addresses, and the encoder of a number. The reference is the encoding itself as the Ethereum
  documentation defines it (\<open>rlp_string\<close>, \<open>rlp_list\<close>), which the Go side gets from \<open>go-ethereum/rlp\<close>.
\<close>

section \<open>The library\<close>

definition STRING_SHORT_START :: nat where "STRING_SHORT_START = 0x80"
definition STRING_LONG_START :: nat where "STRING_LONG_START = 0xb8"
definition LIST_SHORT_START :: nat where "LIST_SHORT_START = 0xc0"
definition LIST_LONG_START :: nat where "LIST_LONG_START = 0xf8"

lemmas rlp_starts = STRING_SHORT_START_def STRING_LONG_START_def LIST_SHORT_START_def LIST_LONG_START_def

text \<open>\<open>byte(0, calldataload(ptr))\<close>\<close>

definition byte0 :: "bytes \<Rightarrow> nat \<Rightarrow> nat" where
  "byte0 cd ptr = calldataload cd ptr div 2 ^ 248"

definition payloadOffset :: "bytes \<Rightarrow> nat \<Rightarrow> nat" where
  "payloadOffset cd ptr =
     (let b = byte0 cd ptr in
      if b < STRING_SHORT_START then 0
      else if b < STRING_LONG_START \<or> (b \<ge> LIST_SHORT_START \<and> b < LIST_LONG_START) then 1
      else if b < LIST_SHORT_START then b - (STRING_LONG_START - 1) + 1
      else b - (LIST_LONG_START - 1) + 1)"

definition long_length :: "bytes \<Rightarrow> nat \<Rightarrow> nat \<Rightarrow> nat" where
  "long_length cd ptr byteLen =
     (let dataLen = evm_shr (evm_mul 8 (evm_sub 32 byteLen)) (calldataload cd (evm_add ptr 1)) in
      evm_add dataLen (evm_add byteLen 1))"

definition itemLength :: "bytes \<Rightarrow> nat \<Rightarrow> nat" where
  "itemLength cd ptr =
     (let b = byte0 cd ptr in
      if b < STRING_SHORT_START then 1
      else if b < STRING_LONG_START then b - STRING_SHORT_START + 1
      else if b < LIST_SHORT_START then long_length cd ptr (evm_sub b 0xb7)
      else if b < LIST_LONG_START then b - LIST_SHORT_START + 1
      else long_length cd ptr (evm_sub b 0xf7))"

definition openRlp :: "nat \<times> nat \<Rightarrow> nat" where
  "openRlp rawRlp = fst rawRlp"

definition beginRlp :: "bytes \<Rightarrow> nat \<times> nat \<Rightarrow> nat evm" where
  "beginRlp cd rawRlp = uadd (fst rawRlp) (payloadOffset cd (fst rawRlp))"

definition beginIteration :: "bytes \<Rightarrow> nat \<Rightarrow> nat evm" where
  "beginIteration cd offset = uadd offset (payloadOffset cd offset)"

definition rlp_next :: "bytes \<Rightarrow> nat \<Rightarrow> nat evm" where
  "rlp_next cd iter = uadd iter (itemLength cd iter)"

definition prefixLength :: "bytes \<Rightarrow> nat \<Rightarrow> nat" where
  "prefixLength cd ptr = payloadOffset cd ptr"

definition toUint :: "bytes \<Rightarrow> nat \<Rightarrow> nat \<Rightarrow> nat evm" where
  "toUint cd ptr len =
     evm_bind (require (len > 0 \<and> len \<le> 33) []) (\<lambda>_.
     let offset = payloadOffset cd ptr;
         result = calldataload cd (evm_add ptr offset) in
     Done (evm_shr (evm_mul 8 (evm_sub 32 (evm_sub len offset))) result))"

definition toUint256 :: "bytes \<Rightarrow> nat \<Rightarrow> nat \<Rightarrow> nat evm" where
  "toUint256 cd ptr len = toUint cd ptr len"

text \<open>\<open>address(uint160(n))\<close> and \<open>bytes32(n)\<close> as bytes.\<close>

definition toAddress :: "bytes \<Rightarrow> nat \<Rightarrow> address evm" where
  "toAddress cd ptr = evm_bind (toUint cd ptr 21) (\<lambda>n. Done (be_fixed 20 n))"

definition toBytes32 :: "bytes \<Rightarrow> nat \<Rightarrow> hash evm" where
  "toBytes32 cd ptr = evm_bind (toUint cd ptr 33) (\<lambda>n. Done (be_fixed 32 n))"

definition uintRlpPrefixLength :: "nat \<Rightarrow> nat" where
  "uintRlpPrefixLength v =
     (if v < 2 ^ 8 then 1 else if v < 2 ^ 16 then 2 else if v < 2 ^ 24 then 3 else if v < 2 ^ 32 then 4
      else if v < 2 ^ 40 then 5 else if v < 2 ^ 48 then 6 else if v < 2 ^ 56 then 7 else 8)"

text \<open>\<open>bytes1(uint8(value >> k))\<close>\<close>

definition byte_at :: "nat \<Rightarrow> nat \<Rightarrow> u8" where
  "byte_at v k = word_of_nat (v div 2 ^ k)"

definition uintToRlp :: "nat \<Rightarrow> bytes" where
  "uintToRlp v =
     (if v = 0 then [0x80]
      else if v \<le> 0x7f then [byte_at v 0]
      else if v < 2 ^ 8 then [0x81, byte_at v 0]
      else if v < 2 ^ 16 then [0x82, byte_at v 8, byte_at v 0]
      else if v < 2 ^ 24 then [0x83, byte_at v 16, byte_at v 8, byte_at v 0]
      else if v < 2 ^ 32 then [0x84, byte_at v 24, byte_at v 16, byte_at v 8, byte_at v 0]
      else if v < 2 ^ 40 then [0x85, byte_at v 32, byte_at v 24, byte_at v 16, byte_at v 8, byte_at v 0]
      else if v < 2 ^ 48 then
        [0x86, byte_at v 40, byte_at v 32, byte_at v 24, byte_at v 16, byte_at v 8, byte_at v 0]
      else if v < 2 ^ 56 then
        [0x87, byte_at v 48, byte_at v 40, byte_at v 32, byte_at v 24, byte_at v 16, byte_at v 8, byte_at v 0]
      else
        [0x88, byte_at v 56, byte_at v 48, byte_at v 40, byte_at v 32, byte_at v 24, byte_at v 16, byte_at v 8,
         byte_at v 0])"

section \<open>The encoding\<close>

definition rlp_string :: "bytes \<Rightarrow> bytes" where
  "rlp_string b =
     (if length b = 1 \<and> hd b < 0x80 then b
      else if length b < 56 then word_of_nat (0x80 + length b) # b
      else word_of_nat (0xb7 + length (be_min (length b))) # be_min (length b) @ b)"

definition rlp_list :: "bytes list \<Rightarrow> bytes" where
  "rlp_list items =
     (let body = concat items in
      if length body < 56 then word_of_nat (0xc0 + length body) # body
      else word_of_nat (0xf7 + length (be_min (length body))) # be_min (length body) @ body)"

definition rlp_prefix :: "bytes \<Rightarrow> nat" where
  "rlp_prefix b = length (rlp_string b) - length b"

lemma length_rlp_string: "length (rlp_string b) = rlp_prefix b + length b"
  by (simp add: rlp_prefix_def rlp_string_def)

lemma rlp_prefix_eq:
  "rlp_prefix b = (if length b = 1 \<and> hd b < 0x80 then 0 else if length b < 56 then 1
     else Suc (length (be_min (length b))))"
  by (simp add: rlp_prefix_def rlp_string_def)

lemma rlp_string_nonempty: "rlp_string b \<noteq> []"
  by (cases b) (simp_all add: rlp_string_def)

section \<open>Reading an item\<close>

lemma byte0_lies:
  assumes "lies cd p (b # x)"
  shows "byte0 cd p = unat b"
proof -
  have "lies cd p [b]"
    using assms lies_Cons by blast
  then have "evm_shr (8 * (32 - length [b])) (calldataload cd p) = be_val [b]"
    by (rule calldataload_lies) simp
  then show ?thesis
    by (simp add: byte0_def evm_shr_def)
qed

lemma long_length_lies:
  assumes "lies cd p (b # be_min n @ x)" and "n < 2 ^ 64" and "p < 2 ^ 128"
  shows "long_length cd p (length (be_min n)) = Suc (length (be_min n)) + n"
proof -
  have len: "length (be_min n) \<le> 8"
    using length_be_min_le [of n 8] assms(2) by simp
  have "lies cd (Suc p) (be_min n)"
    using assms(1) lies_Cons lies_append by blast
  then have "evm_shr (8 * (32 - length (be_min n))) (calldataload cd (Suc p)) = n"
    using calldataload_lies [of cd "Suc p" "be_min n"] len by (simp add: be_val_min)
  moreover have "evm_mul 8 (32 - length (be_min n)) = 8 * (32 - length (be_min n))"
    using len by (simp add: evm_mul_def)
  ultimately show ?thesis
    using len assms(2,3) by (simp add: long_length_def evm_sub_le evm_add_less)
qed

lemma rlp_string_read:
  assumes lies: "lies cd p (rlp_string b)" and "length b < 2 ^ 64" and "p < 2 ^ 128"
  shows "payloadOffset cd p = rlp_prefix b" and "itemLength cd p = length (rlp_string b)"
    and "lies cd (p + rlp_prefix b) b"
proof -
  consider (single) x where "b = [x]" "x < 0x80"
    | (short) "\<not> (length b = 1 \<and> hd b < 0x80)" "length b < 56"
    | (long) "\<not> length b < 56"
    by (cases b) fastforce+
  then have "payloadOffset cd p = rlp_prefix b \<and> itemLength cd p = length (rlp_string b) \<and> lies cd (p + rlp_prefix b) b"
  proof cases
    case single
    then have "byte0 cd p = unat x" "unat x < 0x80"
      using lies byte0_lies [of cd p x "[]"] by (simp_all add: rlp_string_def word_less_nat_alt)
    then show ?thesis
      using single lies by (simp add: payloadOffset_def itemLength_def rlp_starts rlp_prefix_eq rlp_string_def)
  next
    case short
    then have eq: "rlp_string b = word_of_nat (0x80 + length b) # b"
      by (auto simp: rlp_string_def)
    have "byte0 cd p = 0x80 + length b"
      using lies byte0_lies [of cd p] short by (simp add: eq unat_of_nat del: of_nat_add)
    then show ?thesis
      using short lies lies_Cons [of cd p "word_of_nat (0x80 + length b)" b]
      by (auto simp: payloadOffset_def itemLength_def rlp_starts rlp_prefix_eq eq)
  next
    case long
    let ?n = "be_min (length b)"
    have eq: "rlp_string b = word_of_nat (0xb7 + length ?n) # ?n @ b"
      using long by (auto simp: rlp_string_def)
    have n: "length ?n \<le> 8" "0 < length ?n"
      using length_be_min_le [of "length b" 8] assms(2) long by auto
    have "byte0 cd p = 0xb7 + length ?n"
      using lies byte0_lies [of cd p] n by (simp add: eq unat_of_nat del: of_nat_add)
    moreover have "long_length cd p (length ?n) = Suc (length ?n) + length b"
      using long_length_lies [OF lies [unfolded eq]] assms(2,3) by simp
    moreover have "lies cd (Suc p + length ?n) b"
      using lies unfolding eq using lies_Cons lies_append by blast
    ultimately show ?thesis
      using long n by (auto simp: payloadOffset_def itemLength_def rlp_starts rlp_prefix_eq eq evm_sub_le)
  qed
  then show "payloadOffset cd p = rlp_prefix b" "itemLength cd p = length (rlp_string b)" "lies cd (p + rlp_prefix b) b"
    by simp_all
qed

lemma rlp_list_long:
  assumes "56 \<le> length (concat items)"
  shows "rlp_list items = word_of_nat (0xf7 + length (be_min (length (concat items)))) # be_min (length (concat items)) @ concat items"
  using assms by (simp add: rlp_list_def Let_def)

lemma rlp_list_read:
  assumes lies: "lies cd p (rlp_list items)" and "56 \<le> length (concat items)" and "length (concat items) < 2 ^ 64" and "p < 2 ^ 128"
  shows "payloadOffset cd p = Suc (length (be_min (length (concat items))))" and "itemLength cd p = length (rlp_list items)"
    and "lies cd (p + Suc (length (be_min (length (concat items))))) (concat items)"
proof -
  let ?n = "be_min (length (concat items))"
  note eq = rlp_list_long [OF assms(2)]
  have "length (concat items) \<noteq> 0"
    using assms(2) by linarith
  then have n: "length ?n \<le> 8" "0 < length ?n"
    using length_be_min_le [of "length (concat items)" 8] assms(3) by (simp_all only: length_greater_0_conv be_min_Nil_iff) simp_all
  have b: "byte0 cd p = 0xf7 + length ?n"
    using lies byte0_lies [of cd p] n by (simp add: eq unat_of_nat del: of_nat_add)
  have l: "long_length cd p (length ?n) = Suc (length ?n) + length (concat items)"
    using long_length_lies [OF lies [unfolded eq]] assms(3,4) by simp
  obtain k where k: "length ?n = k" "0 < k" "k \<le> 8"
    using n by blast
  show "payloadOffset cd p = Suc (length ?n)"
    using b k(2,3) unfolding k(1) by (simp add: payloadOffset_def rlp_starts)
  show "itemLength cd p = length (rlp_list items)"
    using b l k(2,3) unfolding eq length_Cons length_append k(1) by (simp add: itemLength_def rlp_starts evm_sub_le)
  show "lies cd (p + Suc (length ?n)) (concat items)"
    using lies unfolding eq by (metis add_Suc_right add_Suc_shift lies_Cons lies_append)
qed

text \<open>The steps of an iterator and the readers, for an item that is a string.\<close>

lemma rlp_next_read:
  assumes "lies cd p (rlp_string b)" and "length b < 2 ^ 64" and "p < 2 ^ 128"
  shows "rlp_next cd p = Done (p + length (rlp_string b))"
proof -
  have "length (rlp_string b) \<le> 9 + length b"
    using length_be_min_le [of "length b" 8] assms(2) by (simp add: length_rlp_string rlp_prefix_eq)
  then show ?thesis
    using assms by (simp add: rlp_next_def rlp_string_read(2) uadd_def)
qed

lemma toUint_read:
  assumes "lies cd p (rlp_string b)" and "length b \<le> 32" and "p < 2 ^ 128"
  shows "toUint cd p (length (rlp_string b)) = Done (be_val b)"
proof -
  have pre: "rlp_prefix b \<le> 1"
    using assms(2) by (simp add: rlp_prefix_eq)
  have "0 < length (rlp_string b)"
    using rlp_string_nonempty [of b] by (rule length_greater_0_conv [THEN iffD2])
  then have len: "0 < length (rlp_string b)" "length (rlp_string b) \<le> 33"
    using pre assms(2) by (simp_all add: length_rlp_string)
  have "length b < 2 ^ 64"
    using assms(2) by simp
  note read = rlp_string_read [OF assms(1) this assms(3)]
  have "evm_shr (8 * (32 - length b)) (calldataload cd (p + rlp_prefix b)) = be_val b"
    using calldataload_lies [OF read(3)] assms(2) by simp
  moreover have "evm_mul 8 (32 - length b) = 8 * (32 - length b)"
    by (simp add: evm_mul_def)
  ultimately show ?thesis
    using len pre assms(2,3) read(1)
    by (simp add: toUint_def evm_sub_le length_rlp_string evm_add_less)
qed

lemma toBytes32_read:
  assumes "lies cd p (rlp_string h)" and "length h = 32" and "p < 2 ^ 128"
  shows "toBytes32 cd p = Done h"
proof -
  have "length (rlp_string h) = 33"
    using assms(2) by (simp add: length_rlp_string rlp_prefix_eq)
  then show ?thesis
    using toUint_read [OF assms(1) _ assms(3)] assms(2) be_fixed_val [of h] by (simp add: toBytes32_def)
qed

lemma toAddress_read:
  assumes "lies cd p (rlp_string a)" and "length a = 20" and "p < 2 ^ 128"
  shows "toAddress cd p = Done a"
proof -
  have "length (rlp_string a) = 21"
    using assms(2) by (simp add: length_rlp_string rlp_prefix_eq)
  then show ?thesis
    using toUint_read [OF assms(1) _ assms(3)] assms(2) be_fixed_val [of a] by (simp add: toAddress_def)
qed

section \<open>Writing a number\<close>

lemma be_min_fixed: "0 < n \<Longrightarrow> 256 ^ (n - 1) \<le> v \<Longrightarrow> v < 256 ^ n \<Longrightarrow> be_min v = be_fixed n v"
proof (induction n arbitrary: v)
  case (Suc n)
  show ?case
  proof (cases "n = 0")
    case True
    with Suc.prems show ?thesis
      by (simp add: be_min.simps [of v] be_min.simps [of 0])
  next
    case False
    then obtain m where m: "n = Suc m"
      by (cases n) auto
    have pos: "0 < v"
      using Suc.prems(2) by (metis diff_Suc_1 le_zero_eq not_gr_zero power_not_zero zero_neq_numeral)
    have "256 * 256 ^ m \<le> v" "v < 256 ^ n * 256"
      using Suc.prems(2,3) m by (simp_all add: mult.commute)
    then have "256 ^ (n - 1) \<le> v div 256" "v div 256 < 256 ^ n"
      using m by (simp_all add: less_eq_div_iff_mult_less_eq less_mult_imp_div_less mult.commute)
    then have "be_min (v div 256) = be_fixed n (v div 256)"
      using Suc.IH False by simp
    then show ?thesis
      using pos by (simp add: be_min.simps [of v])
  qed
qed simp

lemma rlp_string_min:
  assumes "0 < n" and "n < 56" and "128 \<le> v" and "256 ^ (n - 1) \<le> v" and "v < 256 ^ n"
  shows "rlp_string (be_min v) = word_of_nat (0x80 + n) # be_fixed n v"
proof -
  have "be_min v = be_fixed n v"
    using assms be_min_fixed by blast
  moreover have "\<not> hd (be_fixed 1 v) < 0x80" if "n = 1"
    using assms(3,5) that by (simp add: word_less_nat_alt unat_low_byte)
  ultimately show ?thesis
    using assms(1,2) by (auto simp: rlp_string_def)
qed

lemma byte_at_div: "byte_at v k = word_of_nat (v div 2 ^ k)" "byte_at v 0 = word_of_nat v"
  by (simp_all add: byte_at_def)

lemma be_fixed_numeral:
  "be_fixed (numeral k) v = be_fixed (pred_numeral k) (v div 256) @ [word_of_nat v]"
  by (metis be_fixed.simps(2) numeral_eq_Suc)

lemma uintToRlp_eq:
  assumes "v < 2 ^ 64"
  shows "uintToRlp v = rlp_string (be_min v)"
proof -
  note bytes = uintToRlp_def be_fixed_numeral byte_at_div div_mult2_eq [symmetric]
  consider "v = 0" | "0 < v" "v < 128" | "128 \<le> v" "v < 2 ^ 8" | "2 ^ 8 \<le> v" "v < 2 ^ 16" | "2 ^ 16 \<le> v" "v < 2 ^ 24"
    | "2 ^ 24 \<le> v" "v < 2 ^ 32" | "2 ^ 32 \<le> v" "v < 2 ^ 40" | "2 ^ 40 \<le> v" "v < 2 ^ 48"
    | "2 ^ 48 \<le> v" "v < 2 ^ 56" | "2 ^ 56 \<le> v"
    by fastforce
  then show ?thesis
  proof cases
    case 1
    then show ?thesis by (simp add: uintToRlp_def be_min.simps rlp_string_def)
  next
    case 2
    then have "be_min v = [word_of_nat v]"
      by (simp add: be_min.simps [of v] be_min.simps [of 0])
    moreover have "(word_of_nat v :: u8) < 0x80"
      using 2 by (simp add: word_less_nat_alt unat_low_byte)
    ultimately show ?thesis
      using 2 by (simp add: uintToRlp_def rlp_string_def byte_at_div)
  next
    case 3
    then show ?thesis
      using rlp_string_min [of 1 v] by (simp add: uintToRlp_def byte_at_div)
  next
    case 4
    then show ?thesis
      using rlp_string_min [of 2 v] by (simp add: bytes)
  next
    case 5
    then show ?thesis
      using rlp_string_min [of 3 v] by (simp add: bytes)
  next
    case 6
    then show ?thesis
      using rlp_string_min [of 4 v] by (simp add: bytes)
  next
    case 7
    then show ?thesis
      using rlp_string_min [of 5 v] by (simp add: bytes)
  next
    case 8
    then show ?thesis
      using rlp_string_min [of 6 v] by (simp add: bytes)
  next
    case 9
    then show ?thesis
      using rlp_string_min [of 7 v] by (simp add: bytes)
  next
    case 10
    then show ?thesis
      using rlp_string_min [of 8 v] assms by (simp add: bytes)
  qed
qed

end
