(* ===== verification/ContractVerifier.thy ===== *)
theory ContractVerifier
  imports ContractRlp Parlia
begin

text \<open>
  The block verifier of the hub contract (\<open>contracts/verifiers/PoSaBlockVerifier.sol\<close> and
  \<open>ParliaBlockVerifier.sol\<close>): it reads an RLP-encoded header in calldata, rebuilds the bytes that the
  sealer has signed, recovers the sealer and reads the validators of an epoch block. The theorems relate
  it to \<open>relayer/parlia.go\<close>: both sides hash the same bytes and read the same validators.
\<close>

section \<open>Reading a header\<close>

record sol_header =
  shBlockHash :: hash
  shParentHash :: hash
  shBlockNumber :: u64
  shCoinbase :: address
  shReceiptsRoot :: hash
  shTxsRoot :: hash
  shStateRoot :: hash

text \<open>What the walk over the items of a header finds: fields, and where the extra data begins and ends.\<close>

record header_walk =
  hwHeader :: sol_header
  hwCoinbase :: address
  hwLength :: nat
  hwBeforeExtra :: nat
  hwAfterExtra :: nat

text \<open>The fresh struct in memory is zero.\<close>

definition new_sol_header :: sol_header where
  "new_sol_header = \<lparr>shBlockHash = replicate 32 0, shParentHash = replicate 32 0, shBlockNumber = 0,
     shCoinbase = zero_address, shReceiptsRoot = replicate 32 0, shTxsRoot = replicate 32 0,
     shStateRoot = replicate 32 0\<rparr>"

definition walk_header :: "bytes \<Rightarrow> nat \<times> nat \<Rightarrow> header_walk evm" where
  "walk_header cd rawBlock =
     evm_bind (require (snd rawBlock \<le> 65535) []) (\<lambda>_.
     let it = openRlp rawBlock;
         originalLength = itemLength cd it in
     evm_bind (beginIteration cd it) (\<lambda>it.
     evm_bind (toBytes32 cd it) (\<lambda>parentHash.
     evm_bind (rlp_next cd it) (\<lambda>it.
     evm_bind (rlp_next cd it) (\<lambda>it.
     evm_bind (toAddress cd it) (\<lambda>coinbase.
     evm_bind (rlp_next cd it) (\<lambda>it.
     evm_bind (toBytes32 cd it) (\<lambda>stateRoot.
     evm_bind (rlp_next cd it) (\<lambda>it.
     evm_bind (toBytes32 cd it) (\<lambda>txsRoot.
     evm_bind (rlp_next cd it) (\<lambda>it.
     evm_bind (toBytes32 cd it) (\<lambda>receiptsRoot.
     evm_bind (rlp_next cd it) (\<lambda>it.
     evm_bind (rlp_next cd it) (\<lambda>it.
     evm_bind (rlp_next cd it) (\<lambda>it.
     evm_bind (toUint256 cd it (itemLength cd it)) (\<lambda>number.
     evm_bind (rlp_next cd it) (\<lambda>it.
     evm_bind (rlp_next cd it) (\<lambda>it.
     evm_bind (rlp_next cd it) (\<lambda>it.
     evm_bind (rlp_next cd it) (\<lambda>beforeExtraDataOffset.
     evm_bind (rlp_next cd beforeExtraDataOffset) (\<lambda>afterExtraDataOffset.
     Done \<lparr>hwHeader = new_sol_header\<lparr>shParentHash := parentHash, shStateRoot := stateRoot, shTxsRoot := txsRoot,
             shReceiptsRoot := receiptsRoot, shBlockNumber := word_of_nat number\<rparr>,
           hwCoinbase = coinbase, hwLength = originalLength,
           hwBeforeExtra = beforeExtraDataOffset, hwAfterExtra = afterExtraDataOffset\<rparr>)))))))))))))))))))))"

section \<open>The signed bytes\<close>

definition newPrefixLength :: "nat \<Rightarrow> nat" where
  "newPrefixLength newEstExtraDataLength =
     (if newEstExtraDataLength < 56 then 1 else 1 + uintRlpPrefixLength newEstExtraDataLength)"

text \<open>\<open>for (i = 0; i < chainRlp.length; i++) signingData[at + i] = chainRlp[i]\<close>\<close>

fun copy_bytes :: "bytes \<Rightarrow> nat \<Rightarrow> bytes \<Rightarrow> bytes evm" where
  "copy_bytes [] at arr = Done arr"
| "copy_bytes (b # bs) at arr = evm_bind (set_byte arr at b) (copy_bytes bs (at + 1))"

text \<open>The prefix of the shortened extra data.\<close>

definition patch_prefix :: "bytes \<Rightarrow> nat \<Rightarrow> nat \<Rightarrow> nat \<Rightarrow> bytes evm" where
  "patch_prefix signingData at newExtraDataPrefixLength newExtraDataLength =
     (if newExtraDataPrefixLength = 4 then
        copy_bytes [0xb7 + 3, byte_at newExtraDataLength 16, byte_at newExtraDataLength 8, byte_at newExtraDataLength 0]
          at signingData
      else if newExtraDataPrefixLength = 3 then
        copy_bytes [0xb7 + 2, byte_at newExtraDataLength 8, byte_at newExtraDataLength 0] at signingData
      else if newExtraDataPrefixLength = 2 then
        copy_bytes [0xb7 + 1, byte_at newExtraDataLength 0] at signingData
      else if newExtraDataLength < 56 then
        copy_bytes [byte_at (0x80 + newExtraDataLength) 0] at signingData
      else Done signingData)"

text \<open>The three copies of the \<open>assembly\<close> block. Destinations are offsets in the array.\<close>

definition copy_block ::
    "bytes \<Rightarrow> nat \<Rightarrow> bytes \<Rightarrow> nat \<Rightarrow> nat \<Rightarrow> nat \<Rightarrow> nat \<Rightarrow> nat \<Rightarrow> bytes evm" where
  "copy_block cd offset signingData chainLength oldPrefix newPrefix beforeExtraDataOffset afterExtraDataOffset =
     (let dst = chainLength + 3;
          src = evm_add offset 3;
          len = evm_sub beforeExtraDataOffset src in
      evm_bind (calldatacopy cd signingData dst src len) (\<lambda>signingData.
      let dst = dst + len + newPrefix;
          src = evm_add beforeExtraDataOffset oldPrefix;
          len = evm_sub (evm_sub (evm_sub afterExtraDataOffset beforeExtraDataOffset) oldPrefix) 65 in
      evm_bind (calldatacopy cd signingData dst src len) (\<lambda>signingData.
      calldatacopy cd signingData (dst + len) afterExtraDataOffset 42)))"

definition signing_data :: "bytes \<Rightarrow> nat \<Rightarrow> nat \<Rightarrow> header_walk \<Rightarrow> bytes evm" where
  "signing_data cd offset chainId walk =
     (let beforeExtraDataOffset = hwBeforeExtra walk;
          afterExtraDataOffset = hwAfterExtra walk;
          oldPrefix = prefixLength cd beforeExtraDataOffset in
      evm_bind (usub afterExtraDataOffset beforeExtraDataOffset) (\<lambda>n.
      evm_bind (usub n oldPrefix) (\<lambda>n.
      evm_bind (usub n 65) (\<lambda>newEstExtraDataLength.
      let newPrefix = newPrefixLength newEstExtraDataLength;
          chainRlp = uintToRlp chainId in
      evm_bind (uadd (length chainRlp) (hwLength walk)) (\<lambda>n.
      evm_bind (usub n oldPrefix) (\<lambda>n.
      evm_bind (uadd n newPrefix) (\<lambda>n.
      evm_bind (usub n 65) (\<lambda>n.
      evm_bind (new_bytes n) (\<lambda>signingData.
      evm_bind (set_byte signingData 0 0xf9) (\<lambda>signingData.
      evm_bind (usub (length signingData) 3) (\<lambda>bodyLength.
      evm_bind (copy_bytes [byte_at bodyLength 8, byte_at bodyLength 0] 1 signingData) (\<lambda>signingData.
      evm_bind (copy_bytes chainRlp 3 signingData) (\<lambda>signingData.
      evm_bind (copy_block cd offset signingData (length chainRlp) oldPrefix newPrefix
                  beforeExtraDataOffset afterExtraDataOffset) (\<lambda>signingData.
      let newExtraDataLength = evm_sub (evm_sub (evm_sub afterExtraDataOffset beforeExtraDataOffset) oldPrefix) 65;
          patchExtraDataAt = evm_sub (length signingData) (evm_add (evm_add newExtraDataLength newPrefix) 42) in
      patch_prefix signingData patchExtraDataAt newPrefix newExtraDataLength))))))))))))))"

section \<open>The verifier\<close>

text \<open>\<open>keccak256\<close> of the EVM, OpenZeppelin's \<open>ECDSA.recover\<close>, and the calldata of a call with its
  \<open>bytes\<close> arguments and their offsets, which the compiler lays out.\<close>

record evm_lib =
  evKeccak256 :: "bytes \<Rightarrow> hash"
  evRecover :: "hash \<Rightarrow> bytes \<Rightarrow> address evm"
  evCalldata :: "bytes list \<Rightarrow> bytes \<times> nat list"

definition recover_sealer :: "evm_lib \<Rightarrow> bytes \<Rightarrow> bytes \<Rightarrow> header_walk \<Rightarrow> sol_header evm" where
  "recover_sealer E cd signingData walk =
     (let blockHeader = hwHeader walk;
          signature = cd_slice cd (evm_sub (hwAfterExtra walk) 65) 65 in
      if shBlockNumber blockHeader \<noteq> 0 then
        evm_bind (get_byte signature 64) (\<lambda>v.
        evm_bind (set_byte signature 64 (if v = 1 then 28 else 27)) (\<lambda>signature.
        evm_bind (evRecover E (evKeccak256 E signingData) signature) (\<lambda>signer.
        evm_bind (require (signer = hwCoinbase walk) ''bad coinbase'') (\<lambda>_.
        Done (blockHeader\<lparr>shCoinbase := signer\<rparr>)))))
      else Done blockHeader)"

definition epoch_validators :: "bytes \<Rightarrow> header_walk \<Rightarrow> address list evm" where
  "epoch_validators cd walk =
     (let oldPrefix = prefixLength cd (hwBeforeExtra walk) in
      evm_bind (usub (hwAfterExtra walk) (hwBeforeExtra walk)) (\<lambda>n.
      evm_bind (uadd n oldPrefix) (\<lambda>n.
      evm_bind (usub n 65) (\<lambda>n.
      evm_bind (usub n 32) (\<lambda>n.
      let totalValidators = n div 20 in
      if totalValidators < 2 ^ 64 then
        Done (map (\<lambda>i. be_fixed 20 (evm_shr 96 (calldataload cd
               (evm_add (evm_add (evm_add (hwBeforeExtra walk) oldPrefix) (evm_mul i 20)) 32))))
             [0..<totalValidators])
      else Revert BadAllocation)))))"

definition parseAndVerifyPoSaBlockHeader ::
    "evm_lib \<Rightarrow> bytes \<Rightarrow> nat \<Rightarrow> nat \<times> nat \<Rightarrow> u64 \<Rightarrow> (sol_header \<times> address list) evm" where
  "parseAndVerifyPoSaBlockHeader E cd chainId rawBlock epochLength =
     evm_bind (walk_header cd rawBlock) (\<lambda>walk.
     evm_bind (signing_data cd (fst rawBlock) chainId walk) (\<lambda>signingData.
     evm_bind (recover_sealer E cd signingData walk) (\<lambda>blockHeader.
     evm_bind (mod64 (shBlockNumber blockHeader) epochLength) (\<lambda>r.
     evm_bind (if r = 0 then epoch_validators cd walk else Done []) (\<lambda>newValidatorSet.
     Done (blockHeader\<lparr>shBlockHash := evKeccak256 E (cd_slice cd (fst rawBlock) (snd rawBlock))\<rparr>, newValidatorSet))))))"

text \<open>The parser without verification.\<close>

definition parsePoSaBlockHeader :: "evm_lib \<Rightarrow> bytes \<Rightarrow> nat \<times> nat \<Rightarrow> sol_header evm" where
  "parsePoSaBlockHeader E cd rawBlock =
     evm_bind (beginRlp cd rawBlock) (\<lambda>it.
     evm_bind (rlp_next cd it) (\<lambda>it.
     evm_bind (toBytes32 cd it) (\<lambda>parentHash.
     evm_bind (rlp_next cd it) (\<lambda>it.
     evm_bind (toAddress cd it) (\<lambda>coinbase.
     evm_bind (rlp_next cd it) (\<lambda>it.
     evm_bind (toBytes32 cd it) (\<lambda>stateRoot.
     evm_bind (rlp_next cd it) (\<lambda>it.
     evm_bind (toBytes32 cd it) (\<lambda>txsRoot.
     evm_bind (rlp_next cd it) (\<lambda>it.
     evm_bind (toBytes32 cd it) (\<lambda>receiptsRoot.
     evm_bind (rlp_next cd it) (\<lambda>it.
     evm_bind (rlp_next cd it) (\<lambda>it.
     evm_bind (rlp_next cd it) (\<lambda>it.
     evm_bind (toUint256 cd it (itemLength cd it)) (\<lambda>number.
     evm_bind (rlp_next cd it) (\<lambda>it.
     evm_bind (rlp_next cd it) (\<lambda>it.
     evm_bind (rlp_next cd it) (\<lambda>it.
     evm_bind (rlp_next cd it) (\<lambda>it.
     evm_bind (rlp_next cd it) (\<lambda>it.
     evm_bind (rlp_next cd it) (\<lambda>it.
     evm_bind (rlp_next cd it) (\<lambda>it.
     Done \<lparr>shBlockHash = evKeccak256 E (cd_slice cd (fst rawBlock) (snd rawBlock)), shParentHash = parentHash,
       shBlockNumber = word_of_nat number, shCoinbase = coinbase, shReceiptsRoot = receiptsRoot,
       shTxsRoot = txsRoot, shStateRoot = stateRoot\<rparr>))))))))))))))))))))))"

section \<open>The items of a header\<close>

fun rlp_payload :: "rlp_val \<Rightarrow> bytes" where
  "rlp_payload (RlpBig i) = be_min (nat i)"
| "rlp_payload (RlpHash h) = h"
| "rlp_payload (RlpAddress a) = a"
| "rlp_payload (RlpBloom b) = b"
| "rlp_payload (RlpUint n) = be_min (unat n)"
| "rlp_payload (RlpBytes b) = b"
| "rlp_payload (RlpNonce b) = b"

definition rlp_of :: "bytes list \<Rightarrow> bytes" where
  "rlp_of payloads = rlp_list (map rlp_string payloads)"

definition before_extra :: "header \<Rightarrow> bytes list" where
  "before_extra h = map rlp_payload [RlpHash (hdrParentHash h), RlpHash (hdrUncleHash h), RlpAddress (hdrCoinbase h),
     RlpHash (hdrRoot h), RlpHash (hdrTxHash h), RlpHash (hdrReceiptHash h), RlpBloom (hdrBloom h),
     RlpBig (hdrDifficulty h), RlpBig (hdrNumber h), RlpUint (hdrGasLimit h), RlpUint (hdrGasUsed h), RlpUint (hdrTime h)]"

definition after_extra :: "header \<Rightarrow> bytes list" where
  "after_extra h = [hdrMixDigest h, hdrNonce h]"

definition header_payloads :: "header \<Rightarrow> bytes list" where
  "header_payloads h = before_extra h @ [hdrExtra h] @ after_extra h"

definition sealed_payloads :: "header \<Rightarrow> nat \<Rightarrow> bytes list" where
  "sealed_payloads h chainId =
     be_min chainId # before_extra h @ [take (length (hdrExtra h) - 65) (hdrExtra h)] @ after_extra h"

text \<open>What \<open>go-ethereum/rlp\<close> documents: lists and headers (without the optional base fee) are encoded item
  by item, numbers big-endian without leading zeros.\<close>

definition rlp_laws :: "rlp_lib \<Rightarrow> bool" where
  "rlp_laws L \<longleftrightarrow>
     (\<forall>vs. (\<forall>i. RlpBig i \<in> set vs \<longrightarrow> 0 \<le> i) \<longrightarrow> rlpEncode L vs = Ret (rlp_of (map rlp_payload vs))) \<and>
     (\<forall>h. 0 \<le> hdrDifficulty h \<and> 0 \<le> hdrNumber h \<longrightarrow> rlpEncodeHeader L h = Ret (rlp_of (header_payloads h)))"

text \<open>A header as the chain has it: fields of their fixed lengths, and at least vanity and seal in the
  extra data.\<close>

definition wf_header :: "header \<Rightarrow> bool" where
  "wf_header h \<longleftrightarrow> length (hdrParentHash h) = 32 \<and> length (hdrUncleHash h) = 32 \<and> length (hdrCoinbase h) = 20
     \<and> length (hdrRoot h) = 32 \<and> length (hdrTxHash h) = 32 \<and> length (hdrReceiptHash h) = 32 \<and> length (hdrBloom h) = 256
     \<and> 0 \<le> hdrDifficulty h \<and> 0 \<le> hdrNumber h \<and> hdrNumber h < 2 ^ 64
     \<and> 97 \<le> length (hdrExtra h) \<and> length (hdrMixDigest h) = 32 \<and> length (hdrNonce h) = 8
     \<and> length (rlp_of (header_payloads h)) \<le> 65535"

section \<open>The walk over a header\<close>

text \<open>Where item \<open>k\<close> begins, when the items begin at \<open>p\<close>.\<close>

definition item_pos :: "nat \<Rightarrow> bytes list \<Rightarrow> nat \<Rightarrow> nat" where
  "item_pos p bs k = p + length (concat (map rlp_string (take k bs)))"

lemma item_pos_Suc: "k < length bs \<Longrightarrow> item_pos p bs (Suc k) = item_pos p bs k + length (rlp_string (bs ! k))"
  by (simp add: item_pos_def take_Suc_conv_app_nth)

lemma item_pos_le: "item_pos p bs k \<le> p + length (concat (map rlp_string bs))"
proof -
  have "concat (map rlp_string bs) = concat (map rlp_string (take k bs)) @ concat (map rlp_string (drop k bs))"
    by (metis append_take_drop_id concat_append map_append)
  then show ?thesis by (simp add: item_pos_def)
qed

lemma item_lies:
  assumes "lies cd p (concat (map rlp_string bs))" and "k < length bs"
  shows "lies cd (item_pos p bs k) (rlp_string (bs ! k))"
proof -
  have "map rlp_string bs = map rlp_string (take k bs) @ rlp_string (bs ! k) # map rlp_string (drop (Suc k) bs)"
    using id_take_nth_drop [OF assms(2)] by (metis list.simps(9) map_append)
  then have "lies cd p (concat (map rlp_string (take k bs)) @ rlp_string (bs ! k) @ concat (map rlp_string (drop (Suc k) bs)))"
    using assms(1) by simp
  then show ?thesis
    by (simp only: lies_append item_pos_def)
qed

text \<open>Items in calldata: the list lies at \<open>p\<close> and is of a size that occurs.\<close>

definition items_at :: "bytes \<Rightarrow> nat \<Rightarrow> bytes list \<Rightarrow> bool" where
  "items_at cd p bs \<longleftrightarrow> lies cd p (concat (map rlp_string bs)) \<and> length (concat (map rlp_string bs)) < 65536 \<and> p < 2 ^ 65"

lemma item_facts:
  assumes "items_at cd p bs" and "k < length bs"
  shows "lies cd (item_pos p bs k) (rlp_string (bs ! k))" and "length (bs ! k) < 2 ^ 64" and "item_pos p bs k < 2 ^ 128"
proof -
  show "lies cd (item_pos p bs k) (rlp_string (bs ! k))"
    using assms item_lies by (simp add: items_at_def)
  show "item_pos p bs k < 2 ^ 128"
    using assms(1) item_pos_le [of p bs k] by (simp add: items_at_def)
  have "length (bs ! k) \<le> length (rlp_string (bs ! k))"
    by (simp add: length_rlp_string)
  moreover have "item_pos p bs k + length (rlp_string (bs ! k)) \<le> p + length (concat (map rlp_string bs))"
    using item_pos_Suc [OF assms(2)] item_pos_le [of p bs "Suc k"] by simp
  ultimately show "length (bs ! k) < 2 ^ 64"
    using assms(1) by (simp add: items_at_def item_pos_def)
qed

lemma item_next:
  assumes "items_at cd p bs" and "k < length bs"
  shows "rlp_next cd (item_pos p bs k) = Done (item_pos p bs (Suc k))"
  using rlp_next_read [OF item_facts [OF assms]] assms(2) by (simp add: item_pos_Suc)

lemma item_hash:
  "items_at cd p bs \<Longrightarrow> k < length bs \<Longrightarrow> length (bs ! k) = 32 \<Longrightarrow> toBytes32 cd (item_pos p bs k) = Done (bs ! k)"
  using item_facts toBytes32_read by blast

lemma item_address:
  "items_at cd p bs \<Longrightarrow> k < length bs \<Longrightarrow> length (bs ! k) = 20 \<Longrightarrow> toAddress cd (item_pos p bs k) = Done (bs ! k)"
  using item_facts toAddress_read by blast

lemma item_number:
  assumes "items_at cd p bs" and "k < length bs" and "length (bs ! k) \<le> 32"
  shows "toUint256 cd (item_pos p bs k) (itemLength cd (item_pos p bs k)) = Done (be_val (bs ! k))"
proof -
  note facts = item_facts [OF assms(1,2)]
  show ?thesis
    using toUint_read [OF facts(1) assms(3) facts(3)] rlp_string_read(2) [OF facts] by (simp add: toUint256_def)
qed

text \<open>The encoded header lies at \<open>off\<close>.\<close>

definition header_at :: "bytes \<Rightarrow> nat \<Rightarrow> header \<Rightarrow> bool" where
  "header_at cd off h \<longleftrightarrow> lies cd off (rlp_of (header_payloads h)) \<and> off < 2 ^ 64"

abbreviation header_pos :: "nat \<Rightarrow> header \<Rightarrow> nat \<Rightarrow> nat" where
  "header_pos off h \<equiv> item_pos (off + 3) (header_payloads h)"

lemma header_body:
  assumes "wf_header h"
  shows "256 \<le> length (concat (map rlp_string (header_payloads h)))"
    and "length (concat (map rlp_string (header_payloads h))) < 65533"
    and "length (rlp_of (header_payloads h)) = 3 + length (concat (map rlp_string (header_payloads h)))"
    and "length (be_min (length (concat (map rlp_string (header_payloads h))))) = 2"
proof -
  let ?n = "length (concat (map rlp_string (header_payloads h)))"
  have "length (hdrBloom h) \<le> length (rlp_string (hdrBloom h))"
    by (simp add: length_rlp_string)
  then show ge: "256 \<le> ?n"
    using assms by (simp add: header_payloads_def before_extra_def wf_header_def)
  have "be_min ?n = be_fixed (length (be_min ?n)) ?n"
    using be_fixed_val [of "be_min ?n"] by (simp add: be_val_min)
  have list: "length (rlp_of (header_payloads h)) = Suc (length (be_min ?n)) + ?n"
    unfolding rlp_of_def by (subst rlp_list_long) (use ge in simp_all)
  moreover have "length (rlp_of (header_payloads h)) \<le> 65535"
    using assms by (simp add: wf_header_def)
  ultimately have "?n < 65536"
    by linarith
  then have "be_min ?n = be_fixed 2 ?n"
    using ge by (intro be_min_fixed) simp_all
  then show two: "length (be_min ?n) = 2"
    by simp
  show "?n < 65533" "length (rlp_of (header_payloads h)) = 3 + ?n"
    using list two \<open>length (rlp_of (header_payloads h)) \<le> 65535\<close> by simp_all
qed

lemma header_items:
  assumes "wf_header h" and "header_at cd off h"
  shows "items_at cd (off + 3) (header_payloads h)" and "payloadOffset cd off = 3"
    and "itemLength cd off = length (rlp_of (header_payloads h))"
proof -
  note body = header_body [OF assms(1)]
  have at: "lies cd off (rlp_list (map rlp_string (header_payloads h)))" "off < 2 ^ 128"
    using assms(2) by (simp_all add: header_at_def rlp_of_def)
  note read = rlp_list_read [OF at(1) _ _ at(2)]
  show "payloadOffset cd off = 3" "itemLength cd off = length (rlp_of (header_payloads h))"
    using read(1,2) body(1,2,4) by (simp_all add: rlp_of_def)
  show "items_at cd (off + 3) (header_payloads h)"
    using read(3) body(1,2,4) assms(2) by (simp add: items_at_def header_at_def numeral_3_eq_3)
qed

lemma header_payloads_nth:
  "header_payloads h ! 0 = hdrParentHash h" "header_payloads h ! Suc 0 = hdrUncleHash h" "header_payloads h ! 2 = hdrCoinbase h" "header_payloads h ! 3 = hdrRoot h"
  "header_payloads h ! 4 = hdrTxHash h" "header_payloads h ! 5 = hdrReceiptHash h"
  "header_payloads h ! 8 = be_min (nat (hdrNumber h))" "header_payloads h ! 12 = hdrExtra h"
  "length (header_payloads h) = 15"
  by (simp_all add: header_payloads_def before_extra_def after_extra_def)

definition walk_of :: "header \<Rightarrow> nat \<Rightarrow> header_walk" where
  "walk_of h off = \<lparr>hwHeader = new_sol_header\<lparr>shParentHash := hdrParentHash h, shStateRoot := hdrRoot h,
       shTxsRoot := hdrTxHash h, shReceiptsRoot := hdrReceiptHash h, shBlockNumber := word_of_int (hdrNumber h)\<rparr>,
     hwCoinbase = hdrCoinbase h, hwLength = length (rlp_of (header_payloads h)),
     hwBeforeExtra = header_pos off h 12, hwAfterExtra = header_pos off h 13\<rparr>"

text \<open>Every step of a walk over a header, and every field.\<close>

lemma header_steps:
  assumes "wf_header h" and "header_at cd off h"
  shows "beginIteration cd off = Done (header_pos off h 0)"
    and "k < 15 \<Longrightarrow> rlp_next cd (header_pos off h k) = Done (header_pos off h (Suc k))"
    and "k \<in> {0, 1, 3, 4, 5} \<Longrightarrow> toBytes32 cd (header_pos off h k) = Done (header_payloads h ! k)"
    and "toAddress cd (header_pos off h 2) = Done (hdrCoinbase h)"
    and "toUint256 cd (header_pos off h 8) (itemLength cd (header_pos off h 8)) = Done (nat (hdrNumber h))"
    and "word_of_nat (nat (hdrNumber h)) = (word_of_int (hdrNumber h) :: u64)"
proof -
  note items = header_items [OF assms]
  note nth = header_payloads_nth
  show "beginIteration cd off = Done (header_pos off h 0)"
    using items(2) assms(2) by (simp add: beginIteration_def item_pos_def uadd_def header_at_def)
  show "rlp_next cd (header_pos off h k) = Done (header_pos off h (Suc k))" if "k < 15"
    using item_next [OF items(1)] that by (simp add: nth(9))
  show "toBytes32 cd (header_pos off h k) = Done (header_payloads h ! k)" if "k \<in> {0, 1, 3, 4, 5}"
    by (rule item_hash [OF items(1)]) (use that assms(1) in \<open>auto simp: nth wf_header_def\<close>)
  show "toAddress cd (header_pos off h 2) = Done (hdrCoinbase h)"
    using item_address [OF items(1), of 2] assms(1) by (simp add: nth wf_header_def)
  have "nat (hdrNumber h) < 256 ^ 8"
    using assms(1) by (auto simp: wf_header_def nat_less_iff)
  then have "length (be_min (nat (hdrNumber h))) \<le> 32"
    using length_be_min_le [of "nat (hdrNumber h)" 8] by simp
  then show "toUint256 cd (header_pos off h 8) (itemLength cd (header_pos off h 8)) = Done (nat (hdrNumber h))"
    using item_number [OF items(1), of 8] by (simp add: nth be_val_min)
  show "word_of_nat (nat (hdrNumber h)) = (word_of_int (hdrNumber h) :: u64)"
    using assms(1) by (simp add: wf_header_def)
qed

lemma walk_header_eq:
  assumes "wf_header h" and "header_at cd off h"
  shows "walk_header cd (off, length (rlp_of (header_payloads h))) = Done (walk_of h off)"
proof -
  note steps = header_steps [OF assms]
  note moves = steps(2) [of 0] steps(2) [of 1] steps(2) [of 2] steps(2) [of 3] steps(2) [of 4] steps(2) [of 5] steps(2) [of 6]
    steps(2) [of 7] steps(2) [of 8] steps(2) [of 9] steps(2) [of 10] steps(2) [of 11] steps(2) [of 12]
  note hash = steps(3) [of 0] steps(3) [of 3] steps(3) [of 4] steps(3) [of 5]
  have "length (rlp_of (header_payloads h)) \<le> 65535"
    using assms(1) by (simp add: wf_header_def)
  then show ?thesis
    unfolding walk_header_def walk_of_def openRlp_def fst_conv snd_conv header_items(3) [OF assms] Let_def
    by (simp only: require_simps steps(1,4-6) moves [simplified] hash [simplified] header_payloads_nth evm_bind.simps
        numeral_2_eq_2 [symmetric] cong: evm_first)
qed

text \<open>The parser without verification takes the second item of the header for the first.\<close>

lemma parsePoSaBlockHeader_eq:
  assumes "wf_header h" and "header_at cd off h"
  shows "parsePoSaBlockHeader E cd (off, length (rlp_of (header_payloads h))) = Done
    \<lparr>shBlockHash = evKeccak256 E (rlp_of (header_payloads h)), shParentHash = hdrUncleHash h,
     shBlockNumber = word_of_int (hdrNumber h), shCoinbase = hdrCoinbase h,
     shReceiptsRoot = hdrReceiptHash h, shTxsRoot = hdrTxHash h, shStateRoot = hdrRoot h\<rparr>"
proof -
  note steps = header_steps [OF assms]
  note moves = steps(2) [of 0] steps(2) [of 1] steps(2) [of 2] steps(2) [of 3] steps(2) [of 4] steps(2) [of 5] steps(2) [of 6]
    steps(2) [of 7] steps(2) [of 8] steps(2) [of 9] steps(2) [of 10] steps(2) [of 11] steps(2) [of 12] steps(2) [of 13] steps(2) [of 14]
  note hash = steps(3) [of 1] steps(3) [of 3] steps(3) [of 4] steps(3) [of 5]
  have "beginRlp cd (off, n) = Done (header_pos off h 0)" for n
    using steps(1) by (simp add: beginRlp_def beginIteration_def)
  moreover have "cd_slice cd off (length (rlp_of (header_payloads h))) = rlp_of (header_payloads h)"
    using assms(2) by (simp add: header_at_def lies_slice)
  ultimately show ?thesis
    unfolding parsePoSaBlockHeader_def fst_conv snd_conv
    by (simp only: steps(4-6) moves [simplified] hash [simplified] header_payloads_nth evm_bind.simps One_nat_def
        numeral_2_eq_2 [symmetric] cong: evm_first)
qed

section \<open>The signed bytes are those of the relayer\<close>

lemma copy_bytes_mid: "length x = length bs \<Longrightarrow> copy_bytes bs (length a) (a @ x @ y) = Done (a @ bs @ y)"
proof (induction bs arbitrary: a x)
  case (Cons b bs)
  then obtain z zs where x: "x = z # zs" "length zs = length bs"
    by (cases x) auto
  have "copy_bytes bs (length (a @ [b])) ((a @ [b]) @ zs @ y) = Done ((a @ [b]) @ bs @ y)"
    using x(2) by (rule Cons.IH)
  then show ?case
    using x(1) set_byte_mid [of a z "zs @ y" b] by simp
qed simp

lemma calldatacopy_mid:
  assumes "lies cd src b" and "length x = length b" and "length b < 2 ^ 64"
  shows "calldatacopy cd (a @ x @ y) (length a) src (length b) = Done (a @ b @ y)"
  using assms mem_write_mid [of x b a y] by (simp add: calldatacopy_def lies_slice min_absorb1)

lemma uintRlpPrefixLength_eq: "0 < v \<Longrightarrow> v < 65536 \<Longrightarrow> uintRlpPrefixLength v = length (be_min v)"
  using be_min_fixed [of 1 v] be_min_fixed [of 2 v] by (cases "v < 256") (simp_all add: uintRlpPrefixLength_def)

lemma newPrefixLength_eq: "2 \<le> length b \<Longrightarrow> length b < 65536 \<Longrightarrow> newPrefixLength (length b) = rlp_prefix b"
  using uintRlpPrefixLength_eq [of "length b"] by (cases "b = []") (auto simp: newPrefixLength_def rlp_prefix_eq)

lemma patch_prefix_eq:
  assumes "2 \<le> length b" and "length b < 65536"
  obtains pre where "rlp_string b = pre @ b" and "length pre = rlp_prefix b"
    and "\<And>a x y. length x = rlp_prefix b \<Longrightarrow>
          patch_prefix (a @ x @ y) (length a) (newPrefixLength (length b)) (length b) = Done (a @ pre @ y)"
proof -
  note eq = newPrefixLength_eq [OF assms]
  consider "length b < 56" | "56 \<le> length b" "length b < 256" | "256 \<le> length b"
    by linarith
  then show ?thesis
  proof cases
    case 1
    then show ?thesis
      using assms(1) copy_bytes_mid [of _ "[byte_at (0x80 + length b) 0]"]
      by (intro that [of "[byte_at (0x80 + length b) 0]"])
         (auto simp: rlp_string_def rlp_prefix_eq patch_prefix_def newPrefixLength_def byte_at_div)
  next
    case 2
    then have "be_min (length b) = be_fixed 1 (length b)"
      by (intro be_min_fixed) simp_all
    then have m: "be_min (length b) = [word_of_nat (length b)]"
      by simp
    show ?thesis
      using 2 eq copy_bytes_mid [of _ "[0xb7 + 1, byte_at (length b) 0]"]
      by (intro that [of "[0xb7 + 1, byte_at (length b) 0]"])
         (auto simp: rlp_string_def rlp_prefix_eq patch_prefix_def m byte_at_div)
  next
    case 3
    then have "be_min (length b) = be_fixed 2 (length b)"
      using assms(2) by (intro be_min_fixed) simp_all
    then have m: "be_min (length b) = [byte_at (length b) 8, byte_at (length b) 0]"
      by (simp add: be_fixed_numeral byte_at_div)
    show ?thesis
      using 3 eq copy_bytes_mid [of _ "[0xb7 + 2, byte_at (length b) 8, byte_at (length b) 0]"]
      by (intro that [of "[0xb7 + 2, byte_at (length b) 8, byte_at (length b) 0]"])
         (auto simp: rlp_string_def rlp_prefix_eq patch_prefix_def m)
  qed
qed

text \<open>Header and positions as one sequence of bytes: what lies before the extra data, the extra data and
  its prefix, and what lies after it.\<close>

lemma header_layout:
  assumes "wf_header h" and "header_at cd off h"
  defines "X \<equiv> concat (map rlp_string (before_extra h))" and "T \<equiv> concat (map rlp_string (after_extra h))"
  shows "lies cd (off + 3) X" and "header_pos off h 12 = off + 3 + length X"
    and "payloadOffset cd (header_pos off h 12) = rlp_prefix (hdrExtra h)"
    and "lies cd (header_pos off h 12 + rlp_prefix (hdrExtra h)) (hdrExtra h)"
    and "header_pos off h 13 = header_pos off h 12 + rlp_prefix (hdrExtra h) + length (hdrExtra h)"
    and "lies cd (header_pos off h 13) T" and "length T = 42"
    and "length (rlp_of (header_payloads h)) = 3 + length X + rlp_prefix (hdrExtra h) + length (hdrExtra h) + 42"
proof -
  note items = header_items [OF assms(1,2)]
  have split: "concat (map rlp_string (header_payloads h)) = X @ rlp_string (hdrExtra h) @ T"
    by (simp add: header_payloads_def X_def T_def)
  then have lies: "lies cd (off + 3) X" "lies cd (off + 3 + length X + length (rlp_string (hdrExtra h))) T"
    using items(1) by (simp_all add: items_at_def lies_append add.assoc)
  have before: "length (before_extra h) = 12"
    by (simp add: before_extra_def)
  show pos: "header_pos off h 12 = off + 3 + length X"
    using before by (simp add: item_pos_def header_payloads_def X_def)
  have extra: "lies cd (header_pos off h 12) (rlp_string (hdrExtra h))" "length (hdrExtra h) < 2 ^ 64" "header_pos off h 12 < 2 ^ 128"
    using item_facts [OF items(1), of 12] by (simp_all add: header_payloads_nth)
  show "payloadOffset cd (header_pos off h 12) = rlp_prefix (hdrExtra h)"
    "lies cd (header_pos off h 12 + rlp_prefix (hdrExtra h)) (hdrExtra h)"
    using rlp_string_read [OF extra] by simp_all
  show after: "header_pos off h 13 = header_pos off h 12 + rlp_prefix (hdrExtra h) + length (hdrExtra h)"
    using item_pos_Suc [of 12 "header_payloads h"] by (simp add: header_payloads_nth length_rlp_string)
  show "lies cd (header_pos off h 13) T"
    using lies(2) pos after by (simp add: length_rlp_string add.assoc)
  show T: "length T = 42"
    using assms(1) by (simp add: T_def after_extra_def length_rlp_string rlp_prefix_eq wf_header_def)
  show "lies cd (off + 3) X"
    by (rule lies(1))
  show "length (rlp_of (header_payloads h)) = 3 + length X + rlp_prefix (hdrExtra h) + length (hdrExtra h) + 42"
    using header_body(3) [OF assms(1)] by (simp only: split length_append T length_rlp_string)
qed

lemma rlp_prefix_mono:
  assumes "2 \<le> length b" and "length b \<le> length b'" and "length b' < 65536"
  shows "rlp_prefix b \<le> rlp_prefix b'" and "1 \<le> rlp_prefix b" and "rlp_prefix b' \<le> 3"
proof -
  have "length (be_min v) = (if v < 256 then 1 else 2)" if "2 \<le> v" "v < 65536" for v
    using that be_min_fixed [of 1 v] be_min_fixed [of 2 v] by auto
  note this [of "length b"] this [of "length b'"]
  then show "rlp_prefix b \<le> rlp_prefix b'" "1 \<le> rlp_prefix b" "rlp_prefix b' \<le> 3"
    using assms by (auto simp: rlp_prefix_eq)
qed

text \<open>The parts of the array: a list of up to 64 KiB begins with three bytes, and the array is allocated as
  zeros for each of its parts.\<close>

lemma rlp_list_f9:
  assumes "length (concat items) = n" and "256 \<le> n" and "n < 65536"
  shows "rlp_list items = [0xf9, byte_at n 8, byte_at n 0] @ concat items"
proof -
  have "be_min n = be_fixed 2 n"
    using assms(2,3) by (intro be_min_fixed) simp_all
  then have "be_min n = [byte_at n 8, byte_at n 0]"
    by (simp add: be_fixed_numeral byte_at_div)
  then show ?thesis
    using rlp_list_long [of items] assms(2) unfolding assms(1) by simp
qed

lemma new_bytes_parts:
  assumes "c + a + n + e + 42 < 65536"
  shows "new_bytes (c + a + n + e + 42 + 3) =
    Done ([0] @ [0, 0] @ replicate c 0 @ replicate a 0 @ replicate n 0 @ replicate e 0 @ replicate 42 0)"
proof -
  have "c + a + n + e + 42 + 3 = 1 + (2 + (c + (a + (n + (e + 42)))))"
    by simp
  then have "replicate (c + a + n + e + 42 + 3) (0 :: u8) =
      replicate 1 0 @ replicate 2 0 @ replicate c 0 @ replicate a 0 @ replicate n 0 @ replicate e 0 @ replicate 42 0"
    by (simp only: replicate_add)
  moreover have "replicate 2 (0 :: u8) = [0, 0]"
    by (simp add: numeral_2_eq_2)
  ultimately show ?thesis
    using assms by (simp add: new_bytes_def)
qed

lemma copy_block_eq:
  assumes lies: "lies cd (off + 3) X" "lies cd (q + p) E" "lies cd r T"
    and pos: "q = off + 3 + length X" "r = q + p + length E + 65" "off < 2 ^ 64"
    and size: "length X + p + length E < 65536" "length T = 42" "length a = chainLength + 3"
  shows "copy_block cd off (a @ replicate (length X) 0 @ replicate n 0 @ replicate (length E) 0 @ replicate 42 0)
      chainLength p n q r = Done (a @ X @ replicate n 0 @ E @ T)"
proof -
  have src: "evm_add off 3 = off + 3" "evm_sub q (off + 3) = length X" "evm_add q p = q + p"
    "evm_sub (evm_sub (evm_sub r q) p) 65 = length E"
    using pos size by (simp_all add: evm_add_less evm_sub_le)
  have len: "length (replicate (length X) (0 :: u8)) = length X" "length (replicate (length E) (0 :: u8)) = length E"
    "length (replicate 42 (0 :: u8)) = length T"
    using size by simp_all
  have small: "length X < 2 ^ 64" "length E < 2 ^ 64" "length T < 2 ^ 64"
    using size by simp_all
  have at: "length (a @ X @ replicate n 0) = chainLength + 3 + length X + n"
    "length (a @ X @ replicate n 0 @ E) = chainLength + 3 + length X + n + length E"
    using size by simp_all
  note mid = calldatacopy_mid [where cd = cd, OF lies(1) len(1) small(1), of a]
    calldatacopy_mid [where cd = cd, OF lies(2) len(2) small(2), of "a @ X @ replicate n 0"]
    calldatacopy_mid [where cd = cd, OF lies(3) len(3) small(3), of "a @ X @ replicate n 0 @ E" "[]"]
  show ?thesis
    unfolding copy_block_def Let_def src
    by (simp only: mid [unfolded at size(2,3) append_assoc append_Nil2] evm_bind.simps cong: evm_first)
qed

text \<open>The sizes of the parts, for a header: \<open>X\<close> before the extra data, \<open>E\<close> the signed extra data with the
  prefix \<open>pre\<close>, and \<open>T\<close> after it.\<close>

lemma sealed_sizes:
  assumes "wf_header h" and "header_at cd off h" and "chainId < 2 ^ 64"
  defines "X \<equiv> concat (map rlp_string (before_extra h))" and "E \<equiv> take (length (hdrExtra h) - 65) (hdrExtra h)"
  shows "length E + 65 = length (hdrExtra h)" and "2 \<le> length E" and "length E < 65536"
    and "rlp_prefix E \<le> rlp_prefix (hdrExtra h)" and "length (uintToRlp chainId) \<le> 9"
    and "3 + length X + rlp_prefix (hdrExtra h) + length (hdrExtra h) + 42 \<le> 65535" and "256 \<le> length X"
proof -
  show bound: "3 + length X + rlp_prefix (hdrExtra h) + length (hdrExtra h) + 42 \<le> 65535"
    using header_layout(8) [OF assms(1,2)] assms(1) by (simp add: wf_header_def X_def)
  show "256 \<le> length X"
    using assms(1) by (simp add: X_def before_extra_def length_rlp_string wf_header_def)
  have extra: "97 \<le> length (hdrExtra h)"
    using assms(1) by (simp add: wf_header_def)
  then show E: "length E + 65 = length (hdrExtra h)" "2 \<le> length E" "length E < 65536"
    using bound by (simp_all add: E_def)
  show "rlp_prefix E \<le> rlp_prefix (hdrExtra h)"
    using rlp_prefix_mono(1) [OF E(2), of "hdrExtra h"] E bound by simp
  have "length (be_min chainId) \<le> 8"
    using length_be_min_le [of chainId 8] assms(3) by simp
  then show "length (uintToRlp chainId) \<le> 9"
    by (auto simp: uintToRlp_eq [OF assms(3)] length_rlp_string rlp_prefix_eq)
qed

lemma signing_data_eq:
  assumes "wf_header h" and "header_at cd off h" and "chainId < 2 ^ 64"
  shows "signing_data cd off chainId (walk_of h off) = Done (rlp_of (sealed_payloads h chainId))"
proof -
  define X T E c p n where "X = concat (map rlp_string (before_extra h))" and "T = concat (map rlp_string (after_extra h))"
    and "E = take (length (hdrExtra h) - 65) (hdrExtra h)" and "c = uintToRlp chainId"
    and "p = rlp_prefix (hdrExtra h)" and "n = rlp_prefix E"
  note layout = header_layout [OF assms(1,2), folded X_def T_def p_def]
  note sizes = sealed_sizes [OF assms, folded X_def E_def c_def p_def n_def]
  obtain pre where pre: "rlp_string E = pre @ E" "length pre = n"
    "\<And>a x y. length x = n \<Longrightarrow> patch_prefix (a @ x @ y) (length a) n (length E) = Done (a @ pre @ y)"
    using patch_prefix_eq [OF sizes(2,3)] newPrefixLength_eq [OF sizes(2,3)] n_def by metis
  let ?B = "length c + length X + n + length E + 42"
  have B: "256 \<le> ?B" "?B < 65536"
    using sizes by linarith+
  let ?h = "[0xf9, byte_at ?B 8, byte_at ?B 0]"
  have data: "rlp_of (sealed_payloads h chainId) = ?h @ c @ X @ pre @ E @ T"
  proof -
    have body: "concat (map rlp_string (sealed_payloads h chainId)) = c @ X @ pre @ E @ T"
      using pre(1) uintToRlp_eq [OF assms(3)]
      by (simp add: sealed_payloads_def X_def T_def c_def flip: E_def)
    then have "length (concat (map rlp_string (sealed_payloads h chainId))) = ?B"
      by (simp only: length_append pre(2) layout(7))
    then show ?thesis
      unfolding rlp_of_def using rlp_list_f9 [OF _ B] body by metis
  qed
  have q: "off + 3 + length X + p + length (hdrExtra h) = off + 3 + length X + p + length E + 65"
    using sizes(1) by simp
  have block: "copy_block cd off ((?h @ c) @ replicate (length X) 0 @ replicate n 0 @ replicate (length E) 0 @ replicate 42 0)
      (length c) p n (off + 3 + length X) (off + 3 + length X + p + length (hdrExtra h)) = Done ((?h @ c) @ X @ replicate n 0 @ E @ T)"
  proof (rule copy_block_eq)
    have "lies cd (off + 3 + length X + p) (E @ drop (length (hdrExtra h) - 65) (hdrExtra h))"
      using layout(2,4) by (simp add: E_def)
    then show "lies cd (off + 3 + length X + p) E"
      using lies_append by blast
    show "lies cd (off + 3 + length X + p + length (hdrExtra h)) T"
      using layout(2,5,6) by simp
  qed (use layout(1,2,7) q sizes assms(2) in \<open>simp_all add: header_at_def\<close>)
  have steps: "set_byte ([0] @ zs) 0 0xf9 = Done ([0xf9] @ zs)"
    "copy_bytes [hi, lo] 1 ([0xf9] @ [0, 0] @ zs) = Done ([0xf9, hi, lo] @ zs)"
    "copy_bytes c 3 ([0xf9, hi, lo] @ replicate (length c) 0 @ zs) = Done (([0xf9, hi, lo] @ c) @ zs)" for zs hi lo
    using copy_bytes_mid [of "[0, 0]" "[hi, lo]" "[0xf9]" zs] copy_bytes_mid [of "replicate (length c) 0" c "[0xf9, hi, lo]" zs]
    by (simp_all add: set_byte_def numeral_3_eq_3)
  have patch: "patch_prefix ((?h @ c) @ X @ replicate n 0 @ E @ T) (3 + length c + length X) n (length E)
      = Done (?h @ c @ X @ pre @ E @ T)"
    using pre(3) [of "replicate n 0" "?h @ c @ X" "E @ T"] by (simp add: numeral_3_eq_3 add.commute add.left_commute)
  have at: "evm_sub (?B + 3) (evm_add (evm_add (length E) n) 42) = 3 + length c + length X"
    "evm_sub (evm_sub (evm_sub (off + 3 + length X + p + length (hdrExtra h)) (off + 3 + length X)) p) 65 = length E"
    using B sizes(1) by (simp_all add: evm_sub_le evm_add_less)
  have arr: "length ([0xf9] @ [0, 0] @ replicate (length c) 0 @ replicate (length X) 0 @ replicate n 0 @ replicate (length E) 0 @ replicate 42 0) = ?B + 3"
    "length ((?h @ c) @ X @ replicate n 0 @ E @ T) = ?B + 3"
    using layout(7) by simp_all
  have arith: "usub (off + 3 + length X + p + length (hdrExtra h)) (off + 3 + length X) = Done (p + length (hdrExtra h))"
    "usub (p + length (hdrExtra h)) p = Done (length (hdrExtra h))" "usub (length (hdrExtra h)) 65 = Done (length E)"
    "uadd (length c) (3 + length X + p + length (hdrExtra h) + 42) = Done (length c + (3 + length X + p + length (hdrExtra h) + 42))"
    "usub (length c + (3 + length X + p + length (hdrExtra h) + 42)) p = Done (length c + 3 + length X + length (hdrExtra h) + 42)"
    "uadd (length c + 3 + length X + length (hdrExtra h) + 42) n = Done (length c + 3 + length X + length (hdrExtra h) + 42 + n)"
    "usub (length c + 3 + length X + length (hdrExtra h) + 42 + n) 65 = Done (?B + 3)" "usub (?B + 3) 3 = Done ?B"
    using sizes by (simp_all add: usub_def uadd_def)
  have walk: "hwBeforeExtra (walk_of h off) = off + 3 + length X"
    "hwAfterExtra (walk_of h off) = off + 3 + length X + p + length (hdrExtra h)"
    "hwLength (walk_of h off) = 3 + length X + p + length (hdrExtra h) + 42" "prefixLength cd (off + 3 + length X) = p"
    using layout by (simp_all add: walk_of_def prefixLength_def)
  note prefix = newPrefixLength_eq [OF sizes(2,3), folded n_def]
  show ?thesis
    unfolding signing_data_def walk data Let_def
    by (simp only: arith prefix c_def [symmetric] new_bytes_parts [OF B(2)] steps block arr at patch evm_bind.simps cong: evm_first)
qed

section \<open>The sealer and the validators are those of the relayer\<close>

text \<open>OpenZeppelin's \<open>ECDSA.recover\<close> and the \<open>Ecrecover\<close> of go-ethereum recover the same account, for a
  signature with a recovery id of 0 or 1, which the former takes as 27 or 28, and a low \<open>s\<close> value, which
  the former requires.\<close>

definition recover_laws :: "crypto_lib \<Rightarrow> evm_lib \<Rightarrow> (bytes \<Rightarrow> bool) \<Rightarrow> bool" where
  "recover_laws C E low_s \<longleftrightarrow> (\<forall>b. evKeccak256 E b = keccak256 C b) \<and>
     (\<forall>d s publicKey. length s = 65 \<and> s ! 64 \<in> {0, 1} \<and> low_s s \<and> ecrecover C d s = Ret publicKey \<longrightarrow>
        evRecover E d (s[64 := s ! 64 + 27]) = Done (drop 12 (keccak256 C (drop 1 publicKey))))"

definition seal_of :: "header \<Rightarrow> bytes" where
  "seal_of h = drop (length (hdrExtra h) - 65) (hdrExtra h)"

definition canonical_seal :: "(bytes \<Rightarrow> bool) \<Rightarrow> header \<Rightarrow> bool" where
  "canonical_seal low_s h \<longleftrightarrow> seal_of h ! 64 \<in> {0, 1} \<and> low_s (seal_of h)"

lemma parliaRlp_eq:
  assumes "rlp_laws L" and "wf_header h" and "0 \<le> chainId"
  shows "parliaRlp L h chainId = Ret (rlp_of (sealed_payloads h (nat chainId)))"
proof -
  have "nat (int (length (hdrExtra h)) - 65) = length (hdrExtra h) - 65"
    by simp
  moreover have "65 \<le> length (hdrExtra h)"
    using assms(2) by (simp add: wf_header_def)
  ultimately show ?thesis
    using assms by (simp add: parliaRlp_def encodeSigHeader_def go_slice_def rlp_laws_def wf_header_def
        sealed_payloads_def before_extra_def after_extra_def)
qed

text \<open>The recovered address, from the public key that the seal recovers to.\<close>

lemma recoverParliaBlockSigner_Ret:
  assumes "rlp_laws L" and "wf_header h" and "0 \<le> chainId" and "crypto_laws C pub"
    and "recoverParliaBlockSigner C L h chainId = Ret signer"
  obtains publicKey where "ecrecover C (keccak256 C (rlp_of (sealed_payloads h (nat chainId)))) (seal_of h) = Ret publicKey"
    and "signer = drop 12 (keccak256 C (drop 1 publicKey))"
proof -
  have len: "\<not> length (hdrExtra h) < extraSeal"
    using assms(2) by (simp add: wf_header_def extraSeal_def)
  obtain publicKey key tail where *: "ecrecover C (keccak256 C (rlp_of (sealed_payloads h (nat chainId)))) (seal_of h) = Ret publicKey"
    "go_slice publicKey 1 (int (length publicKey)) = Ret key"
    "go_slice (keccak256 C key) 12 (int (length (keccak256 C key))) = Ret tail" "signer = go_copy zero_address tail"
    using assms(5) recover_of_parliaRlp [OF len, of C L chainId] parliaRlp_eq [OF assms(1-3)]
    by (auto simp: outcome_bind_Ret_iff seal_of_def extraSeal_def)
  then have "key = drop 1 publicKey" "tail = drop 12 (keccak256 C key)"
    by (auto simp: go_slice_Ret_iff)
  moreover have "length (keccak256 C key) = 32"
    by (rule crypto_lawsD(1) [OF assms(4)])
  ultimately show ?thesis
    using * that by (simp add: zero_address_def)
qed

lemma seal_lies:
  assumes "wf_header h" and "header_at cd off h"
  shows "cd_slice cd (evm_sub (hwAfterExtra (walk_of h off)) 65) 65 = seal_of h" and "length (seal_of h) = 65"
proof -
  have len: "65 \<le> length (hdrExtra h)"
    using assms(1) by (simp add: wf_header_def)
  then show length: "length (seal_of h) = 65"
    by (simp add: seal_of_def)
  have split: "hdrExtra h = take (length (hdrExtra h) - 65) (hdrExtra h) @ seal_of h"
    by (simp add: seal_of_def)
  have "lies cd (header_pos off h 12 + rlp_prefix (hdrExtra h)) (take (length (hdrExtra h) - 65) (hdrExtra h) @ seal_of h)"
    using header_layout(4) [OF assms] split by simp
  then have "lies cd (header_pos off h 12 + rlp_prefix (hdrExtra h) + (length (hdrExtra h) - 65)) (seal_of h)"
    by (simp add: lies_append)
  then have "cd_slice cd (header_pos off h 12 + rlp_prefix (hdrExtra h) + (length (hdrExtra h) - 65)) 65 = seal_of h"
    using lies_slice length by metis
  moreover have "evm_sub (hwAfterExtra (walk_of h off)) 65
      = header_pos off h 12 + rlp_prefix (hdrExtra h) + (length (hdrExtra h) - 65)"
    using header_layout(5) [OF assms] len by (simp add: walk_of_def evm_sub_le)
  ultimately show "cd_slice cd (evm_sub (hwAfterExtra (walk_of h off)) 65) 65 = seal_of h"
    by simp
qed

lemma recover_sealer_eq:
  assumes "rlp_laws L" and "wf_header h" and "0 \<le> chainId" and "crypto_laws C pub" and "recover_laws C E low_s"
    and "recoverParliaBlockSigner C L h chainId = Ret (hdrCoinbase h)" and "canonical_seal low_s h" and "header_at cd off h"
  shows "recover_sealer E cd (rlp_of (sealed_payloads h (nat chainId))) (walk_of h off) =
     Done ((hwHeader (walk_of h off))\<lparr>shCoinbase := (if hdrNumber h = 0 then zero_address else hdrCoinbase h)\<rparr>)"
proof -
  note seal = seal_lies [OF assms(2,8)]
  have number: "(word_of_int (hdrNumber h) :: u64) = 0 \<longleftrightarrow> hdrNumber h = 0"
    using assms(2) by (simp add: wf_header_def word_uint_eq_iff uint_word_of_int take_bit_int_eq_self)
  obtain publicKey where key: "ecrecover C (keccak256 C (rlp_of (sealed_payloads h (nat chainId)))) (seal_of h) = Ret publicKey"
    "hdrCoinbase h = drop 12 (keccak256 C (drop 1 publicKey))"
    using recoverParliaBlockSigner_Ret [OF assms(1-4,6)] .
  have v: "(if seal_of h ! 64 = 1 then 28 else 27) = seal_of h ! 64 + 27"
    using assms(7) by (auto simp: canonical_seal_def)
  have "evRecover E (evKeccak256 E (rlp_of (sealed_payloads h (nat chainId)))) ((seal_of h)[64 := seal_of h ! 64 + 27]) = Done (hdrCoinbase h)"
    using assms(5,7) key seal(2) by (simp add: recover_laws_def canonical_seal_def)
  then show ?thesis
    unfolding recover_sealer_def Let_def seal(1)
    using number seal(2) v by (simp add: walk_of_def new_sol_header_def get_byte_def set_byte_def)
qed

text \<open>The addresses in the extra data of an epoch block.\<close>

definition listed_validators :: "header \<Rightarrow> address list" where
  "listed_validators h = map (\<lambda>i. take 20 (drop (32 + i * 20) (hdrExtra h))) [0..<(length (hdrExtra h) - 97) div 20]"

lemma epoch_validators_eq:
  assumes "wf_header h" and "header_at cd off h" and "(length (hdrExtra h) - 97) mod 20 = 0"
  shows "epoch_validators cd (walk_of h off) = Done (listed_validators h)"
proof -
  let ?n = "(length (hdrExtra h) - 97) div 20" and ?p = "rlp_prefix (hdrExtra h)" and ?q = "header_pos off h 12"
  note layout = header_layout [OF assms(1,2)]
  have extra: "97 \<le> length (hdrExtra h)" "length (hdrExtra h) < 65536" "?q + ?p + length (hdrExtra h) < 2 ^ 128"
    using assms(1,2) layout(2,8) by (simp_all add: wf_header_def header_at_def)
  have p: "?p \<le> 3"
    using rlp_prefix_mono(3) [of "hdrExtra h" "hdrExtra h"] extra by simp
  have len: "length (hdrExtra h) = 97 + ?n * 20"
    using assms(3) extra(1) by (metis add_diff_inverse_nat div_mod_decomp add.right_neutral not_less)
  have n: "(?p + length (hdrExtra h) + ?p - 65 - 32) div 20 = ?n"
    using p len by linarith
  have walk: "hwBeforeExtra (walk_of h off) = ?q" "hwAfterExtra (walk_of h off) = ?q + (?p + length (hdrExtra h))"
    "prefixLength cd ?q = ?p"
    using layout by (simp_all add: walk_of_def prefixLength_def)
  have chunk: "be_fixed 20 (evm_shr 96 (calldataload cd (evm_add (evm_add (evm_add ?q ?p) (evm_mul i 20)) 32)))
      = take 20 (drop (32 + i * 20) (hdrExtra h))" if "i < ?n" for i
  proof -
    let ?x = "take 20 (drop (32 + i * 20) (hdrExtra h))"
    have bound: "32 + i * 20 + 20 \<le> length (hdrExtra h)"
      using that len by linarith
    have "hdrExtra h = take (32 + i * 20) (hdrExtra h) @ ?x @ drop 20 (drop (32 + i * 20) (hdrExtra h))"
      by (simp only: append_take_drop_id)
    then have "lies cd (?q + ?p) (take (32 + i * 20) (hdrExtra h) @ ?x @ drop 20 (drop (32 + i * 20) (hdrExtra h)))"
      using layout(4) by simp
    then have "lies cd (?q + ?p + (32 + i * 20)) ?x"
      using bound by (simp only: lies_append length_take min_absorb2)
    moreover have len': "length ?x = 20"
      using bound by simp
    ultimately have "evm_shr (8 * (32 - 20)) (calldataload cd (?q + ?p + (32 + i * 20))) = be_val ?x"
      using calldataload_lies [of cd "?q + ?p + (32 + i * 20)" ?x] by simp
    moreover have "evm_add (evm_add (evm_add ?q ?p) (evm_mul i 20)) 32 = ?q + ?p + (32 + i * 20)"
      using extra bound by (simp add: evm_add_less evm_mul_def)
    ultimately show ?thesis
      using be_fixed_val [of ?x] len' by simp
  qed
  have arith: "usub (?q + (?p + length (hdrExtra h))) ?q = Done (?p + length (hdrExtra h))"
    "uadd (?p + length (hdrExtra h)) ?p = Done (?p + length (hdrExtra h) + ?p)"
    "usub (?p + length (hdrExtra h) + ?p) 65 = Done (?p + length (hdrExtra h) + ?p - 65)"
    "usub (?p + length (hdrExtra h) + ?p - 65) 32 = Done (?p + length (hdrExtra h) + ?p - 65 - 32)"
    using extra p by (simp_all add: usub_def uadd_def)
  have "?n < 2 ^ 64"
    using extra by simp
  then show ?thesis
    unfolding epoch_validators_def walk Let_def arith evm_bind.simps n listed_validators_def
    using chunk by simp
qed

end
