(* ===== verification/ParliaVerifier.thy ===== *)
theory ParliaVerifier
  imports ContractVerifier
begin

text \<open>
  The external functions of the Parlia verifier (\<open>contracts/verifiers/ParliaBlockVerifier.sol\<close>). A block
  that \<open>relayer/parlia.go\<close> takes for well sealed is accepted, with the same validators; a list of them,
  linked by parent hashes, reaches the quorum check with exactly their sealers.
\<close>

section \<open>Definitions\<close>

text \<open>The slices of the calldata that hold the \<open>bytes\<close> arguments.\<close>

definition slices :: "evm_lib \<Rightarrow> bytes list \<Rightarrow> (nat \<times> nat) list" where
  "slices E args = zip (snd (evCalldata E args)) (map length args)"

definition verifyBlockWithoutQuorum ::
    "evm_lib \<Rightarrow> nat \<Rightarrow> bytes \<Rightarrow> u64 \<Rightarrow> (hash \<times> address list \<times> u64) evm" where
  "verifyBlockWithoutQuorum E chainId rawBlock epochLength =
     evm_bind (parseAndVerifyPoSaBlockHeader E (fst (evCalldata E [rawBlock])) chainId (hd (slices E [rawBlock])) epochLength)
       (\<lambda>(blockHeader, validatorSet).
     Done (shBlockHash blockHeader, validatorSet, shBlockNumber blockHeader))"

record verify_state =
  vsFirstBlock :: sol_header
  vsNewValidatorSet :: "address list"
  vsParentHash :: hash
  vsBlockValidators :: "address list"

fun blocks_loop ::
    "evm_lib \<Rightarrow> bytes \<Rightarrow> nat \<Rightarrow> u64 \<Rightarrow> nat \<Rightarrow> (nat \<times> nat) list \<Rightarrow> verify_state \<Rightarrow> verify_state evm" where
  "blocks_loop E cd chainId epochLength i [] s = Done s"
| "blocks_loop E cd chainId epochLength i (blockProof # rest) s =
     evm_bind (parseAndVerifyPoSaBlockHeader E cd chainId blockProof epochLength) (\<lambda>(blockHeader, validatorSet).
     let s = s\<lparr>vsBlockValidators := (vsBlockValidators s)[i := shCoinbase blockHeader]\<rparr> in
     evm_bind (if i = 0 then Done (s\<lparr>vsFirstBlock := blockHeader, vsNewValidatorSet := validatorSet\<rparr>)
               else evm_bind (require (shParentHash blockHeader = vsParentHash s) ''bad parent hash'') (\<lambda>_. Done s)) (\<lambda>s.
     blocks_loop E cd chainId epochLength (i + 1) rest (s\<lparr>vsParentHash := shBlockHash blockHeader\<rparr>)))"

text \<open>\<open>IValidatorChecker.checkValidatorsAndQuorumReached\<close>, which the hub implements.\<close>

type_synonym validator_checker = "nat \<Rightarrow> address list \<Rightarrow> u64 \<Rightarrow> bool evm"

definition verifyBlocksAndReachedQuorum ::
    "evm_lib \<Rightarrow> nat \<Rightarrow> bytes list \<Rightarrow> u64 \<Rightarrow> validator_checker \<Rightarrow> (sol_header \<times> address list) evm" where
  "verifyBlocksAndReachedQuorum E chainId blockProofs epochLength checker =
     (let blockValidators = replicate (length blockProofs) zero_address in
      evm_bind (blocks_loop E (fst (evCalldata E blockProofs)) chainId epochLength 0 (slices E blockProofs)
        \<lparr>vsFirstBlock = new_sol_header, vsNewValidatorSet = [], vsParentHash = replicate 32 0,
         vsBlockValidators = blockValidators\<rparr>) (\<lambda>s.
      evm_bind (div64 (shBlockNumber (vsFirstBlock s)) epochLength) (\<lambda>epochNumber.
      evm_bind (if epochNumber > 0 then
                  evm_bind (sub64 epochNumber 1) (\<lambda>previous.
                  evm_bind (checker chainId (vsBlockValidators s) previous) (\<lambda>reached.
                  require reached ''quorum not reached''))
                else Done ()) (\<lambda>_.
      Done (vsFirstBlock s, vsNewValidatorSet s)))))"

definition verifyValidatorTransition ::
    "evm_lib \<Rightarrow> nat \<Rightarrow> bytes list \<Rightarrow> u32 \<Rightarrow> validator_checker \<Rightarrow> (address list \<times> u64) evm" where
  "verifyValidatorTransition E chainId blockProofs epochLength checker =
     evm_bind (verifyBlocksAndReachedQuorum E chainId blockProofs (ucast epochLength) checker) (\<lambda>(firstBlock, newValidatorSet).
     evm_bind (mod64 (shBlockNumber firstBlock) (ucast epochLength)) (\<lambda>r.
     evm_bind (require (r = 0) ''not epoch block'') (\<lambda>_.
     evm_bind (div64 (shBlockNumber firstBlock) (ucast epochLength)) (\<lambda>epochNumber.
     Done (newValidatorSet, epochNumber)))))"

definition verifyBlockAndReachedQuorum ::
    "evm_lib \<Rightarrow> nat \<Rightarrow> bytes list \<Rightarrow> u32 \<Rightarrow> validator_checker \<Rightarrow> sol_header evm" where
  "verifyBlockAndReachedQuorum E chainId blockProofs epochLength checker =
     evm_bind (verifyBlocksAndReachedQuorum E chainId blockProofs (ucast epochLength) checker) (\<lambda>(firstBlock, _). Done firstBlock)"

definition parseParliaBlockHeader :: "evm_lib \<Rightarrow> bytes \<Rightarrow> sol_header evm" where
  "parseParliaBlockHeader E rawBlock =
     parsePoSaBlockHeader E (fst (evCalldata E [rawBlock])) (hd (slices E [rawBlock]))"

definition extractParliaSigningData :: "evm_lib \<Rightarrow> bytes \<Rightarrow> nat \<Rightarrow> u32 \<Rightarrow> (sol_header \<times> address list) evm" where
  "extractParliaSigningData E blockProof chainId epochLength =
     parseAndVerifyPoSaBlockHeader E (fst (evCalldata E [blockProof])) chainId (hd (slices E [blockProof])) (ucast epochLength)"

text \<open>The compiler places every argument in the calldata, for arguments of a total size that occurs.\<close>

definition calldata_laws :: "evm_lib \<Rightarrow> bool" where
  "calldata_laws E \<longleftrightarrow> (\<forall>args. length (concat args) < 2 ^ 60 \<longrightarrow> length (snd (evCalldata E args)) = length args \<and>
     (\<forall>i<length args. lies (fst (evCalldata E args)) (snd (evCalldata E args) ! i) (args ! i)
        \<and> snd (evCalldata E args) ! i < 2 ^ 64))"

section \<open>One block\<close>

abbreviation header_rlp :: "header \<Rightarrow> bytes" where
  "header_rlp h \<equiv> rlp_of (header_payloads h)"

definition sol_header_of :: "evm_lib \<Rightarrow> header \<Rightarrow> sol_header" where
  "sol_header_of E h = \<lparr>shBlockHash = evKeccak256 E (header_rlp h), shParentHash = hdrParentHash h,
     shBlockNumber = word_of_int (hdrNumber h),
     shCoinbase = (if hdrNumber h = 0 then zero_address else hdrCoinbase h),
     shReceiptsRoot = hdrReceiptHash h, shTxsRoot = hdrTxHash h, shStateRoot = hdrRoot h\<rparr>"

text \<open>The packages that the two sides use.\<close>

definition chain_laws :: "crypto_lib \<Rightarrow> (priv_key \<Rightarrow> bytes) \<Rightarrow> rlp_lib \<Rightarrow> evm_lib \<Rightarrow> (bytes \<Rightarrow> bool) \<Rightarrow> bool" where
  "chain_laws C pub L E low_s \<longleftrightarrow> crypto_laws C pub \<and> rlp_laws L \<and> recover_laws C E low_s \<and> calldata_laws E"

lemma chain_lawsD:
  "chain_laws C pub L E low_s \<Longrightarrow> crypto_laws C pub" "chain_laws C pub L E low_s \<Longrightarrow> rlp_laws L"
  "chain_laws C pub L E low_s \<Longrightarrow> recover_laws C E low_s" "chain_laws C pub L E low_s \<Longrightarrow> calldata_laws E"
  by (simp_all add: chain_laws_def)

text \<open>A header that the relayer accepts: the seal recovers to the coinbase.\<close>

definition sealed_header :: "crypto_lib \<Rightarrow> rlp_lib \<Rightarrow> (bytes \<Rightarrow> bool) \<Rightarrow> nat \<Rightarrow> header \<Rightarrow> bool" where
  "sealed_header C L low_s chainId h \<longleftrightarrow> wf_header h \<and> canonical_seal low_s h
     \<and> recoverParliaBlockSigner C L h (int chainId) = Ret (hdrCoinbase h)"

definition epoch_header :: "u64 \<Rightarrow> header \<Rightarrow> bool" where
  "epoch_header epochLength h \<longleftrightarrow> (word_of_int (hdrNumber h) :: u64) mod epochLength = 0"

definition whole_validators :: "header \<Rightarrow> bool" where
  "whole_validators h \<longleftrightarrow> (length (hdrExtra h) - 97) mod 20 = 0"

lemma parse_header:
  assumes laws: "chain_laws C pub L E low_s" and "sealed_header C L low_s chainId h" and at: "header_at cd off h"
    and "chainId < 2 ^ 64" and "epochLength \<noteq> 0" and "epoch_header epochLength h \<Longrightarrow> whole_validators h"
  shows "parseAndVerifyPoSaBlockHeader E cd chainId (off, length (header_rlp h)) epochLength =
     Done (sol_header_of E h, if epoch_header epochLength h then listed_validators h else [])"
proof -
  have h: "wf_header h" "canonical_seal low_s h" "recoverParliaBlockSigner C L h (int chainId) = Ret (hdrCoinbase h)"
    using assms(2) by (simp_all add: sealed_header_def)
  have "recover_sealer E cd (rlp_of (sealed_payloads h chainId)) (walk_of h off) =
     Done ((hwHeader (walk_of h off))\<lparr>shCoinbase := (if hdrNumber h = 0 then zero_address else hdrCoinbase h)\<rparr>)"
    using recover_sealer_eq [OF chain_lawsD(2) [OF laws] h(1) _ chain_lawsD(1,3) [OF laws] h(3,2) at] by simp
  moreover have "cd_slice cd off (length (header_rlp h)) = header_rlp h"
    using at by (simp add: header_at_def lies_slice)
  ultimately show ?thesis
    using walk_header_eq [OF h(1) at] signing_data_eq [OF h(1) at assms(4)] epoch_validators_eq [OF h(1) at] assms(5,6)
    by (simp add: parseAndVerifyPoSaBlockHeader_def mod64_def epoch_header_def whole_validators_def sol_header_of_def
        walk_of_def new_sol_header_def)
qed

section \<open>A list of blocks\<close>

text \<open>Each block names the hash of the one before.\<close>

definition linked :: "evm_lib \<Rightarrow> header list \<Rightarrow> bool" where
  "linked E hs \<longleftrightarrow> (\<forall>i. Suc i < length hs \<longrightarrow> hdrParentHash (hs ! Suc i) = evKeccak256 E (header_rlp (hs ! i)))"

definition good_headers :: "crypto_lib \<Rightarrow> rlp_lib \<Rightarrow> (bytes \<Rightarrow> bool) \<Rightarrow> nat \<Rightarrow> u64 \<Rightarrow> header list \<Rightarrow> bool" where
  "good_headers C L low_s chainId epochLength hs \<longleftrightarrow>
     (\<forall>h\<in>set hs. sealed_header C L low_s chainId h \<and> hdrNumber h \<noteq> 0 \<and> (epoch_header epochLength h \<longrightarrow> whole_validators h))"

lemma blocks_loop_rest:
  assumes "chain_laws C pub L E low_s" and "chainId < 2 ^ 64" and "epochLength \<noteq> 0"
    and "good_headers C L low_s chainId epochLength hs"
    and "list_all2 (\<lambda>h (off, n). header_at cd off h \<and> n = length (header_rlp h)) hs bs"
    and "0 < i" and "linked E (h0 # hs)" and "vsParentHash s = evKeccak256 E (header_rlp h0)"
    and "vsBlockValidators s = done @ replicate (length hs) zero_address" and "length done = i"
  shows "\<exists>p. blocks_loop E cd chainId epochLength i bs s =
     Done (s\<lparr>vsParentHash := p, vsBlockValidators := done @ map hdrCoinbase hs\<rparr>)"
  using assms(4-)
proof (induction hs arbitrary: bs i s h0 "done")
  case Nil
  then show ?case
    by (intro exI [of _ "vsParentHash s"]) simp
next
  case (Cons h hs)
  obtain off rest where bs: "bs = (off, length (header_rlp h)) # rest" "header_at cd off h"
    "list_all2 (\<lambda>h (off, n). header_at cd off h \<and> n = length (header_rlp h)) hs rest"
    using Cons.prems(2) by (auto simp: list_all2_Cons1)
  have h: "sealed_header C L low_s chainId h" "hdrNumber h \<noteq> 0" "epoch_header epochLength h \<Longrightarrow> whole_validators h"
    and hs: "good_headers C L low_s chainId epochLength hs"
    using Cons.prems(1) by (simp_all add: good_headers_def)
  note parse = parse_header [OF assms(1) h(1) bs(2) assms(2,3) h(3)]
  have parent: "hdrParentHash h = evKeccak256 E (header_rlp h0)"
    using Cons.prems(4) by (force simp: linked_def)
  have linked: "linked E (h # hs)"
    unfolding linked_def
  proof (intro allI impI)
    fix k assume "Suc k < length (h # hs)"
    then show "hdrParentHash ((h # hs) ! Suc k) = evKeccak256 E (header_rlp ((h # hs) ! k))"
      using Cons.prems(4) unfolding linked_def by (metis Suc_less_eq length_Cons nth_Cons_Suc)
  qed
  let ?s = "s\<lparr>vsBlockValidators := (vsBlockValidators s)[i := hdrCoinbase h], vsParentHash := evKeccak256 E (header_rlp h)\<rparr>"
  have upd: "vsBlockValidators ?s = (done @ [hdrCoinbase h]) @ replicate (length hs) zero_address"
    using Cons.prems(6,7) by (simp add: list_update_append)
  obtain p where "blocks_loop E cd chainId epochLength (i + 1) rest ?s =
      Done (?s\<lparr>vsParentHash := p, vsBlockValidators := (done @ [hdrCoinbase h]) @ map hdrCoinbase hs\<rparr>)"
    using Cons.IH [OF hs bs(3) _ linked _ upd] Cons.prems(7) by auto
  then show ?case
    using parse h(2) parent Cons.prems(3,5) bs(1) by (intro exI [of _ p]) (simp add: sol_header_of_def Let_def)
qed

text \<open>The proofs that encode a list of blocks lie in the calldata.\<close>

lemma concat_headers:
  assumes "\<forall>h\<in>set hs. wf_header h"
  shows "length (concat (map header_rlp hs)) \<le> length hs * 65535"
  using assms by (induction hs) (auto simp: wf_header_def)

lemma slices_headers:
  assumes "calldata_laws E" and "\<forall>h\<in>set hs. wf_header h" and "length hs < 2 ^ 40"
  shows "list_all2 (\<lambda>h (off, n). header_at (fst (evCalldata E (map header_rlp hs))) off h \<and> n = length (header_rlp h))
     hs (slices E (map header_rlp hs))"
proof -
  have "length (concat (map header_rlp hs)) < 2 ^ 60"
    using concat_headers [OF assms(2)] assms(3) by simp
  then have "length (snd (evCalldata E (map header_rlp hs))) = length (map header_rlp hs) \<and>
     (\<forall>i<length (map header_rlp hs). lies (fst (evCalldata E (map header_rlp hs))) (snd (evCalldata E (map header_rlp hs)) ! i)
        (map header_rlp hs ! i) \<and> snd (evCalldata E (map header_rlp hs)) ! i < 2 ^ 64)"
    using assms(1) unfolding calldata_laws_def by blast
  then show ?thesis
    by (simp add: list_all2_conv_all_nth header_at_def slices_def)
qed

lemma verify_blocks_eq:
  assumes "chain_laws C pub L E low_s" and "chainId < 2 ^ 64" and "epochLength \<noteq> 0"
    and "good_headers C L low_s chainId epochLength (h # hs)" and "linked E (h # hs)" and "length (h # hs) < 2 ^ 40"
  shows "verifyBlocksAndReachedQuorum E chainId (map header_rlp (h # hs)) epochLength checker =
     (let epochNumber = word_of_int (hdrNumber h) div epochLength in
      evm_bind (if epochNumber > 0 then
                  evm_bind (checker chainId (map hdrCoinbase (h # hs)) (epochNumber - 1)) (\<lambda>reached.
                  require reached ''quorum not reached'')
                else Done ()) (\<lambda>_.
      Done (sol_header_of E h, if epoch_header epochLength h then listed_validators h else [])))"
proof -
  let ?proofs = "map header_rlp (h # hs)"
  let ?cd = "fst (evCalldata E ?proofs)"
  obtain off rest where slices: "slices E ?proofs = (off, length (header_rlp h)) # rest" "header_at ?cd off h"
    "list_all2 (\<lambda>h (off, n). header_at ?cd off h \<and> n = length (header_rlp h)) hs rest"
    using slices_headers [OF chain_lawsD(4) [OF assms(1)] _ assms(6)] assms(4)
    by (fastforce simp: list_all2_Cons1 good_headers_def sealed_header_def)
  have h: "sealed_header C L low_s chainId h" "hdrNumber h \<noteq> 0" "epoch_header epochLength h \<Longrightarrow> whole_validators h"
    and hs: "good_headers C L low_s chainId epochLength hs"
    using assms(4) by (simp_all add: good_headers_def)
  note parse = parse_header [OF assms(1) h(1) slices(2) assms(2,3) h(3)]
  let ?s = "\<lparr>vsFirstBlock = sol_header_of E h,
      vsNewValidatorSet = (if epoch_header epochLength h then listed_validators h else []),
      vsParentHash = evKeccak256 E (header_rlp h),
      vsBlockValidators = [hdrCoinbase h] @ replicate (length hs) zero_address\<rparr>"
  obtain p where loop: "blocks_loop E ?cd chainId epochLength (Suc 0) rest ?s =
      Done (?s\<lparr>vsParentHash := p, vsBlockValidators := [hdrCoinbase h] @ map hdrCoinbase hs\<rparr>)"
    using blocks_loop_rest [OF assms(1-3) hs slices(3) _ assms(5), of "Suc 0" ?s "[hdrCoinbase h]"] by auto
  have sub: "sub64 e 1 = Done (e - 1)" if "0 < e" for e :: u64
    using that by (simp add: sub64_def word_less_nat_alt word_le_nat_alt)
  show ?thesis
    unfolding verifyBlocksAndReachedQuorum_def slices(1)
    using parse loop h(2) assms(3) by (simp add: Let_def sol_header_of_def div64_def sub)
qed

lemma slice_header:
  assumes "calldata_laws E" and "wf_header h"
  obtains off where "slices E [header_rlp h] = [(off, length (header_rlp h))]" and "header_at (fst (evCalldata E [header_rlp h])) off h"
proof -
  have "\<exists>off. slices E [header_rlp h] = [(off, length (header_rlp h))] \<and> header_at (fst (evCalldata E [header_rlp h])) off h"
    using slices_headers [OF assms(1), of "[h]"] assms(2) by (auto simp: list_all2_Cons1)
  then show ?thesis
    using that by blast
qed

lemma verifyBlockWithoutQuorum_eq:
  assumes "chain_laws C pub L E low_s" and "sealed_header C L low_s chainId h" and "chainId < 2 ^ 64" and "epochLength \<noteq> 0"
    and "epoch_header epochLength h \<Longrightarrow> whole_validators h"
  shows "verifyBlockWithoutQuorum E chainId (header_rlp h) epochLength = Done (evKeccak256 E (header_rlp h),
    if epoch_header epochLength h then listed_validators h else [], word_of_int (hdrNumber h))"
proof -
  obtain off where "slices E [header_rlp h] = [(off, length (header_rlp h))]" "header_at (fst (evCalldata E [header_rlp h])) off h"
    using slice_header [OF chain_lawsD(4) [OF assms(1)]] assms(2) sealed_header_def by blast
  then show ?thesis
    using parse_header [OF assms(1,2) _ assms(3-5)] by (simp add: verifyBlockWithoutQuorum_def sol_header_of_def)
qed

section \<open>Sample packages\<close>

text \<open>Instances for the examples: the encoding itself, arguments one after the other, and a recovery that
  inverts the sample signatures.\<close>

definition chain_rlp :: rlp_lib where
  "chain_rlp = \<lparr>rlpEncode = (\<lambda>vs. Ret (rlp_of (map rlp_payload vs))),
     rlpEncodeHeader = (\<lambda>h. Ret (rlp_of (header_payloads h))), rlpEncodeUint = (\<lambda>i. Ret (rlp_string (be_min (unat i))))\<rparr>"

definition sample_evm :: evm_lib where
  "sample_evm = \<lparr>evKeccak256 = sample_fit 32,
     evRecover = (\<lambda>d s. if s ! 64 \<in> {27, 28} then Done (drop 12 (sample_fit 32 (drop 1 (s[64 := s ! 64 - 27]))))
                       else Revert (Require ''ECDSA: invalid signature'')),
     evCalldata = (\<lambda>args. (concat args, map (\<lambda>i. length (concat (take i args))) [0..<length args]))\<rparr>"

lemma lies_concat: "i < length xs \<Longrightarrow> lies (concat xs) (length (concat (take i xs))) (xs ! i)"
proof -
  assume "i < length xs"
  then have "concat xs = concat (take i xs) @ xs ! i @ concat (drop (Suc i) xs)"
    by (metis concat.simps(2) concat_append id_take_nth_drop)
  then show ?thesis
    by (simp add: lies_def)
qed

lemma sample_chain_laws_hash:
  assumes "\<And>x. length (K x) = 32" and "\<And>x. drop 12 (K x) = drop 12 (sample_fit 32 x)"
  shows "chain_laws (sample_crypto\<lparr>keccak256 := K\<rparr>) sample_pub chain_rlp (sample_evm\<lparr>evKeccak256 := K\<rparr>) (\<lambda>_. True)"
proof -
  have "calldata_laws (sample_evm\<lparr>evKeccak256 := K\<rparr>)"
    unfolding calldata_laws_def
  proof (intro allI impI conjI)
    fix args :: "bytes list" and i
    assume "length (concat args) < 2 ^ 60" and "i < length args"
    moreover have "length (concat (take i args)) \<le> length (concat args)"
      by (metis append_take_drop_id concat_append le_add1 length_append)
    ultimately show "snd (evCalldata (sample_evm\<lparr>evKeccak256 := K\<rparr>) args) ! i < 2 ^ 64"
      by (simp add: sample_evm_def)
  qed (simp_all add: sample_evm_def lies_concat)
  moreover have "crypto_laws (sample_crypto\<lparr>keccak256 := K\<rparr>) sample_pub"
    using sample_crypto_laws assms by (simp add: crypto_laws_def sample_crypto_def sample_keccak_def)
  ultimately show ?thesis
    by (auto simp: chain_laws_def rlp_laws_def chain_rlp_def recover_laws_def sample_evm_def sample_crypto_def assms(2) list_update_same_conv)
qed

lemma sample_chain_laws: "chain_laws sample_crypto sample_pub chain_rlp sample_evm (\<lambda>_. True)"
proof -
  have eq: "sample_crypto\<lparr>keccak256 := sample_fit 32\<rparr> = sample_crypto" "sample_evm\<lparr>evKeccak256 := sample_fit 32\<rparr> = sample_evm"
    by (simp_all add: sample_crypto_def sample_keccak_def sample_evm_def fun_eq_iff)
  show ?thesis
    using sample_chain_laws_hash [of "sample_fit 32"] unfolding eq by simp
qed

text \<open>Header \<open>n\<close> on top of a parent, sealed by \<open>signer\<close> and listing \<open>vals\<close>.\<close>

definition chain_header :: "hash \<Rightarrow> int \<Rightarrow> int list \<Rightarrow> int \<Rightarrow> header" where
  "chain_header parent n vals signer = (sample_header n vals signer)\<lparr>hdrParentHash := parent, hdrBloom := replicate 256 0\<rparr>"

lemma rlp_length:
  "length b < 56 \<Longrightarrow> length (rlp_string b) \<le> Suc (length b)"
  by (simp add: rlp_string_def)

lemma chain_header_length:
  assumes "length parent = 32" and "0 \<le> n" and "n < 2 ^ 64" and "length vals \<le> 100"
  shows "length (hdrExtra (chain_header parent n vals signer)) = 97 + length vals * 20"
    and "length (header_rlp (chain_header parent n vals signer)) \<le> 1000 + length vals * 20"
proof -
  let ?h = "chain_header parent n vals signer"
  have "length (concat (map sample_address vals)) = length vals * 20"
    by (induction vals) auto
  then show extra: "length (hdrExtra ?h) = 97 + length vals * 20"
    by (simp add: chain_header_def sample_header_def)
  have "length (be_min (nat n)) \<le> 8"
    using length_be_min_le [of "nat n" 8] assms(2,3) by (simp add: nat_less_iff)
  then have number: "length (rlp_string (be_min (nat n))) \<le> 9"
    using rlp_length [of "be_min (nat n)"] by simp
  have "length (be_min k) \<le> 2" if "k < 65536" for k
    using length_be_min_le [of k 2] that by simp
  then have long: "length (rlp_string b) \<le> 3 + length b" if "length b < 65536" for b
    using that by (simp add: rlp_string_def)
  have two: "be_min 2 = [2]" "be_min 0 = []"
    by (simp_all add: be_min.simps)
  have "length (concat (map rlp_string (header_payloads ?h))) \<le> 900 + length vals * 20"
    using number long [of "hdrExtra ?h"] long [of "replicate 256 0"] extra assms(1,4)
    by (simp add: header_payloads_def before_extra_def after_extra_def length_rlp_string [of "replicate 32 0"]
        chain_header_def sample_header_def rlp_string_def two)
  moreover have "length (rlp_of (header_payloads ?h)) \<le> 3 + length (concat (map rlp_string (header_payloads ?h)))"
    if "length (concat (map rlp_string (header_payloads ?h))) < 65536"
    using length_be_min_le [of "length (concat (map rlp_string (header_payloads ?h)))" 2] that
    by (simp add: rlp_of_def rlp_list_def Let_def)
  ultimately show "length (header_rlp ?h) \<le> 1000 + length vals * 20"
    using assms(4) by simp
qed

lemma chain_header_wf:
  assumes "length parent = 32" and "0 \<le> n" and "n < 2 ^ 64" and "length vals \<le> 100"
  shows "wf_header (chain_header parent n vals signer)"
  using chain_header_length [OF assms, of signer] assms by (simp add: wf_header_def chain_header_def sample_header_def)

lemma chain_header_extra:
  "hdrExtra (chain_header parent n vals signer) = replicate 32 0 @ concat (map sample_address vals) @ sample_pub signer"
  by (simp add: chain_header_def sample_header_def)

text \<open>A header with a sample seal, under every hash that agrees with the sample hash on addresses.\<close>

lemma sample_sealed_header:
  assumes "wf_header h" and "hdrExtra h = pre @ sample_pub signer" and "signer \<in> {0, 1}" and "hdrCoinbase h = sample_address signer"
    and "\<And>x. length (K x) = 32" and "\<And>x. drop 12 (K x) = drop 12 (sample_fit 32 x)"
  shows "sealed_header (sample_crypto\<lparr>keccak256 := K\<rparr>) chain_rlp (\<lambda>_. True) chainId h"
proof -
  have seal: "drop (length (hdrExtra h) - extraSeal) (hdrExtra h) = sample_pub signer" "seal_of h = sample_pub signer"
    by (simp_all add: assms(2) extraSeal_def seal_of_def)
  have "canonical_seal (\<lambda>_. True) h"
    using assms(3) by (auto simp: canonical_seal_def seal(2) sample_pub_def nth_append)
  moreover have "hdrCoinbase h = drop 12 (K (drop 1 (sample_pub signer)))"
    by (simp add: assms(4,6) sample_address_def sample_pub_def sample_fit_def)
  moreover have rlp: "rlp_laws chain_rlp"
    by (simp add: rlp_laws_def chain_rlp_def)
  moreover have "recoverParliaBlockSigner (sample_crypto\<lparr>keccak256 := K\<rparr>) chain_rlp h (int chainId) = Ret (drop 12 (K (drop 1 (sample_pub signer))))"
  proof -
    have "\<not> length (hdrExtra h) < extraSeal"
      using assms(1) by (simp add: wf_header_def extraSeal_def)
    note recover_of_parliaRlp [OF this, of "sample_crypto\<lparr>keccak256 := K\<rparr>" chain_rlp "int chainId", unfolded seal(1)]
    then show ?thesis
      using parliaRlp_eq [OF rlp assms(1), of "int chainId"] by (simp add: go_slice_def zero_address_def sample_crypto_def assms(5))
  qed
  ultimately show ?thesis
    using assms(1) by (simp add: sealed_header_def)
qed

lemma chain_header_sealed:
  assumes "length parent = 32" and "0 \<le> n" and "n < 2 ^ 64" and "length vals \<le> 100" and "signer \<in> {0, 1}"
  shows "sealed_header sample_crypto chain_rlp (\<lambda>_. True) chainId (chain_header parent n vals signer)"
proof -
  have eq: "sample_crypto\<lparr>keccak256 := sample_fit 32\<rparr> = sample_crypto"
    by (simp add: sample_crypto_def sample_keccak_def fun_eq_iff)
  have "hdrCoinbase (chain_header parent n vals signer) = sample_address signer"
    by (simp add: chain_header_def sample_header_def)
  then show ?thesis
    using sample_sealed_header [OF chain_header_wf [OF assms(1-4)], of signer "replicate 32 0 @ concat (map sample_address vals)" signer "sample_fit 32"]
      assms(5) unfolding eq by (simp add: chain_header_extra)
qed

lemma chain_header_listed:
  "listed_validators (chain_header parent n vals signer) = map sample_address vals"
  "whole_validators (chain_header parent n vals signer)"
proof -
  let ?e = "hdrExtra (chain_header parent n vals signer)"
  have uniform: "\<forall>b\<in>set (map sample_address vals). length b = 20"
    by simp
  have len: "length ?e = 97 + length vals * 20"
    using length_concat_uniform [OF uniform] by (simp add: chain_header_extra)
  then show "whole_validators (chain_header parent n vals signer)"
    by (simp add: whole_validators_def)
  have "take 20 (drop (32 + i * 20) ?e) = sample_address (vals ! i)" if "i < length vals" for i
  proof -
    have "drop (32 + i * 20) ?e = drop (i * 20) (concat (map sample_address vals)) @ sample_pub signer"
      using length_concat_uniform [OF uniform] that by (simp add: chain_header_extra)
    moreover have "20 \<le> length (drop (i * 20) (concat (map sample_address vals)))"
      using length_concat_uniform [OF uniform] that by simp
    ultimately show ?thesis
      using take_drop_concat [OF uniform, of i] that by simp
  qed
  then have "listed_validators (chain_header parent n vals signer) = map (\<lambda>i. sample_address (vals ! i)) [0..<length vals]"
    unfolding listed_validators_def len by (intro map_cong) simp_all
  also have "\<dots> = map sample_address (map ((!) vals) [0..<length vals])"
    by (simp add: comp_def)
  finally show "listed_validators (chain_header parent n vals signer) = map sample_address vals"
    by (simp only: map_nth)
qed

section \<open>Properties\<close>

text \<open>
  Property C23. Contract and relayer hash the same bytes. For a header that lies RLP-encoded anywhere in
  the calldata, the bytes that the verifier assembles in memory, with the chain id in front, the seal cut
  off and two length prefixes rewritten, are the bytes that \<open>parliaRlp\<close> encodes from the header.
\<close>

theorem signing_data_parliaRlp:
  assumes "rlp_laws L" and "wf_header h" and "header_at cd off h" and "chainId < 2 ^ 64"
  shows "\<exists>d. evm_bind (walk_header cd (off, length (header_rlp h))) (signing_data cd off chainId) = Done d
    \<and> parliaRlp L h (int chainId) = Ret d"
  using walk_header_eq [OF assms(2,3)] signing_data_eq [OF assms(2-4)] parliaRlp_eq [OF assms(1,2)] by simp

theorem signing_data_parliaRlp_witness:
  "\<exists>d. evm_bind (walk_header (header_rlp (chain_header (replicate 32 0) 200 [1, 2] 1))
           (0, length (header_rlp (chain_header (replicate 32 0) 200 [1, 2] 1))))
        (signing_data (header_rlp (chain_header (replicate 32 0) 200 [1, 2] 1)) 0 97) = Done d
    \<and> parliaRlp chain_rlp (chain_header (replicate 32 0) 200 [1, 2] 1) (int 97) = Ret d"
proof (rule signing_data_parliaRlp)
  show "rlp_laws chain_rlp"
    by (simp add: rlp_laws_def chain_rlp_def)
  show "wf_header (chain_header (replicate 32 0) 200 [1, 2] 1)"
    by (rule chain_header_wf) simp_all
qed (simp_all add: header_at_def lies_def)

text \<open>The addresses in the extra data, as the relayer reads them: \<open>BytesToAddress\<close> of 20 bytes are these
  bytes.\<close>

definition plain_addresses :: "codec_lib \<Rightarrow> bool" where
  "plain_addresses cd \<longleftrightarrow> (\<forall>b. length b = 20 \<longrightarrow> bytesToAddress cd b = b)"

lemma extract_listed:
  assumes "plain_addresses cd" and "extractParliaValidators cd h = Ret (vs, m)"
  shows "vs = listed_validators h" and "whole_validators h" and "97 \<le> length (hdrExtra h)"
proof -
  let ?e = "hdrExtra h"
  let ?vb = "take (length ?e - 97) (drop 32 ?e)"
  show len: "97 \<le> length ?e" and whole: "whole_validators h"
    using assms(2) by (auto simp: extract_eq Let_def whole_validators_def split: if_splits)
  have vb: "length ?vb = length ?e - 97"
    using len by simp
  have "vs = map (validator_at cd ?vb) [0..<(length ?e - 97) div 20]"
    using assms(2) extract_loop_result [of ?vb cd] len whole vb
    by (auto simp: extract_eq Let_def whole_validators_def)
  also have "\<dots> = listed_validators h"
    unfolding listed_validators_def
  proof (intro map_cong refl)
    fix i assume "i \<in> set [0..<(length ?e - 97) div 20]"
    then have "i * 20 + 20 \<le> length ?e - 97"
      using whole by (simp add: whole_validators_def)
    then have "take 20 (drop (i * 20) ?vb) = take 20 (drop (32 + i * 20) ?e)" "length (take 20 (drop (32 + i * 20) ?e)) = 20"
      using len by (simp_all add: drop_take add.commute)
    then show "validator_at cd ?vb i = take 20 (drop (32 + i * 20) ?e)"
      using assms(1) by (simp add: validator_at_def addressLength_def plain_addresses_def)
  qed
  finally show "vs = listed_validators h" .
qed

text \<open>
  Property C40. What the relayer accepts the contract accepts. For an epoch block whose seal recovers to
  the coinbase in \<open>recoverParliaBlockSigner\<close> and whose validators \<open>extractParliaValidators\<close> reads,
  the verifier returns the hash of the encoded header, these validators in order, and the block's number.
\<close>

theorem verifyBlockWithoutQuorum_accepts:
  assumes "chain_laws C pub L E low_s" and "plain_addresses cd"
    and "wf_header h" and "canonical_seal low_s h"
    and "recoverParliaBlockSigner C L h (int chainId) = Ret (hdrCoinbase h)"
    and "extractParliaValidators cd h = Ret (vs, m)"
    and "chainId < 2 ^ 64" and "epochLength \<noteq> 0" and "epoch_header epochLength h"
  shows "verifyBlockWithoutQuorum E chainId (header_rlp h) epochLength =
    Done (evKeccak256 E (header_rlp h), vs, word_of_int (hdrNumber h))"
proof -
  have "sealed_header C L low_s chainId h"
    using assms(3-5) by (simp add: sealed_header_def)
  then show ?thesis
    using verifyBlockWithoutQuorum_eq [OF assms(1) _ assms(7,8)] extract_listed [OF assms(2,6)] assms(9) by simp
qed

theorem verifyBlockWithoutQuorum_accepts_witness:
  "verifyBlockWithoutQuorum sample_evm 97 (header_rlp (chain_header (replicate 32 0) 200 [1, 2] 1)) 200 =
     Done (evKeccak256 sample_evm (header_rlp (chain_header (replicate 32 0) 200 [1, 2] 1)), map sample_address [1, 2], 200)"
proof -
  let ?h = "chain_header (replicate 32 0) 200 [1, 2] 1"
  obtain m where m: "extractParliaValidators sample_codec ?h = Ret (map sample_address [1, 2], m)"
    using extract_of_parts [OF sample_codec_laws, of ?h "replicate 32 0" "map sample_address [1, 2]" "sample_pub 1"]
    by (auto simp: chain_header_extra extraVanity_def extraSeal_def addressLength_def)
  have "sealed_header sample_crypto chain_rlp (\<lambda>_. True) 97 ?h"
    by (rule chain_header_sealed) simp_all
  then have s: "wf_header ?h" "canonical_seal (\<lambda>_. True) ?h"
    "recoverParliaBlockSigner sample_crypto chain_rlp ?h (int 97) = Ret (hdrCoinbase ?h)"
    by (simp_all add: sealed_header_def)
  have "hdrNumber ?h = 200"
    by (simp add: chain_header_def sample_header_def)
  then show ?thesis
    using verifyBlockWithoutQuorum_accepts [OF sample_chain_laws _ s m, of 200] by (simp add: plain_addresses_def epoch_header_def)
qed

text \<open>
  Property C35. The parser that does not verify names the wrong parent: it skips the first item of the
  header before it reads the parent hash, and so returns the hash of the uncles there. All other fields
  are those of the header.
\<close>

theorem parseParliaBlockHeader_spec:
  assumes "calldata_laws E" and "wf_header h"
  shows "parseParliaBlockHeader E (header_rlp h) = Done
    \<lparr>shBlockHash = evKeccak256 E (header_rlp h), shParentHash = hdrUncleHash h, shBlockNumber = word_of_int (hdrNumber h),
     shCoinbase = hdrCoinbase h, shReceiptsRoot = hdrReceiptHash h, shTxsRoot = hdrTxHash h, shStateRoot = hdrRoot h\<rparr>"
proof -
  obtain off where "slices E [header_rlp h] = [(off, length (header_rlp h))]" "header_at (fst (evCalldata E [header_rlp h])) off h"
    using slice_header [OF assms] .
  then show ?thesis
    using parsePoSaBlockHeader_eq [OF assms(2)] by (simp add: parseParliaBlockHeader_def)
qed

theorem parseParliaBlockHeader_spec_witness:
  "\<exists>hdr. parseParliaBlockHeader sample_evm (header_rlp (chain_header (replicate 32 7) 200 [1, 2] 1)) = Done hdr
    \<and> shParentHash hdr = replicate 32 0 \<and> hdrParentHash (chain_header (replicate 32 7) 200 [1, 2] 1) = replicate 32 7"
proof -
  have "wf_header (chain_header (replicate 32 7) 200 [1, 2] 1)"
    by (rule chain_header_wf) simp_all
  then show ?thesis
    using parseParliaBlockHeader_spec [OF chain_lawsD(4) [OF sample_chain_laws]]
    by (simp add: chain_header_def sample_header_def)
qed

end
