(* ===== verification/ContractHub.thy ===== *)
theory ContractHub
  imports ParliaVerifier
begin

text \<open>
  The hub contract (\<open>contracts/RelayHub.sol\<close>, with \<open>ctz\<close> of \<open>contracts/libraries/BitUtils.sol\<close>): chains, the
  history of their validator sets as bitmaps over one enumerable set, registration, the three kinds of
  transition, and the views. A call returns the new state or reverts, which leaves the state as it was.
\<close>

unbundle bit_operations_syntax

section \<open>Sets and bitmaps\<close>

text \<open>OpenZeppelin's \<open>EnumerableSet\<close> (whose \<open>_indexes\<close> are one-based, zero for absent values) and the
  \<open>get\<close> of its \<open>BitMaps\<close>; the code reads and writes the buckets of a bitmap itself.\<close>

record 'es set_lib =
  esEmpty :: 'es
  esAdd :: "address \<Rightarrow> 'es \<Rightarrow> 'es"
  esLength :: "'es \<Rightarrow> nat"
  esIndex :: "'es \<Rightarrow> address \<Rightarrow> nat"
  esValue :: "'es \<Rightarrow> nat \<Rightarrow> address"
  bmGet :: "(nat \<Rightarrow> u256) \<Rightarrow> nat \<Rightarrow> bool"

text \<open>Documented: a set lists its values in the order in which they were added.\<close>

definition set_laws :: "'es set_lib \<Rightarrow> ('es \<Rightarrow> address list) \<Rightarrow> bool" where
  "set_laws S elems \<longleftrightarrow> elems (esEmpty S) = []
     \<and> (\<forall>a s. elems (esAdd S a s) = (if a \<in> set (elems s) then elems s else elems s @ [a]))
     \<and> (\<forall>s. esLength S s = length (elems s))
     \<and> (\<forall>s a. a \<notin> set (elems s) \<longrightarrow> esIndex S s a = 0)
     \<and> (\<forall>s i. distinct (elems s) \<and> i < length (elems s) \<longrightarrow> esIndex S s (elems s ! i) = Suc i \<and> esValue S s i = elems s ! i)
     \<and> (\<forall>d i. bmGet S d i \<longleftrightarrow> bit (d (i div 256)) (i mod 256))"

text \<open>\<open>BitUtils.ctz\<close>: a binary search for the lowest bit.\<close>

definition ctz_step :: "nat \<Rightarrow> nat \<times> u256 \<Rightarrow> nat \<times> u256" where
  "ctz_step k s = (case s of (n, num) \<Rightarrow> if num AND mask k = 0 then (n + k, drop_bit k num) else (n, num))"

definition ctz :: "u256 \<Rightarrow> nat" where
  "ctz num = (if num = 0 then 256 else
     fst (ctz_step 1 (ctz_step 2 (ctz_step 4 (ctz_step 8 (ctz_step 16 (ctz_step 32 (ctz_step 64 (ctz_step 128 (0, num))))))))))"

section \<open>State\<close>

record 'es validator_history =
  allValidators :: 'es
  activeValidators :: "u64 \<Rightarrow> nat \<Rightarrow> u256"
  validatorCount :: "u64 \<Rightarrow> u64"
  epochCheckpoints :: "u64 \<Rightarrow> hash"
  latestKnownEpoch :: u64

datatype chain_status = NotFound | Verifying | Active

datatype chain_type = BSC | BAS

record bas =
  chainStatus :: chain_status
  chainType :: chain_type
  verificationFunction :: address
  bridgeAddress :: address
  basEpochLength :: u32

datatype hub_log = LogChainRegistered nat "address list" | LogValidatorSetUpdated nat "address list"

record 'es relay_hub =
  defaultVerificationFunction :: address
  stakingContract :: address
  validatorHistories :: "nat \<Rightarrow> 'es validator_history"
  registeredChains :: "nat \<Rightarrow> bas"
  emitted :: "hub_log list"

text \<open>Contracts at other addresses: \<open>IProofVerificationFunction\<close> and \<open>IStaking\<close>; both are called as views.\<close>

record block_verifier =
  bvBlockWithoutQuorum :: "nat \<Rightarrow> bytes \<Rightarrow> u64 \<Rightarrow> (hash \<times> address list \<times> u64) evm"
  bvValidatorTransition :: "nat \<Rightarrow> bytes list \<Rightarrow> u32 \<Rightarrow> validator_checker \<Rightarrow> (address list \<times> u64) evm"
  bvBlockAndReachedQuorum :: "nat \<Rightarrow> bytes list \<Rightarrow> u32 \<Rightarrow> validator_checker \<Rightarrow> sol_header evm"
  bvReceiptProof :: "bytes \<Rightarrow> hash \<Rightarrow> bytes \<Rightarrow> bytes \<Rightarrow> bool evm"

record staking =
  stIsValidatorActive :: "address \<Rightarrow> bool evm"
  stGetValidators :: "address list evm"

record 'es hub_env =
  envEvm :: evm_lib
  envSets :: "'es set_lib"
  envVerifier :: "address \<Rightarrow> block_verifier"
  envStaking :: "address \<Rightarrow> staking"

section \<open>Validator sets\<close>

fun mark_validators :: "'es set_lib \<Rightarrow> address list \<Rightarrow> 'es \<Rightarrow> u256 list \<Rightarrow> ('es \<times> u256 list) evm" where
  "mark_validators S [] all buckets = Done (all, buckets)"
| "mark_validators S (validator # rest) all buckets =
     (let all = esAdd S validator all in
      evm_bind (usub (esIndex S all validator) 1) (\<lambda>index.
      if index div 256 < length buckets then
        mark_validators S rest all (buckets[index div 256 := (buckets ! (index div 256)) OR push_bit (index mod 256) 1])
      else Revert OutOfBounds))"

definition copy_buckets :: "u256 list \<Rightarrow> (nat \<Rightarrow> u256) \<Rightarrow> nat \<Rightarrow> u256" where
  "copy_buckets buckets bitmap = fold (\<lambda>i d. d(i := buckets ! i)) [0..<length buckets] bitmap"

definition updateActiveValidatorSet ::
    "'es set_lib \<Rightarrow> 'es validator_history \<Rightarrow> address list \<Rightarrow> u64 \<Rightarrow> 'es validator_history evm" where
  "updateActiveValidatorSet S h newValidatorSet epochNumber =
     evm_bind (if latestKnownEpoch h > 0 \<and> epochNumber > 0 then
                 evm_bind (add64 (latestKnownEpoch h) 1) (\<lambda>successor. require (epochNumber = successor) ''bad epoch'')
               else Done ()) (\<lambda>_.
     let buckets = replicate (esLength S (allValidators h) div 256 + 1) 0 in
     evm_bind (mark_validators S newValidatorSet (allValidators h) buckets) (\<lambda>(all, buckets).
     Done (h\<lparr>allValidators := all,
             activeValidators := (activeValidators h)(epochNumber := copy_buckets buckets (activeValidators h epochNumber)),
             validatorCount := (validatorCount h)(epochNumber := word_of_nat (length newValidatorSet)),
             latestKnownEpoch := epochNumber\<rparr>)))"

text \<open>One round of the loop of \<open>checkValidatorsAndQuorumReached\<close> per entry of \<open>validatorSet\<close>.\<close>

fun quorum_loop :: "'es set_lib \<Rightarrow> 'es validator_history \<Rightarrow> (nat \<Rightarrow> u256) \<Rightarrow> address list \<Rightarrow> nat \<Rightarrow> u256 list \<Rightarrow> nat evm" where
  "quorum_loop S h bitMap [] uniqueValidators markedValidators = Done uniqueValidators"
| "quorum_loop S h bitMap (v # rest) uniqueValidators markedValidators =
     (let rawIndex = esIndex S (allValidators h) v in
      if rawIndex = 0 \<or> \<not> bmGet S bitMap (rawIndex - 1) then
        quorum_loop S h bitMap rest uniqueValidators markedValidators
      else
        let index = rawIndex - 1;
            usedMask = push_bit (index mod 256) 1 in
        if index div 256 < length markedValidators then
          let marked = markedValidators ! (index div 256);
              uniqueValidators = (if marked AND usedMask = 0 then uniqueValidators + 1 else uniqueValidators) in
          quorum_loop S h bitMap rest uniqueValidators (markedValidators[index div 256 := marked OR usedMask])
        else Revert OutOfBounds)"

definition checkValidatorsAndQuorumReached ::
    "'es set_lib \<Rightarrow> 'es relay_hub \<Rightarrow> nat \<Rightarrow> address list \<Rightarrow> u64 \<Rightarrow> bool evm" where
  "checkValidatorsAndQuorumReached S hub chainId validatorSet epochNumber =
     (let h = validatorHistories hub chainId;
          bitMap = activeValidators h epochNumber;
          totalValidators = unat (validatorCount h epochNumber) in
      evm_bind (quorum_loop S h bitMap validatorSet 0 (replicate ((totalValidators + 0xff) div 256) 0)) (\<lambda>uniqueValidators.
      Done (uniqueValidators \<ge> totalValidators * 2 div 3)))"

text \<open>\<open>checkValidators\<close>: every given address must be an active validator.\<close>

fun check_loop :: "'es set_lib \<Rightarrow> 'es validator_history \<Rightarrow> (nat \<Rightarrow> u256) \<Rightarrow> address list \<Rightarrow> u64 \<Rightarrow> u64 evm" where
  "check_loop S h bitMap [] uniqueValidators = Done uniqueValidators"
| "check_loop S h bitMap (v # rest) uniqueValidators =
     evm_bind (usub (esIndex S (allValidators h) v) 1) (\<lambda>index.
     evm_bind (require (bmGet S bitMap index) ''not a validator'') (\<lambda>_.
     evm_bind (add64 uniqueValidators 1) (check_loop S h bitMap rest)))"

definition checkValidators :: "'es set_lib \<Rightarrow> 'es relay_hub \<Rightarrow> nat \<Rightarrow> address list \<Rightarrow> u64 \<Rightarrow> u64 evm" where
  "checkValidators S hub chainId validators epoch =
     (let h = validatorHistories hub chainId in check_loop S h (activeValidators h epoch) validators 0)"

definition getLatestTransitionedEpoch :: "'es relay_hub \<Rightarrow> nat \<Rightarrow> u64" where
  "getLatestTransitionedEpoch hub chainId = latestKnownEpoch (validatorHistories hub chainId)"

definition getBridgeAddress :: "'es relay_hub \<Rightarrow> nat \<Rightarrow> address" where
  "getBridgeAddress hub chainId = bridgeAddress (registeredChains hub chainId)"

section \<open>Registration\<close>

definition ZERO_BLOCK_HASH :: hash where "ZERO_BLOCK_HASH = replicate 32 0"

definition DEFAULT_VERIFICATION_FUNCTION :: address where "DEFAULT_VERIFICATION_FUNCTION = zero_address"

text \<open>\<open>_verificationFunction\<close>, with the contract that is called.\<close>

definition verifier_of :: "'es hub_env \<Rightarrow> 'es relay_hub \<Rightarrow> address \<Rightarrow> block_verifier" where
  "verifier_of env hub f =
     envVerifier env (if f = DEFAULT_VERIFICATION_FUNCTION then defaultVerificationFunction hub else f)"

definition registerChainWithVerificationFunction ::
    "'es hub_env \<Rightarrow> nat \<Rightarrow> address \<Rightarrow> bytes \<Rightarrow> hash \<Rightarrow> chain_status \<Rightarrow> chain_type \<Rightarrow> address \<Rightarrow> u32 \<Rightarrow>
     'es relay_hub \<Rightarrow> 'es relay_hub evm" where
  "registerChainWithVerificationFunction env chainId f rawCheckpointBlock checkpointHash status ctype bridge epochLength hub =
     (let b = registeredChains hub chainId in
      evm_bind (require (chainStatus b = NotFound \<or> chainStatus b = Verifying) ''already registered'') (\<lambda>_.
      evm_bind (bvBlockWithoutQuorum (verifier_of env hub f) chainId rawCheckpointBlock (ucast epochLength))
        (\<lambda>(blockHash, initialValidatorSet, blockNumber).
      evm_bind (if checkpointHash \<noteq> ZERO_BLOCK_HASH then require (checkpointHash = blockHash) ''bad checkpoint hash''
                else Done ()) (\<lambda>_.
      evm_bind (div64 blockNumber (ucast epochLength)) (\<lambda>epochNumber.
      evm_bind (updateActiveValidatorSet (envSets env) (validatorHistories hub chainId) initialValidatorSet epochNumber) (\<lambda>h.
      Done (hub\<lparr>validatorHistories := (validatorHistories hub)(chainId := h),
                registeredChains := (registeredChains hub)(chainId := b\<lparr>chainStatus := status, chainType := ctype,
                  verificationFunction := f, bridgeAddress := bridge, basEpochLength := epochLength\<rparr>),
                emitted := emitted hub @ [LogChainRegistered chainId initialValidatorSet]\<rparr>)))))))"

definition registerCertifiedBAS ::
    "'es hub_env \<Rightarrow> nat \<Rightarrow> bytes \<Rightarrow> address \<Rightarrow> u32 \<Rightarrow> 'es relay_hub \<Rightarrow> 'es relay_hub evm" where
  "registerCertifiedBAS env chainId rawGenesisBlock bridge epochLength =
     registerChainWithVerificationFunction env chainId DEFAULT_VERIFICATION_FUNCTION rawGenesisBlock ZERO_BLOCK_HASH
       Verifying BAS bridge epochLength"

definition registerUsingCheckpoint ::
    "'es hub_env \<Rightarrow> nat \<Rightarrow> bytes \<Rightarrow> hash \<Rightarrow> address \<Rightarrow> u32 \<Rightarrow> 'es relay_hub \<Rightarrow> 'es relay_hub evm" where
  "registerUsingCheckpoint env chainId rawCheckpointBlock checkpointHash bridge epochLength =
     registerChainWithVerificationFunction env chainId DEFAULT_VERIFICATION_FUNCTION rawCheckpointBlock checkpointHash
       Verifying BAS bridge epochLength"

definition registerBAS ::
    "'es hub_env \<Rightarrow> nat \<Rightarrow> address \<Rightarrow> bytes \<Rightarrow> address \<Rightarrow> u32 \<Rightarrow> 'es relay_hub \<Rightarrow> 'es relay_hub evm" where
  "registerBAS env chainId f rawGenesisBlock bridge epochLength =
     registerChainWithVerificationFunction env chainId f rawGenesisBlock ZERO_BLOCK_HASH Verifying BAS bridge epochLength"

definition registerBSC ::
    "'es hub_env \<Rightarrow> nat \<Rightarrow> bytes \<Rightarrow> address \<Rightarrow> u32 \<Rightarrow> 'es relay_hub \<Rightarrow> 'es relay_hub evm" where
  "registerBSC env chainId rawGenesisBlock bridge epochLength =
     registerChainWithVerificationFunction env chainId DEFAULT_VERIFICATION_FUNCTION rawGenesisBlock ZERO_BLOCK_HASH
       Verifying BSC bridge epochLength"

section \<open>Transitions\<close>

definition active_chain :: "bas \<Rightarrow> unit evm" where
  "active_chain b = require (chainStatus b = Verifying \<or> chainStatus b = Active) ''not active''"

definition updateValidatorSet ::
    "'es hub_env \<Rightarrow> nat \<Rightarrow> bytes list \<Rightarrow> 'es relay_hub \<Rightarrow> 'es relay_hub evm" where
  "updateValidatorSet env chainId blockProofs hub =
     (let b = registeredChains hub chainId in
      evm_bind (active_chain b) (\<lambda>_.
      evm_bind (bvValidatorTransition (verifier_of env hub (verificationFunction b)) chainId blockProofs (basEpochLength b)
                  (checkValidatorsAndQuorumReached (envSets env) hub)) (\<lambda>(newValidatorSet, epochNumber).
      evm_bind (updateActiveValidatorSet (envSets env) (validatorHistories hub chainId) newValidatorSet epochNumber) (\<lambda>h.
      Done (hub\<lparr>validatorHistories := (validatorHistories hub)(chainId := h),
                registeredChains := (registeredChains hub)(chainId := b\<lparr>chainStatus := Active\<rparr>),
                emitted := emitted hub @ [LogValidatorSetUpdated chainId newValidatorSet]\<rparr>)))))"

text \<open>\<open>abi.encode\<close> of a list of addresses, for the snapshot.\<close>

definition encode_addresses :: "address list \<Rightarrow> bytes" where
  "encode_addresses as = be_fixed 32 32 @ be_fixed 32 (length as) @ concat (map (\<lambda>a. replicate 12 0 @ a) as)"

text \<open>
  A \<open>bytes[] calldata\<close> is the offset of its first word in the calldata and its length. Word \<open>i\<close>
  says where element \<open>i\<close> lies, counted from the offset; there its length comes first. The checks are those
  of the compiler, on signed words.
\<close>

definition signed256 :: "nat \<Rightarrow> int" where
  "signed256 w = (if w < 2 ^ 255 then int w else int w - 2 ^ 256)"

definition calldata_element :: "bytes \<Rightarrow> nat \<Rightarrow> nat \<Rightarrow> bytes evm" where
  "calldata_element cd offset ptr =
     (let rel = calldataload cd ptr in
      if \<not> signed256 rel < signed256 (evm_sub (evm_sub (length cd) offset) 31) then Revert BadCalldata
      else
        let addr = evm_add offset rel;
            len = calldataload cd addr;
            data = evm_add addr 32 in
        if len \<ge> 2 ^ 64 \<or> signed256 data > signed256 (evm_sub (length cd) len) then Revert BadCalldata
        else Done (cd_slice cd data len))"

primrec calldata_elements :: "bytes \<Rightarrow> nat \<Rightarrow> nat \<Rightarrow> nat \<Rightarrow> bytes list evm" where
  "calldata_elements cd offset ptr 0 = Done []"
| "calldata_elements cd offset ptr (Suc n) =
     evm_bind (calldata_element cd offset ptr) (\<lambda>x.
     evm_bind (calldata_elements cd offset (evm_add ptr 32) n) (\<lambda>xs. Done (x # xs)))"

definition calldata_array :: "bytes \<Rightarrow> nat \<Rightarrow> nat \<Rightarrow> bytes list evm" where
  "calldata_array cd offset n = calldata_elements cd offset offset n"

text \<open>The loop over the proofs, \<open>n\<close> of which are left; \<open>ptr\<close> is the place of the word for the next one.\<close>

fun epoch_blocks_loop ::
    "evm_lib \<Rightarrow> block_verifier \<Rightarrow> nat \<Rightarrow> u32 \<Rightarrow> bytes \<Rightarrow> nat \<Rightarrow> nat \<Rightarrow> nat \<Rightarrow> nat \<Rightarrow> hash \<Rightarrow> nat \<Rightarrow> nat \<Rightarrow> 'es validator_history \<Rightarrow>
     (nat \<times> nat \<times> 'es validator_history) evm" where
  "epoch_blocks_loop E pvf chainId epochLength cd offset ptr i 0 snapshot calldataOffset calldataSize h =
     Done (calldataOffset, calldataSize, h)"
| "epoch_blocks_loop E pvf chainId epochLength cd offset ptr i (Suc n) snapshot calldataOffset calldataSize h =
     evm_bind (calldata_element cd offset ptr) (\<lambda>blockProof.
     evm_bind (bvBlockWithoutQuorum pvf chainId blockProof (ucast epochLength)) (\<lambda>(_, validatorSet, blockNumber).
     evm_bind (mod64 blockNumber (ucast epochLength)) (\<lambda>r.
     if r \<noteq> 0 then Done (calldataOffset, calldataSize, h)
     else
       evm_bind (uadd (length blockProof) 0x20) (\<lambda>size.
       evm_bind (uadd calldataOffset size) (\<lambda>calldataOffset.
       evm_bind (uadd calldataSize 1) (\<lambda>calldataSize.
       let newSnapshot = evKeccak256 E (encode_addresses validatorSet) in
       evm_bind (div64 blockNumber (ucast epochLength)) (\<lambda>blockEpoch.
       if i = 0 then
         evm_bind (add64 (latestKnownEpoch h) 1) (\<lambda>successor.
         evm_bind (require (blockEpoch = successor) ''bad epoch transition'') (\<lambda>_.
         epoch_blocks_loop E pvf chainId epochLength cd offset (evm_add ptr 32) (i + 1) n newSnapshot calldataOffset calldataSize
           (h\<lparr>latestKnownEpoch := successor\<rparr>)))
       else
         evm_bind (require (newSnapshot \<noteq> snapshot) ''bad validator snapshot'') (\<lambda>_.
         epoch_blocks_loop E pvf chainId epochLength cd offset (evm_add ptr 32) (i + 1) n snapshot calldataOffset calldataSize h))))))))"

text \<open>The \<open>assembly\<close> block moves the offset of the array by the lengths of the proofs and shortens it; what lies
  there is then read as an array.\<close>

definition proofs_with_offset :: "bytes \<Rightarrow> nat \<Rightarrow> nat \<Rightarrow> nat \<Rightarrow> nat \<Rightarrow> bytes list evm" where
  "proofs_with_offset cd offset n calldataOffset calldataSize =
     calldata_array cd (evm_add offset calldataOffset) (evm_sub n calldataSize)"

text \<open>The argument \<open>blockProofs\<close> is the array of \<open>n\<close> elements at \<open>offset\<close> in the calldata \<open>cd\<close>, as the caller has laid
  it out; its words must lie inside.\<close>

definition updateValidatorSetUsingEpochBlocks ::
    "'es hub_env \<Rightarrow> nat \<Rightarrow> bytes \<Rightarrow> nat \<Rightarrow> nat \<Rightarrow> 'es relay_hub \<Rightarrow> 'es relay_hub evm" where
  "updateValidatorSetUsingEpochBlocks env chainId cd offset n hub =
     (let b = registeredChains hub chainId;
          pvf = verifier_of env hub (verificationFunction b) in
      evm_bind (if offset + 32 * n \<le> length cd then Done () else Revert BadCalldata) (\<lambda>_.
      evm_bind (active_chain b) (\<lambda>_.
      evm_bind (epoch_blocks_loop (envEvm env) pvf chainId (basEpochLength b) cd offset offset 0 n (replicate 32 0) 0 0
                  (validatorHistories hub chainId)) (\<lambda>(calldataOffset, calldataSize, h).
      let hub = hub\<lparr>validatorHistories := (validatorHistories hub)(chainId := h)\<rparr> in
      evm_bind (proofs_with_offset cd offset n calldataOffset calldataSize) (\<lambda>blockProofsWithOffset.
      evm_bind (bvValidatorTransition pvf chainId blockProofsWithOffset (basEpochLength b)
                  (checkValidatorsAndQuorumReached (envSets env) hub)) (\<lambda>(newValidatorSet, epochNumber).
      evm_bind (updateActiveValidatorSet (envSets env) h newValidatorSet epochNumber) (\<lambda>h.
      Done (hub\<lparr>validatorHistories := (validatorHistories hub)(chainId := h),
                registeredChains := (registeredChains hub)(chainId := b\<lparr>chainStatus := Active\<rparr>),
                emitted := emitted hub @ [LogValidatorSetUpdated chainId newValidatorSet]\<rparr>))))))))"

text \<open>The signers of a checkpoint, in the two chain types.\<close>

fun check_staked :: "evm_lib \<Rightarrow> staking \<Rightarrow> hash \<Rightarrow> bytes list \<Rightarrow> unit evm" where
  "check_staked E st signingRoot [] = Done ()"
| "check_staked E st signingRoot (signature # rest) =
     evm_bind (evRecover E signingRoot signature) (\<lambda>signer.
     evm_bind (stIsValidatorActive st signer) (\<lambda>isActive.
     evm_bind (require isActive ''bad validator'') (\<lambda>_.
     check_staked E st signingRoot rest)))"

fun recover_signers :: "evm_lib \<Rightarrow> hash \<Rightarrow> bytes list \<Rightarrow> address list evm" where
  "recover_signers E signingRoot [] = Done []"
| "recover_signers E signingRoot (signature # rest) =
     evm_bind (evRecover E signingRoot signature) (\<lambda>signer.
     evm_bind (recover_signers E signingRoot rest) (\<lambda>signers. Done (signer # signers)))"

definition check_signatures ::
    "'es hub_env \<Rightarrow> 'es relay_hub \<Rightarrow> nat \<Rightarrow> chain_type \<Rightarrow> hash \<Rightarrow> hash \<Rightarrow> u64 \<Rightarrow> bytes list \<Rightarrow> unit evm" where
  "check_signatures env hub chainId ctype blockHash checkpointHash newEpochNumber signatures =
     (let signingRoot = evKeccak256 (envEvm env) (blockHash @ checkpointHash) in
      case ctype of
        BSC \<Rightarrow>
          evm_bind (check_staked (envEvm env) (envStaking env (stakingContract hub)) signingRoot signatures) (\<lambda>_.
          evm_bind (stGetValidators (envStaking env (stakingContract hub))) (\<lambda>validators.
          require (length signatures \<ge> length validators) ''quorum not reached''))
      | BAS \<Rightarrow>
          evm_bind (recover_signers (envEvm env) signingRoot signatures) (\<lambda>signers.
          evm_bind (sub64 newEpochNumber 1) (\<lambda>previous.
          evm_bind (checkValidatorsAndQuorumReached (envSets env) hub chainId signers previous) (\<lambda>reached.
          require reached ''quorum not reached''))))"

definition checkpointTransition ::
    "'es hub_env \<Rightarrow> nat \<Rightarrow> bytes \<Rightarrow> hash \<Rightarrow> bytes list \<Rightarrow> 'es relay_hub \<Rightarrow> 'es relay_hub evm" where
  "checkpointTransition env chainId rawEpochBlock checkpointHash signatures hub =
     (let b = registeredChains hub chainId in
      evm_bind (active_chain b) (\<lambda>_.
      evm_bind (bvBlockWithoutQuorum (verifier_of env hub (verificationFunction b)) chainId rawEpochBlock
                  (ucast (basEpochLength b))) (\<lambda>(blockHash, newValidatorSet, blockNumber).
      evm_bind (div64 blockNumber (ucast (basEpochLength b))) (\<lambda>newEpochNumber.
      evm_bind (check_signatures env hub chainId (chainType b) blockHash checkpointHash newEpochNumber signatures) (\<lambda>_.
      evm_bind (updateActiveValidatorSet (envSets env) (validatorHistories hub chainId) newValidatorSet newEpochNumber) (\<lambda>h.
      Done (hub\<lparr>validatorHistories := (validatorHistories hub)(chainId :=
                  h\<lparr>epochCheckpoints := (epochCheckpoints h)(newEpochNumber := checkpointHash)\<rparr>),
                registeredChains := (registeredChains hub)(chainId := b\<lparr>chainStatus := Active\<rparr>)\<rparr>)))))))"

definition checkReceiptProof ::
    "'es hub_env \<Rightarrow> 'es relay_hub \<Rightarrow> nat \<Rightarrow> bytes list \<Rightarrow> bytes \<Rightarrow> bytes \<Rightarrow> bytes \<Rightarrow> bool evm" where
  "checkReceiptProof env hub chainId blockProofs rawReceipt proofSiblings proofPath =
     (let b = registeredChains hub chainId;
          pvf = verifier_of env hub (verificationFunction b) in
      evm_bind (require (chainStatus b = Active) ''not active'') (\<lambda>_.
      evm_bind (bvBlockAndReachedQuorum pvf chainId blockProofs (basEpochLength b)
                  (checkValidatorsAndQuorumReached (envSets env) hub)) (\<lambda>blockHeader.
      bvReceiptProof pvf rawReceipt (shReceiptsRoot blockHeader) proofSiblings proofPath)))"

end
