(* ===== verification/HubValidators.thy ===== *)
theory HubValidators
  imports ContractHub
begin

text \<open>
  The bitmaps of the hub contract as sets: the lowest bit, the listing of the active validators, the effect
  of storing a validator set, and the count of \<open>checkValidatorsAndQuorumReached\<close>, each against its
  specification over sets of addresses.
\<close>

section \<open>The lowest bit\<close>

text \<open>What the binary search keeps: \<open>num\<close> is \<open>word\<close> without its \<open>n\<close> lowest bits, which are zero, and has a
  bit among its \<open>m\<close> lowest.\<close>

definition searching :: "u256 \<Rightarrow> nat \<Rightarrow> nat \<times> u256 \<Rightarrow> bool" where
  "searching w m s \<longleftrightarrow> (\<forall>i. bit (snd s) i \<longleftrightarrow> bit w (fst s + i)) \<and> (\<forall>j<fst s. \<not> bit w j) \<and> (\<exists>i<m. bit (snd s) i)"

lemma and_mask_zero: "(num :: u256) AND mask k = 0 \<longleftrightarrow> (\<forall>i<k. \<not> bit num i)"
proof
  assume "num AND mask k = 0"
  then have "bit (num AND mask k) i = bit 0 i" for i
    by simp
  then show "\<forall>i<k. \<not> bit num i"
    using bit_imp_le_length [of num] by (auto simp: bit_simps)
next
  assume "\<forall>i<k. \<not> bit num i"
  then show "num AND mask k = 0"
    by (intro bit_word_eqI) (auto simp: bit_simps)
qed

lemma ctz_step_searching:
  assumes "searching w (2 * k) s"
  shows "searching w k (ctz_step k s)"
proof (cases "snd s AND mask k = 0")
  case True
  obtain i where i: "i < 2 * k" "bit (snd s) i"
    using assms by (auto simp: searching_def)
  then have "k \<le> i"
    using True by (metis and_mask_zero not_le)
  then have "i - k < k \<and> bit (drop_bit k (snd s)) (i - k)"
    using i by (simp add: bit_drop_bit_eq)
  then have "\<exists>i<k. bit (drop_bit k (snd s)) i"
    by blast
  moreover have "\<not> bit w j" if "j < fst s + k" for j
    using that True assms and_mask_zero [of "snd s" k] unfolding searching_def
    by (metis add_diff_inverse_nat nat_add_left_cancel_less)
  ultimately show ?thesis
    using True assms by (simp add: searching_def ctz_step_def case_prod_beta bit_drop_bit_eq add.assoc)
next
  case False
  then show ?thesis
    using assms by (auto simp: searching_def ctz_step_def case_prod_beta and_mask_zero)
qed

lemma ctz_lowest:
  assumes "w \<noteq> 0"
  shows "bit w (ctz w)" and "j < ctz w \<Longrightarrow> \<not> bit w j"
proof -
  have "\<exists>i<256. bit w i"
  proof (rule ccontr)
    assume "\<not> (\<exists>i<256. bit w i)"
    then have "w = 0"
      by (intro bit_word_eqI) auto
    with assms show False by simp
  qed
  then have "searching w (2 * 128) (0, w)"
    by (simp add: searching_def)
  then have "searching w (2 * 64) (ctz_step 128 (0, w))"
    using ctz_step_searching [of w 128] by simp
  then have "searching w (2 * 32) (ctz_step 64 (ctz_step 128 (0, w)))"
    using ctz_step_searching [of w 64] by simp
  then have "searching w (2 * 16) (ctz_step 32 (ctz_step 64 (ctz_step 128 (0, w))))"
    using ctz_step_searching [of w 32] by simp
  then have "searching w (2 * 8) (ctz_step 16 (ctz_step 32 (ctz_step 64 (ctz_step 128 (0, w)))))"
    using ctz_step_searching [of w 16] by simp
  then have "searching w (2 * 4) (ctz_step 8 (ctz_step 16 (ctz_step 32 (ctz_step 64 (ctz_step 128 (0, w))))))"
    using ctz_step_searching [of w 8] by simp
  then have "searching w (2 * 2) (ctz_step 4 (ctz_step 8 (ctz_step 16 (ctz_step 32 (ctz_step 64 (ctz_step 128 (0, w)))))))"
    using ctz_step_searching [of w 4] by simp
  then have "searching w (2 * 1) (ctz_step 2 (ctz_step 4 (ctz_step 8 (ctz_step 16 (ctz_step 32 (ctz_step 64 (ctz_step 128 (0, w))))))))"
    using ctz_step_searching [of w 2] by simp
  then have *: "searching w 1 (ctz_step 1 (ctz_step 2 (ctz_step 4 (ctz_step 8 (ctz_step 16 (ctz_step 32 (ctz_step 64 (ctz_step 128 (0, w)))))))))"
    by (rule ctz_step_searching)
  then show "bit w (ctz w)" "j < ctz w \<Longrightarrow> \<not> bit w j"
    using assms by (auto simp: searching_def ctz_def)
qed

lemma flip_lowest:
  assumes "(w :: u256) \<noteq> 0"
  shows "w XOR push_bit (ctz w) 1 = unset_bit (ctz w) w"
  using ctz_lowest(1) [OF assms] by (intro bit_word_eqI) (auto simp: bit_simps)

lemma flip_lowest_less:
  assumes "(w :: u256) \<noteq> 0"
  shows "unat (w XOR push_bit (ctz w) 1) < unat w"
proof -
  have "unset_bit (ctz w) w \<noteq> w"
    using ctz_lowest(1) [OF assms] by (metis bit_unset_bit_iff)
  moreover have "unset_bit (ctz w) (uint w) \<le> uint w"
    by (rule unset_bit_less_eq)
  moreover have "uint (unset_bit (ctz w) w) = unset_bit (ctz w) (uint w)"
    by (intro bit_eqI) (auto simp: bit_simps)
  ultimately have "uint (unset_bit (ctz w) w) < uint w"
    by (metis order_le_less word_uint_eqI)
  then show ?thesis
    unfolding flip_lowest [OF assms] by (simp add: word_less_def flip: word_less_nat_alt)
qed

lemma bits_lowest_first:
  assumes "(w :: u256) \<noteq> 0"
  shows "filter (bit w) [0..<256] = ctz w # filter (bit (w XOR push_bit (ctz w) 1)) [0..<256]"
proof -
  let ?n = "ctz w"
  note low = ctz_lowest [OF assms]
  have "?n < 256"
    using bit_imp_le_length [OF low(1)] by simp
  then have split: "[0..<256] = [0..<?n] @ ?n # [Suc ?n..<256]"
    using upt_add_eq_append [of 0 ?n "256 - ?n"] upt_conv_Cons [of ?n 256] by simp
  have bits: "bit (w XOR push_bit ?n 1) i \<longleftrightarrow> bit w i \<and> i \<noteq> ?n" for i
    unfolding flip_lowest [OF assms] by (auto simp: bit_unset_bit_iff)
  have "filter (bit w) [Suc ?n..<256] = filter (bit (w XOR push_bit ?n 1)) [Suc ?n..<256]"
    by (intro filter_cong) (auto simp: bits simp del: push_bit_of_1)
  moreover have "filter (bit w) [0..<?n] = []" "filter (bit (w XOR push_bit ?n 1)) [0..<?n] = []"
    using low(2) by (auto simp: filter_empty_conv bits simp del: push_bit_of_1)
  ultimately show ?thesis
    unfolding split using low(1) by (simp add: bits del: push_bit_of_1)
qed

section \<open>The listing of a bitmap\<close>

text \<open>\<open>while (bucket != 0)\<close> for bucket \<open>i\<close>, writing to position \<open>j\<close> of the result on.\<close>

function collect_bucket ::
    "'es set_lib \<Rightarrow> 'es \<Rightarrow> nat \<Rightarrow> u256 \<Rightarrow> nat \<Rightarrow> address list \<Rightarrow> (nat \<times> address list) evm" where
  "collect_bucket S all i bucket j out =
     (if bucket = 0 then Done (j, out)
      else
        let zeroes = ctz bucket in
        if i * 256 + zeroes < esLength S all \<and> j < length out then
          collect_bucket S all i (bucket XOR push_bit zeroes 1) (j + 1) (out[j := esValue S all (i * 256 + zeroes)])
        else Revert OutOfBounds)"
  by pat_completeness auto
termination
  by (relation "measure (\<lambda>(_, _, _, bucket, _, _). unat bucket)") (simp_all add: flip_lowest_less del: push_bit_of_1)

declare collect_bucket.simps [simp del]

fun collect_buckets ::
    "'es set_lib \<Rightarrow> 'es \<Rightarrow> (nat \<Rightarrow> u256) \<Rightarrow> nat list \<Rightarrow> nat \<Rightarrow> address list \<Rightarrow> (nat \<times> address list) evm" where
  "collect_buckets S all bitmap [] j out = Done (j, out)"
| "collect_buckets S all bitmap (i # is) j out =
     evm_bind (collect_bucket S all i (bitmap i) j out) (\<lambda>(j, out). collect_buckets S all bitmap is j out)"

definition extractActiveValidators :: "'es set_lib \<Rightarrow> 'es validator_history \<Rightarrow> u64 \<Rightarrow> address list evm" where
  "extractActiveValidators S h atEpoch =
     (let validatorsLength = esLength S (allValidators h);
          totalBuckets = validatorsLength div 256 + 1 in
      if validatorsLength < 2 ^ 64 then
        evm_bind (collect_buckets S (allValidators h) (activeValidators h atEpoch) [0..<totalBuckets] 0
                    (replicate validatorsLength zero_address)) (\<lambda>(j, out).
        Done (take j out))
      else Revert BadAllocation)"

definition getActiveValidators :: "'es set_lib \<Rightarrow> 'es relay_hub \<Rightarrow> nat \<Rightarrow> address list evm" where
  "getActiveValidators S hub chainId =
     (let h = validatorHistories hub chainId in extractActiveValidators S h (latestKnownEpoch h))"

section \<open>Histories as sets\<close>

text \<open>The laws of the sets, one by one.\<close>

lemma set_lawsD:
  assumes "set_laws S elems"
  shows "elems (esEmpty S) = []" and "elems (esAdd S a s) = (if a \<in> set (elems s) then elems s else elems s @ [a])"
    and "esLength S s = length (elems s)" and "a \<notin> set (elems s) \<Longrightarrow> esIndex S s a = 0"
    and "distinct (elems s) \<Longrightarrow> i < length (elems s) \<Longrightarrow> esIndex S s (elems s ! i) = Suc i"
    and "distinct (elems s) \<Longrightarrow> i < length (elems s) \<Longrightarrow> esValue S s i = elems s ! i"
    and "bmGet S d i \<longleftrightarrow> bit (d (i div 256)) (i mod 256)"
  using assms by (auto simp: set_laws_def)

definition in_bitmap :: "(nat \<Rightarrow> u256) \<Rightarrow> nat \<Rightarrow> bool" where
  "in_bitmap d k \<longleftrightarrow> bit (d (k div 256)) (k mod 256)"

text \<open>The active validators of an epoch, in the order of the listing, and what holds of every history: no
  address is listed twice, and a bitmap has no bits beyond the list.\<close>

definition active_list :: "('es \<Rightarrow> address list) \<Rightarrow> 'es validator_history \<Rightarrow> u64 \<Rightarrow> address list" where
  "active_list elems h e = map ((!) (elems (allValidators h)))
     (filter (in_bitmap (activeValidators h e)) [0..<length (elems (allValidators h))])"

abbreviation active_set :: "('es \<Rightarrow> address list) \<Rightarrow> 'es validator_history \<Rightarrow> u64 \<Rightarrow> address set" where
  "active_set elems h e \<equiv> set (active_list elems h e)"

definition history_inv :: "('es \<Rightarrow> address list) \<Rightarrow> 'es validator_history \<Rightarrow> bool" where
  "history_inv elems h \<longleftrightarrow> distinct (elems (allValidators h))
     \<and> (\<forall>e k. in_bitmap (activeValidators h e) k \<longrightarrow> k < length (elems (allValidators h)))"

lemma active_set_iff:
  "a \<in> active_set elems h e \<longleftrightarrow>
     (\<exists>k < length (elems (allValidators h)). in_bitmap (activeValidators h e) k \<and> elems (allValidators h) ! k = a)"
  by (auto simp: active_list_def)

lemma active_list_distinct: "history_inv elems h \<Longrightarrow> distinct (active_list elems h e)"
  by (auto simp: active_list_def history_inv_def distinct_map inj_on_def nth_eq_iff_index_eq)

lemma collect_bucket_eq:
  assumes "set_laws S elems" and "distinct (elems all)" and "\<And>z. bit bucket z \<Longrightarrow> i * 256 + z < length (elems all)"
    and "j + length (filter (bit bucket) [0..<256]) \<le> length out"
  shows "collect_bucket S all i bucket j out =
     (let L = map (\<lambda>z. elems all ! (i * 256 + z)) (filter (bit bucket) [0..<256]) in
      Done (j + length L, take j out @ L @ drop (j + length L) out))"
  using assms
proof (induction S all i bucket j out rule: collect_bucket.induct)
  case (1 S all i bucket j out)
  show ?case
  proof (cases "bucket = 0")
    case False
    let ?z = "ctz bucket" and ?b = "bucket XOR push_bit (ctz bucket) 1"
    note low = ctz_lowest(1) [OF False] and bits = bits_lowest_first [OF False]
    note laws = set_lawsD [OF "1.prems"(1)]
    have k: "i * 256 + ?z < length (elems all)" "j < length out"
      using "1.prems"(3) [OF low] "1.prems"(4) bits by simp_all
    have b: "\<And>z. bit ?b z \<Longrightarrow> bit bucket z"
      unfolding flip_lowest [OF False] by (simp add: bit_unset_bit_iff)
    have "collect_bucket S all i bucket j out =
        collect_bucket S all i ?b (j + 1) (out[j := elems all ! (i * 256 + ?z)])"
      using False k laws(3,6) "1.prems"(2) by (subst collect_bucket.simps) (simp add: Let_def)
    also have "\<dots> = (let L = map (\<lambda>z. elems all ! (i * 256 + z)) (filter (bit ?b) [0..<256]) in
        Done (j + 1 + length L, take (j + 1) (out[j := elems all ! (i * 256 + ?z)]) @ L
           @ drop (j + 1 + length L) (out[j := elems all ! (i * 256 + ?z)])))"
      using "1.IH" [OF False refl _ "1.prems"(1,2)] "1.prems"(3,4) b k laws(3,6) "1.prems"(2) bits by (auto simp: Let_def)
    also have "\<dots> = (let L = map (\<lambda>z. elems all ! (i * 256 + z)) (filter (bit bucket) [0..<256]) in
        Done (j + length L, take j out @ L @ drop (j + length L) out))"
      using k by (simp add: bits Let_def take_Suc_conv_app_nth del: push_bit_of_1)
    finally show ?thesis .
  qed (simp add: collect_bucket.simps)
qed

lemma collect_buckets_eq:
  assumes "set_laws S elems" and "distinct (elems all)" and "\<And>k. in_bitmap d k \<Longrightarrow> k < length (elems all)"
    and "L = concat (map (\<lambda>i. map (\<lambda>z. i * 256 + z) (filter (bit (d i)) [0..<256])) is)" and "j + length L \<le> length out"
  shows "collect_buckets S all d is j out =
     Done (j + length L, take j out @ map ((!) (elems all)) L @ drop (j + length L) out)"
  using assms(4,5)
proof (induction "is" arbitrary: j out L)
  case (Cons i "is")
  let ?l = "filter (bit (d i)) [0..<256]"
  let ?R = "concat (map (\<lambda>i. map (\<lambda>z. i * 256 + z) (filter (bit (d i)) [0..<256])) is)"
  let ?f = "map (\<lambda>z. elems all ! (i * 256 + z)) ?l"
  have bound: "i * 256 + z < length (elems all)" if "bit (d i) z" for z
  proof -
    have "z < 256"
      using bit_imp_le_length [OF that] by simp
    then show ?thesis
      using assms(3) [of "i * 256 + z"] that by (simp add: in_bitmap_def)
  qed
  have len: "j + length ?l + length ?R \<le> length out"
    using Cons.prems by simp
  have "collect_bucket S all i (d i) j out = Done (j + length ?l, take j out @ ?f @ drop (j + length ?l) out)"
    using collect_bucket_eq [OF assms(1,2) bound, where j = j and out = out] len by (simp add: Let_def)
  moreover have "collect_buckets S all d is (j + length ?l) (take j out @ ?f @ drop (j + length ?l) out) =
      Done (j + length ?l + length ?R, (take j out @ ?f) @ map ((!) (elems all)) ?R @ drop (j + length ?l + length ?R) out)"
    using Cons.IH [OF refl, of "j + length ?l" "take j out @ ?f @ drop (j + length ?l) out"] len
    by (simp add: ac_simps min_absorb2)
  ultimately show ?case
    using Cons.prems(1) by (simp add: add.assoc comp_def)
qed simp

lemma concat_buckets:
  "concat (map (\<lambda>i. map (\<lambda>z. i * 256 + z) (filter (bit (d i)) [0..<256])) [0..<n]) = filter (in_bitmap d) [0..<256 * n]"
proof (induction n)
  case (Suc n)
  have "[n * 256..<n * 256 + 256] = map (\<lambda>z. n * 256 + z) [0..<256]"
    using map_add_upt [of "n * 256" 256] by (simp add: add.commute)
  moreover have "filter (in_bitmap d) (map (\<lambda>z. n * 256 + z) [0..<256]) = map (\<lambda>z. n * 256 + z) (filter (bit (d n)) [0..<256])"
    unfolding filter_map by (intro arg_cong [where f = "map _"] filter_cong) (auto simp: in_bitmap_def)
  moreover have "[0..<256 * Suc n] = [0..<256 * n] @ [n * 256..<n * 256 + 256]"
    using upt_add_eq_append [of 0 "256 * n" 256] by (simp add: add.commute mult.commute)
  ultimately show ?case
    using Suc.IH by simp
qed simp

lemma extractActiveValidators_eq:
  assumes "set_laws S elems" and "history_inv elems h" and "length (elems (allValidators h)) < 2 ^ 64"
  shows "extractActiveValidators S h e = Done (active_list elems h e)"
proof -
  let ?n = "length (elems (allValidators h))" and ?d = "activeValidators h e"
  let ?t = "?n div 256 + 1"
  have inv: "distinct (elems (allValidators h))" "\<And>k. in_bitmap ?d k \<Longrightarrow> k < ?n"
    using assms(2) by (auto simp: history_inv_def)
  have "?n \<le> 256 * ?t"
    by simp
  then have "filter (in_bitmap ?d) [0..<256 * ?t] = filter (in_bitmap ?d) ([0..<?n] @ [?n..<256 * ?t])"
    using upt_add_eq_append [of 0 ?n "256 * ?t - ?n"] by simp
  also have "\<dots> = filter (in_bitmap ?d) [0..<?n]"
    by (auto simp: filter_empty_conv dest: inv(2))
  finally have L: "filter (in_bitmap ?d) [0..<?n] =
      concat (map (\<lambda>i. map (\<lambda>z. i * 256 + z) (filter (bit (?d i)) [0..<256])) [0..<?t])"
    by (simp only: concat_buckets)
  have "length (filter (in_bitmap ?d) [0..<?n]) \<le> ?n"
    using length_filter_le [of "in_bitmap ?d" "[0..<?n]"] by simp
  then show ?thesis
    using collect_buckets_eq [OF assms(1) inv L, of 0 "replicate ?n zero_address"] set_lawsD(3) [OF assms(1)] assms(3)
    by (simp add: extractActiveValidators_def active_list_def Let_def)
qed

section \<open>Storing a validator set\<close>

text \<open>The list of all validators after the new ones are added.\<close>

fun add_all :: "address list \<Rightarrow> address list \<Rightarrow> address list" where
  "add_all xs [] = xs"
| "add_all xs (a # as) = add_all (if a \<in> set xs then xs else xs @ [a]) as"

lemma set_add_all: "set (add_all xs as) = set xs \<union> set as"
  by (induction xs as rule: add_all.induct) auto

lemma distinct_add_all: "distinct xs \<Longrightarrow> distinct (add_all xs as)"
  by (induction xs as rule: add_all.induct) auto

lemma add_all_prefix: "\<exists>ys. add_all xs as = xs @ ys"
  by (induction xs as rule: add_all.induct) (auto split: if_splits)

lemma add_all_nth: "i < length xs \<Longrightarrow> add_all xs as ! i = xs ! i"
  using add_all_prefix [of xs as] by (auto simp: nth_append)

lemma length_add_all: "length xs \<le> length (add_all xs as)"
  using add_all_prefix [of xs as] by auto

text \<open>The bits of buckets in memory.\<close>

definition in_buckets :: "u256 list \<Rightarrow> nat \<Rightarrow> bool" where
  "in_buckets bs k \<longleftrightarrow> k < 256 * length bs \<and> bit (bs ! (k div 256)) (k mod 256)"

lemma in_buckets_update:
  assumes "n div 256 < length bs"
  shows "in_buckets (bs[n div 256 := bs ! (n div 256) OR push_bit (n mod 256) 1]) k \<longleftrightarrow> in_buckets bs k \<or> k = n"
proof -
  have n: "n < 256 * length bs"
    using assms by (simp add: div_less_iff_less_mult mult.commute)
  have "bit (push_bit (n mod 256) (1 :: u256)) (k mod 256) \<longleftrightarrow> k mod 256 = n mod 256"
    by (auto simp: bit_simps)
  moreover have "k = n \<longleftrightarrow> k div 256 = n div 256 \<and> k mod 256 = n mod 256"
    by (metis div_mult_mod_eq)
  ultimately show ?thesis
    using assms n by (cases "k div 256 = n div 256") (auto simp: in_buckets_def nth_list_update bit_or_iff)
qed

lemma mark_validators_eq:
  assumes "set_laws S elems" and "distinct (elems all)" and "set (elems all) \<subseteq> set X" and "distinct X"
    and "add_all (elems all) vs = X"
  shows "if \<forall>k<length X. X ! k \<in> set vs \<longrightarrow> k < 256 * length bs
    then \<exists>all' bs'. mark_validators S vs all bs = Done (all', bs') \<and> elems all' = X \<and> length bs' = length bs
           \<and> (\<forall>k. in_buckets bs' k \<longleftrightarrow> in_buckets bs k \<or> (k < length X \<and> X ! k \<in> set vs))
    else mark_validators S vs all bs = Revert OutOfBounds"
  using assms
proof (induction vs arbitrary: all bs)
  case (Cons v vs)
  note laws = set_lawsD [OF Cons.prems(1)]
  let ?all = "esAdd S v all"
  have all: "elems ?all = (if v \<in> set (elems all) then elems all else elems all @ [v])"
    by (rule laws(2))
  have X: "add_all (elems ?all) vs = X"
    using Cons.prems(5) by (simp add: all)
  have d: "distinct (elems ?all)"
    using Cons.prems(2) by (simp add: all)
  obtain n where n: "n < length (elems ?all)" "elems ?all ! n = v"
    by (metis all in_set_conv_nth append_is_Nil_conv in_set_conv_decomp)
  then have index: "esIndex S ?all v = Suc n"
    using laws(5) [OF d n(1)] by simp
  have Xn: "n < length X" "X ! n = v"
    using n X length_add_all [of "elems ?all" vs] add_all_nth [of n "elems ?all" vs] by auto
  have uniq: "X ! k = v \<longleftrightarrow> k = n" if "k < length X" for k
    using that Xn Cons.prems(4) nth_eq_iff_index_eq by metis
  have sub: "set (elems ?all) \<subseteq> set X"
    using X set_add_all by blast
  show ?case
  proof (cases "n < 256 * length bs")
    case False
    then have "\<not> n div 256 < length bs"
      by (simp add: div_less_iff_less_mult mult.commute)
    then show ?thesis
      using False Xn index by (auto simp: Let_def usub_def)
  next
    case True
    then have n': "n div 256 < length bs"
      by (simp add: div_less_iff_less_mult mult.commute)
    let ?bs = "bs[n div 256 := bs ! (n div 256) OR push_bit (n mod 256) 1]"
    have step: "mark_validators S (v # vs) all bs = mark_validators S vs ?all ?bs"
      using n' index by (simp add: Let_def usub_def)
    have "(\<forall>k<length X. X ! k \<in> set (v # vs) \<longrightarrow> k < 256 * length bs) \<longleftrightarrow> (\<forall>k<length X. X ! k \<in> set vs \<longrightarrow> k < 256 * length ?bs)"
      using True uniq by auto
    moreover have "in_buckets ?bs k \<longleftrightarrow> in_buckets bs k \<or> k = n" for k
      by (rule in_buckets_update [OF n'])
    moreover have "k = n \<or> (k < length X \<and> X ! k \<in> set vs) \<longleftrightarrow> k < length X \<and> X ! k \<in> set (v # vs)" for k
      using uniq [of k] Xn by auto
    ultimately show ?thesis
      unfolding step using Cons.IH [OF Cons.prems(1) d sub Cons.prems(4) X, of ?bs]
      by (simp only: length_list_update disj_assoc)
  qed
qed auto

lemma copy_buckets_eq: "copy_buckets bs d i = (if i < length bs then bs ! i else d i)"
proof -
  have "fold (\<lambda>i d. d(i := f i)) [0..<n] d i = (if i < n then f i else d i)" for f :: "nat \<Rightarrow> u256" and n
    by (induction n) auto
  then show ?thesis
    by (simp add: copy_buckets_def)
qed

lemma in_bitmap_copy:
  "in_bitmap (copy_buckets bs d) k \<longleftrightarrow> (if k < 256 * length bs then in_buckets bs k else in_bitmap d k)"
  by (auto simp: in_bitmap_def in_buckets_def copy_buckets_eq div_less_iff_less_mult mult.commute)

text \<open>Room for the bitmap in memory is taken for the validators that are known before the update.\<close>

definition room :: "address list \<Rightarrow> nat" where
  "room xs = 256 * (length xs div 256 + 1)"

definition successor_epoch :: "'es validator_history \<Rightarrow> u64 \<Rightarrow> bool" where
  "successor_epoch h e \<longleftrightarrow> latestKnownEpoch h = 0 \<or> e = 0 \<or> (unat (latestKnownEpoch h) + 1 < 2 ^ 64 \<and> e = latestKnownEpoch h + 1)"

lemma length_le_room: "length xs \<le> room xs"
  by (simp add: room_def)

lemma add_all_room:
  assumes "distinct xs"
  shows "(\<forall>k<length (add_all xs vs). add_all xs vs ! k \<in> set vs \<longrightarrow> k < room xs) \<longleftrightarrow> length (add_all xs vs) \<le> room xs"
proof
  assume *: "\<forall>k<length (add_all xs vs). add_all xs vs ! k \<in> set vs \<longrightarrow> k < room xs"
  let ?X = "add_all xs vs"
  show "length ?X \<le> room xs"
  proof (rule ccontr)
    assume "\<not> length ?X \<le> room xs"
    then have k: "room xs < length ?X"
      by simp
    have "?X ! room xs \<notin> set xs"
    proof
      assume "?X ! room xs \<in> set xs"
      then obtain i where i: "i < length xs" "?X ! i = ?X ! room xs"
        by (metis add_all_nth in_set_conv_nth)
      then have "i = room xs"
        using k distinct_add_all [OF assms, of vs] length_add_all [of xs vs] nth_eq_iff_index_eq by fastforce
      then show False
        using i(1) length_le_room [of xs] by simp
    qed
    then have "?X ! room xs \<in> set vs"
      using k set_add_all [of xs vs] nth_mem by blast
    with * k show False
      by blast
  qed
qed simp

lemma updateActiveValidatorSet_eq:
  assumes laws: "set_laws S elems" and inv: "history_inv elems h" and "successor_epoch h e"
  shows "let X = add_all (elems (allValidators h)) vs in
    if length X \<le> room (elems (allValidators h))
    then \<exists>h'. updateActiveValidatorSet S h vs e = Done h' \<and> history_inv elems h' \<and> active_set elems h' e = set vs
           \<and> (\<forall>e'. e' \<noteq> e \<longrightarrow> active_list elems h' e' = active_list elems h e')
           \<and> validatorCount h' = (validatorCount h)(e := word_of_nat (length vs)) \<and> latestKnownEpoch h' = e
           \<and> elems (allValidators h') = X \<and> epochCheckpoints h' = epochCheckpoints h
    else updateActiveValidatorSet S h vs e = Revert OutOfBounds"
proof -
  let ?xs = "elems (allValidators h)"
  let ?X = "add_all ?xs vs" and ?zeros = "replicate (length ?xs div 256 + 1) (0 :: u256)"
  have d: "distinct ?xs" and bits: "\<And>e k. in_bitmap (activeValidators h e) k \<Longrightarrow> k < length ?xs"
    using inv by (auto simp: history_inv_def)
  have "evm_bind (if latestKnownEpoch h > 0 \<and> e > 0 then
                 evm_bind (add64 (latestKnownEpoch h) 1) (\<lambda>successor. require (e = successor) ''bad epoch'')
               else Done ()) f = f ()" for f :: "unit \<Rightarrow> 'x evm"
    using assms(3) by (auto simp: successor_epoch_def add64_def word_gt_0)
  then have update: "updateActiveValidatorSet S h vs e =
      evm_bind (mark_validators S vs (allValidators h) ?zeros) (\<lambda>(all, buckets).
      Done (h\<lparr>allValidators := all,
             activeValidators := (activeValidators h)(e := copy_buckets buckets (activeValidators h e)),
             validatorCount := (validatorCount h)(e := word_of_nat (length vs)), latestKnownEpoch := e\<rparr>))"
    by (simp only: updateActiveValidatorSet_def set_lawsD(3) [OF laws] Let_def)
  have cap: "256 * length ?zeros = room ?xs"
    by (simp add: room_def)
  have zeros: "\<not> in_buckets ?zeros k" for k
    by (auto simp: in_buckets_def simp del: replicate.simps)
  note mark = mark_validators_eq [OF laws d _ distinct_add_all [OF d] refl, of vs ?zeros, unfolded cap add_all_room [OF d]]
  show ?thesis
  proof (cases "length ?X \<le> room ?xs")
    case False
    then show ?thesis
      using mark set_add_all update by (simp add: Let_def)
  next
    case True
    then obtain all' bs' where m: "mark_validators S vs (allValidators h) ?zeros = Done (all', bs')" "elems all' = ?X"
      "length bs' = length ?zeros" "\<forall>k. in_buckets bs' k \<longleftrightarrow> k < length ?X \<and> ?X ! k \<in> set vs"
      using mark zeros set_add_all by auto
    let ?h' = "h\<lparr>allValidators := all',
             activeValidators := (activeValidators h)(e := copy_buckets bs' (activeValidators h e)),
             validatorCount := (validatorCount h)(e := word_of_nat (length vs)), latestKnownEpoch := e\<rparr>"
    have len: "length ?xs \<le> length ?X" "length ?xs \<le> room ?xs" "256 * length bs' = room ?xs"
      using length_add_all length_le_room m(3) cap by simp_all
    have new: "in_bitmap (copy_buckets bs' (activeValidators h e)) k \<longleftrightarrow> k < length ?X \<and> ?X ! k \<in> set vs" for k
    proof (cases "k < room ?xs")
      case True
      then show ?thesis
        using m(4) by (simp add: in_bitmap_copy len(3))
    next
      case False
      then have "\<not> in_bitmap (activeValidators h e) k" "\<not> k < length ?X"
        using bits [of e k] len(2) True by linarith+
      then show ?thesis
        using False by (simp add: in_bitmap_copy len(3))
    qed
    have "history_inv elems ?h'"
    proof -
      have "k < length ?X" if "in_bitmap (activeValidators ?h' e') k" for e' k
        using that new [of k] bits [of e' k] len(1) by (cases "e' = e") auto
      then show ?thesis
        using distinct_add_all [OF d] m(2) by (simp add: history_inv_def)
    qed
    moreover have "active_set elems ?h' e = set vs"
    proof -
      have "a \<in> active_set elems ?h' e \<longleftrightarrow> a \<in> set ?X \<and> a \<in> set vs" for a
      proof -
        have "a \<in> active_set elems ?h' e \<longleftrightarrow> (\<exists>k<length ?X. (k < length ?X \<and> ?X ! k \<in> set vs) \<and> ?X ! k = a)"
          unfolding active_set_iff using new m(2) by simp
        also have "\<dots> \<longleftrightarrow> a \<in> set ?X \<and> a \<in> set vs"
          by (metis in_set_conv_nth)
        finally show ?thesis .
      qed
      then show ?thesis
        using set_add_all [of ?xs vs] by blast
    qed
    moreover have "active_list elems ?h' e' = active_list elems h e'" if "e' \<noteq> e" for e'
    proof -
      let ?P = "in_bitmap (activeValidators h e')"
      have "filter ?P [0..<length ?X] = filter ?P ([0..<length ?xs] @ [length ?xs..<length ?X])"
        using upt_add_eq_append [of 0 "length ?xs" "length ?X - length ?xs"] len(1) by simp
      also have "\<dots> = filter ?P [0..<length ?xs]"
        by (auto simp: filter_empty_conv dest: bits)
      finally show ?thesis
        using that m(2) by (auto simp: active_list_def add_all_nth)
    qed
    ultimately show ?thesis
      using True m(1,2) update by (auto simp: Let_def)
  qed
qed

section \<open>The quorum\<close>

text \<open>The indices of the given validators that are active, and the mark of those that were seen.\<close>

definition indices :: "('es \<Rightarrow> address list) \<Rightarrow> 'es validator_history \<Rightarrow> u64 \<Rightarrow> address set \<Rightarrow> nat set" where
  "indices elems h e as = {k. k < length (elems (allValidators h)) \<and> in_bitmap (activeValidators h e) k \<and> elems (allValidators h) ! k \<in> as}"

lemma card_indices:
  assumes "history_inv elems h"
  shows "card (indices elems h e as) = card (as \<inter> active_set elems h e)"
proof -
  have "(!) (elems (allValidators h)) ` indices elems h e as = as \<inter> active_set elems h e"
    by (auto simp: indices_def active_set_iff)
  moreover have "inj_on ((!) (elems (allValidators h))) (indices elems h e as)"
    using assms by (auto simp: inj_on_def indices_def history_inv_def nth_eq_iff_index_eq)
  ultimately show ?thesis
    by (metis card_image)
qed

lemma finite_indices: "finite (indices elems h e as)"
  by (rule finite_subset [of _ "{..<length (elems (allValidators h))}"]) (auto simp: indices_def)

lemma quorum_loop_eq:
  assumes "set_laws S elems" and "history_inv elems h"
    and "\<forall>k. in_buckets marked k \<longleftrightarrow> k \<in> M" and "finite M" and "u = card M"
  shows "quorum_loop S h (activeValidators h e) vs u marked =
    (if \<forall>k\<in>indices elems h e (set vs). k < 256 * length marked
     then Done (card (M \<union> indices elems h e (set vs))) else Revert OutOfBounds)"
  using assms(3-5)
proof (induction vs arbitrary: u marked M)
  case Nil
  then show ?case by (simp add: indices_def)
next
  case (Cons v vs)
  note laws = set_lawsD [OF assms(1)]
  let ?xs = "elems (allValidators h)" and ?d = "activeValidators h e"
  let ?I = "indices elems h e (set vs)"
  have d: "distinct ?xs"
    using assms(2) by (simp add: history_inv_def)
  show ?case
  proof (cases "\<exists>k<length ?xs. ?xs ! k = v \<and> in_bitmap ?d k")
    case False
    have "esIndex S (allValidators h) v = 0 \<or> \<not> bmGet S ?d (esIndex S (allValidators h) v - 1)"
    proof (cases "v \<in> set ?xs")
      case True
      then obtain k where "k < length ?xs" "?xs ! k = v"
        by (auto simp: in_set_conv_nth)
      then show ?thesis
        using False laws(5) [OF d] laws(7) by (auto simp: in_bitmap_def)
    qed (simp add: laws(4))
    moreover have "indices elems h e (set (v # vs)) = ?I"
      using False by (auto simp: indices_def)
    ultimately show ?thesis
      using Cons.IH [OF Cons.prems] by (simp add: Let_def)
  next
    case True
    then obtain k where k: "k < length ?xs" "?xs ! k = v" "in_bitmap ?d k"
      by blast
    have index: "esIndex S (allValidators h) v = Suc k"
      using laws(5) [OF d k(1)] k(2) by simp
    have I: "indices elems h e (set (v # vs)) = insert k ?I"
      using k d by (auto simp: indices_def nth_eq_iff_index_eq)
    show ?thesis
    proof (cases "k < 256 * length marked")
      case False
      then have "\<not> k div 256 < length marked"
        by (simp add: div_less_iff_less_mult mult.commute)
      then show ?thesis
        using False I index k(3) by (simp add: Let_def laws(7) in_bitmap_def)
    next
      case True
      then have k': "k div 256 < length marked"
        by (simp add: div_less_iff_less_mult mult.commute)
      let ?m = "marked ! (k div 256)"
      let ?marked = "marked[k div 256 := ?m OR push_bit (k mod 256) 1]"
      let ?u = "if ?m AND push_bit (k mod 256) 1 = 0 then u + 1 else u"
      have "?m AND push_bit (k mod 256) 1 = 0 \<longleftrightarrow> \<not> bit ?m (k mod 256)"
      proof
        assume "?m AND push_bit (k mod 256) 1 = 0"
        then have "\<not> bit (?m AND push_bit (k mod 256) 1) (k mod 256)"
          by (metis bit_0_eq bot_apply bot_bool_def)
        then show "\<not> bit ?m (k mod 256)"
          by (simp add: bit_simps)
      qed (intro bit_word_eqI, auto simp: bit_simps)
      then have "?u = card (insert k M)"
        using Cons.prems True k' by (auto simp: in_buckets_def card_insert_if)
      moreover have "\<forall>j. in_buckets ?marked j \<longleftrightarrow> j \<in> insert k M"
        using in_buckets_update [OF k'] Cons.prems(1) by blast
      ultimately have "quorum_loop S h ?d vs ?u ?marked =
          (if \<forall>k\<in>?I. k < 256 * length ?marked then Done (card (insert k M \<union> ?I)) else Revert OutOfBounds)"
        using Cons.IH [of ?marked "insert k M" ?u] Cons.prems(2) by blast
      then show ?thesis
        using True I index k(3) k' by (simp add: Let_def laws(7) in_bitmap_def)
    qed
  qed
qed

lemma checkValidatorsAndQuorumReached_eq:
  assumes "set_laws S elems" and "history_inv elems (validatorHistories hub chainId)"
  defines "h \<equiv> validatorHistories hub chainId"
  shows "checkValidatorsAndQuorumReached S hub chainId vs e =
    (if \<forall>k\<in>indices elems h e (set vs). k < 256 * ((unat (validatorCount h e) + 255) div 256)
     then Done (unat (validatorCount h e) * 2 div 3 \<le> card (set vs \<inter> active_set elems h e))
     else Revert OutOfBounds)"
proof -
  have "\<forall>k. in_buckets (replicate n 0) k \<longleftrightarrow> k \<in> {}" for n
    by (auto simp: in_buckets_def)
  note loop = quorum_loop_eq [OF assms(1,2), where M = "{}" and u = 0, OF this [of "(unat (validatorCount h e) + 255) div 256"]]
  show ?thesis
    unfolding checkValidatorsAndQuorumReached_def Let_def
    using loop [of e vs] card_indices [OF assms(2)]
    by (simp add: h_def)
qed

end
