(* ===== verification/SealedBlocks.thy ===== *)
theory SealedBlocks
  imports ParliaVerifier
begin

text \<open>
  What the Parlia verifier (\<open>contracts/verifiers/PoSaBlockVerifier.sol\<close>, \<open>ParliaBlockVerifier.sol\<close>) has
  established when it accepts a list of block proofs, for arbitrary submitted bytes: nothing is assumed of
  their seals, sealers or parent hashes.
\<close>

section \<open>One block\<close>

text \<open>The seal as the contract gives it to \<open>ECDSA.recover\<close>: the recovery id is 27 or 28.\<close>

definition contract_seal :: "bytes \<Rightarrow> bytes" where
  "contract_seal s = s[64 := (if s ! 64 = 1 then 28 else 27)]"

text \<open>A submitted block that was checked: the fields are those that are read where it lies in the calldata, the hash
  is that of its bytes, and the coinbase that it declares has signed the signing data that are read there. A block of number
  zero is not sealed and counts as the zero address.\<close>

definition checked_block :: "evm_lib \<Rightarrow> bytes \<Rightarrow> nat \<Rightarrow> nat \<times> nat \<Rightarrow> bytes \<Rightarrow> sol_header \<Rightarrow> bool" where
  "checked_block E cd chainId place blockProof block \<longleftrightarrow> (\<exists>w signingData.
     walk_header cd place = Done w \<and> signing_data cd (fst place) chainId w = Done signingData
     \<and> block = (hwHeader w)\<lparr>shCoinbase := shCoinbase block, shBlockHash := evKeccak256 E blockProof\<rparr>
     \<and> (if shBlockNumber block = 0 then shCoinbase block = zero_address
        else shCoinbase block = hwCoinbase w
          \<and> evRecover E (evKeccak256 E signingData) (contract_seal (cd_slice cd (evm_sub (hwAfterExtra w) 65) 65)) = Done (hwCoinbase w)))"

lemma walk_header_coinbase: "walk_header cd raw = Done w \<Longrightarrow> shCoinbase (hwHeader w) = zero_address"
  by (auto simp: walk_header_def evm_inv Let_def new_sol_header_def)

lemma parse_checked:
  assumes "parseAndVerifyPoSaBlockHeader E cd chainId place epochLength = Done (block, vs)"
    and "lies cd (fst place) blockProof" and "snd place = length blockProof"
  shows "checked_block E cd chainId place blockProof block"
    and "shBlockNumber block mod epochLength = 0 \<Longrightarrow> evm_bind (walk_header cd place) (epoch_validators cd) = Done vs"
proof -
  obtain w d b where *: "walk_header cd place = Done w" "signing_data cd (fst place) chainId w = Done d"
    "recover_sealer E cd d w = Done b" "epochLength \<noteq> 0"
    "(if shBlockNumber b mod epochLength = 0 then epoch_validators cd w else Done []) = Done vs"
    "block = b\<lparr>shBlockHash := evKeccak256 E (cd_slice cd (fst place) (snd place))\<rparr>"
    using assms(1) by (auto simp: parseAndVerifyPoSaBlockHeader_def evm_inv mod64_def split: if_splits del: mod_0_imp_dvd)
  then show "shBlockNumber block mod epochLength = 0 \<Longrightarrow> evm_bind (walk_header cd place) (epoch_validators cd) = Done vs"
    by simp
  have hash: "shBlockHash block = evKeccak256 E blockProof"
    using *(6) lies_slice [OF assms(2)] assms(3) by simp
  let ?seal = "cd_slice cd (evm_sub (hwAfterExtra w) 65) 65"
  have coinbase: "if shBlockNumber (hwHeader w) = 0 then b = hwHeader w
      else b = (hwHeader w)\<lparr>shCoinbase := hwCoinbase w\<rparr> \<and> evRecover E (evKeccak256 E d) (contract_seal ?seal) = Done (hwCoinbase w)"
    using *(3) by (auto simp: recover_sealer_def contract_seal_def Let_def evm_inv get_byte_def set_byte_def)
  then have "shBlockNumber block = shBlockNumber (hwHeader w)"
    "block = (hwHeader w)\<lparr>shCoinbase := shCoinbase block, shBlockHash := evKeccak256 E blockProof\<rparr>"
    using *(6) hash by (auto split: if_splits)
  then show "checked_block E cd chainId place blockProof block"
    using * coinbase walk_header_coinbase [OF *(1)] unfolding checked_block_def
    by (intro exI [of _ w] exI [of _ d]) (auto split: if_splits)
qed

text \<open>For the encoding of a header this means its fields, and a seal of the header less the seal.\<close>

definition seal_recovers :: "evm_lib \<Rightarrow> nat \<Rightarrow> header \<Rightarrow> bool" where
  "seal_recovers E chainId h \<longleftrightarrow>
     evRecover E (evKeccak256 E (rlp_of (sealed_payloads h chainId))) (contract_seal (seal_of h)) = Done (hdrCoinbase h)"

lemma checked_block_header:
  assumes "checked_block E cd chainId (off, length (header_rlp h)) (header_rlp h) block"
    and "wf_header h" and "header_at cd off h" and "chainId < 2 ^ 64"
  shows "block = sol_header_of E h \<and> (hdrNumber h \<noteq> 0 \<longrightarrow> seal_recovers E chainId h)"
proof -
  have number: "(word_of_int (hdrNumber h) :: u64) = 0 \<longleftrightarrow> hdrNumber h = 0"
    using assms(2) by (simp add: wf_header_def word_uint_eq_iff uint_word_of_int take_bit_int_eq_self)
  let ?w = "walk_of h off"
  have walk: "walk_header cd (off, length (header_rlp h)) = Done ?w" "signing_data cd off chainId ?w = Done (rlp_of (sealed_payloads h chainId))"
    "cd_slice cd (evm_sub (hwAfterExtra ?w) 65) 65 = seal_of h"
    using walk_header_eq [OF assms(2,3)] signing_data_eq [OF assms(2-4)] seal_lies(1) [OF assms(2,3)] .
  have block: "block = (hwHeader ?w)\<lparr>shCoinbase := shCoinbase block, shBlockHash := evKeccak256 E (header_rlp h)\<rparr>"
    and seal: "if shBlockNumber block = 0 then shCoinbase block = zero_address
     else shCoinbase block = hwCoinbase ?w \<and> evRecover E (evKeccak256 E (rlp_of (sealed_payloads h chainId)))
       (contract_seal (seal_of h)) = Done (hwCoinbase ?w)"
    using assms(1) unfolding checked_block_def by (auto simp: walk)
  have "shBlockNumber block = shBlockNumber (hwHeader ?w)"
    by (subst block) simp
  then have "shBlockNumber block = word_of_int (hdrNumber h)"
    by (simp add: walk_of_def)
  then have "shCoinbase block = (if hdrNumber h = 0 then zero_address else hdrCoinbase h)"
    "hdrNumber h \<noteq> 0 \<Longrightarrow> seal_recovers E chainId h"
    using seal number by (auto simp: seal_recovers_def walk_of_def split: if_splits)
  then show ?thesis
    by (subst block) (simp add: walk_of_def sol_header_of_def new_sol_header_def)
qed

section \<open>A list of blocks\<close>

definition checked_blocks :: "evm_lib \<Rightarrow> nat \<Rightarrow> bytes list \<Rightarrow> sol_header list \<Rightarrow> bool" where
  "checked_blocks E chainId blockProofs blocks \<longleftrightarrow> length blocks = length blockProofs
     \<and> (\<forall>i<length blockProofs. checked_block E (fst (evCalldata E blockProofs)) chainId
          (slices E blockProofs ! i) (blockProofs ! i) (blocks ! i))
     \<and> successively (\<lambda>parent block. shParentHash block = shBlockHash parent) blocks"

definition reads_headers :: "evm_lib \<Rightarrow> nat \<Rightarrow> bytes list \<Rightarrow> sol_header list \<Rightarrow> bool" where
  "reads_headers E chainId blockProofs blocks \<longleftrightarrow> (\<forall>i<length blockProofs. \<forall>h.
     wf_header h \<and> blockProofs ! i = header_rlp h \<and> chainId < 2 ^ 64 \<longrightarrow>
       blocks ! i = sol_header_of E h \<and> (hdrNumber h \<noteq> 0 \<longrightarrow> seal_recovers E chainId h))"

text \<open>The addresses that the first block lists.\<close>

definition first_validators :: "evm_lib \<Rightarrow> bytes list \<Rightarrow> address list evm" where
  "first_validators E blockProofs =
     (let cd = fst (evCalldata E blockProofs) in evm_bind (walk_header cd (hd (slices E blockProofs))) (epoch_validators cd))"

lemma slices_lie:
  assumes "calldata_laws E" and "length (concat blockProofs) < 2 ^ 60"
  shows "length (slices E blockProofs) = length blockProofs"
    and "i < length blockProofs \<Longrightarrow> lies (fst (evCalldata E blockProofs)) (fst (slices E blockProofs ! i)) (blockProofs ! i)"
    and "i < length blockProofs \<Longrightarrow> snd (slices E blockProofs ! i) = length (blockProofs ! i)"
    and "i < length blockProofs \<Longrightarrow> fst (slices E blockProofs ! i) < 2 ^ 64"
  using assms unfolding calldata_laws_def by (simp_all add: slices_def)

lemma checked_blocks_headers:
  assumes "calldata_laws E" and "length (concat blockProofs) < 2 ^ 60" and "checked_blocks E chainId blockProofs blocks"
  shows "reads_headers E chainId blockProofs blocks"
  unfolding reads_headers_def
proof (intro allI impI)
  fix i h assume i: "i < length blockProofs"
    and h: "wf_header h \<and> blockProofs ! i = header_rlp h \<and> chainId < 2 ^ 64"
  let ?off = "fst (slices E blockProofs ! i)"
  note lie = slices_lie [OF assms(1,2)]
  have "slices E blockProofs ! i = (?off, length (header_rlp h))"
    using lie(3) [OF i] h by (metis prod.collapse)
  then have "checked_block E (fst (evCalldata E blockProofs)) chainId (?off, length (header_rlp h)) (header_rlp h) (blocks ! i)"
    using assms(3) i h unfolding checked_blocks_def by metis
  moreover have "header_at (fst (evCalldata E blockProofs)) ?off h"
    using lie(2,4) [OF i] h by (simp add: header_at_def)
  ultimately show "blocks ! i = sol_header_of E h \<and> (hdrNumber h \<noteq> 0 \<longrightarrow> seal_recovers E chainId h)"
    using checked_block_header h by blast
qed

text \<open>The loop: the rounds after the first, then all of them.\<close>

lemma blocks_loop_later:
  "blocks_loop E cd chainId epochLength i bs s = Done s' \<Longrightarrow> 0 < i \<Longrightarrow> length (vsBlockValidators s) = i + length bs \<Longrightarrow>
   \<exists>rs. map (\<lambda>b. parseAndVerifyPoSaBlockHeader E cd chainId b epochLength) bs = map Done rs
     \<and> vsFirstBlock s' = vsFirstBlock s \<and> vsNewValidatorSet s' = vsNewValidatorSet s
     \<and> vsBlockValidators s' = take i (vsBlockValidators s) @ map (shCoinbase \<circ> fst) rs
     \<and> (rs \<noteq> [] \<longrightarrow> shParentHash (fst (hd rs)) = vsParentHash s)
     \<and> successively (\<lambda>parent block. shParentHash block = shBlockHash parent) (map fst rs)"
proof (induction bs arbitrary: i s)
  case Nil
  then show ?case by (intro exI [of _ "[]"]) simp
next
  case (Cons b bs)
  obtain block vs where b: "parseAndVerifyPoSaBlockHeader E cd chainId b epochLength = Done (block, vs)"
    and parent: "shParentHash block = vsParentHash s"
    using Cons.prems by (auto simp: evm_inv Let_def)
  let ?s = "s\<lparr>vsBlockValidators := (vsBlockValidators s)[i := shCoinbase block], vsParentHash := shBlockHash block\<rparr>"
  have "blocks_loop E cd chainId epochLength (i + 1) bs ?s = Done s'"
    using Cons.prems b parent by (simp add: Let_def)
  from Cons.IH [OF this] Cons.prems(3) obtain rs where rs:
    "map (\<lambda>b. parseAndVerifyPoSaBlockHeader E cd chainId b epochLength) bs = map Done rs"
    "vsFirstBlock s' = vsFirstBlock s" "vsNewValidatorSet s' = vsNewValidatorSet s"
    "vsBlockValidators s' = take (Suc i) ((vsBlockValidators s)[i := shCoinbase block]) @ map (shCoinbase \<circ> fst) rs"
    "rs \<noteq> [] \<longrightarrow> shParentHash (fst (hd rs)) = shBlockHash block"
    "successively (\<lambda>parent block. shParentHash block = shBlockHash parent) (map fst rs)"
    by auto
  have "take (Suc i) ((vsBlockValidators s)[i := shCoinbase block]) = take i (vsBlockValidators s) @ [shCoinbase block]"
    using Cons.prems(3) by (simp add: take_Suc_conv_app_nth)
  then show ?case
    using b rs parent by (intro exI [of _ "(block, vs) # rs"]) (cases rs; simp)
qed

lemma blocks_loop_all:
  assumes "blocks_loop E cd chainId epochLength 0 (b # bs) s = Done s'" and "length (vsBlockValidators s) = length (b # bs)"
  shows "\<exists>r rs. map (\<lambda>b. parseAndVerifyPoSaBlockHeader E cd chainId b epochLength) (b # bs) = map Done (r # rs)
     \<and> vsFirstBlock s' = fst r \<and> vsNewValidatorSet s' = snd r
     \<and> vsBlockValidators s' = map (shCoinbase \<circ> fst) (r # rs)
     \<and> successively (\<lambda>parent block. shParentHash block = shBlockHash parent) (map fst (r # rs))"
proof -
  obtain block vs where b: "parseAndVerifyPoSaBlockHeader E cd chainId b epochLength = Done (block, vs)"
    using assms(1) by (auto simp: evm_inv)
  let ?s = "s\<lparr>vsBlockValidators := (vsBlockValidators s)[0 := shCoinbase block], vsFirstBlock := block,
     vsNewValidatorSet := vs, vsParentHash := shBlockHash block\<rparr>"
  have "blocks_loop E cd chainId epochLength 1 bs ?s = Done s'"
    using assms(1) b by (simp add: Let_def)
  from blocks_loop_later [OF this] assms(2) obtain rs where rs:
    "map (\<lambda>b. parseAndVerifyPoSaBlockHeader E cd chainId b epochLength) bs = map Done rs"
    "vsFirstBlock s' = block" "vsNewValidatorSet s' = vs"
    "vsBlockValidators s' = take 1 ((vsBlockValidators s)[0 := shCoinbase block]) @ map (shCoinbase \<circ> fst) rs"
    "rs \<noteq> [] \<longrightarrow> shParentHash (fst (hd rs)) = shBlockHash block"
    "successively (\<lambda>parent block. shParentHash block = shBlockHash parent) (map fst rs)"
    by auto
  have "take 1 ((vsBlockValidators s)[0 := shCoinbase block]) = [shCoinbase block]"
    using assms(2) by (cases "vsBlockValidators s") simp_all
  then show ?thesis
    using b rs by (intro exI [of _ "(block, vs)"] exI [of _ rs]) (cases rs; simp)
qed

text \<open>All that the verifier has established about the proofs that it passes on to the quorum check.\<close>

lemma verifyBlocks_checked:
  assumes "calldata_laws E" and "length (concat blockProofs) < 2 ^ 60"
    and "verifyBlocksAndReachedQuorum E chainId blockProofs epochLength checker = Done (first, vs)"
  obtains blocks where "checked_blocks E chainId blockProofs blocks" and "epochLength \<noteq> 0"
    and "first = (case blocks of [] \<Rightarrow> new_sol_header | block # _ \<Rightarrow> block)"
    and "blocks \<noteq> [] \<Longrightarrow> shBlockNumber first mod epochLength = 0 \<Longrightarrow> first_validators E blockProofs = Done vs"
    and "0 < shBlockNumber first div epochLength \<Longrightarrow>
           checker chainId (map shCoinbase blocks) (shBlockNumber first div epochLength - 1) = Done True"
proof -
  let ?cd = "fst (evCalldata E blockProofs)"
  let ?s = "\<lparr>vsFirstBlock = new_sol_header, vsNewValidatorSet = [], vsParentHash = replicate 32 0,
      vsBlockValidators = replicate (length blockProofs) zero_address\<rparr>"
  note lie = slices_lie [OF assms(1,2)]
  obtain s where s: "blocks_loop E ?cd chainId epochLength 0 (slices E blockProofs) ?s = Done s" "first = vsFirstBlock s"
    "vs = vsNewValidatorSet s" "epochLength \<noteq> 0"
    and quorum: "0 < shBlockNumber first div epochLength \<Longrightarrow>
       checker chainId (vsBlockValidators s) (shBlockNumber first div epochLength - 1) = Done True"
    using assms(3) by (auto simp: verifyBlocksAndReachedQuorum_def evm_inv Let_def split: if_splits)
  show ?thesis
  proof (cases "slices E blockProofs")
    case Nil
    then have "blockProofs = []"
      using lie(1) by simp
    moreover have "?s = s"
      using s(1) Nil by simp
    then have "vsFirstBlock s = new_sol_header" "vsBlockValidators s = replicate (length blockProofs) zero_address"
      by auto
    ultimately show ?thesis
      using s(2,4) quorum by (intro that [of "[]"]) (simp_all add: checked_blocks_def)
  next
    case (Cons b bs)
    have start: "length (vsBlockValidators ?s) = length (b # bs)"
      using lie(1) Cons by simp
    obtain r rs where rs: "map (\<lambda>b. parseAndVerifyPoSaBlockHeader E ?cd chainId b epochLength) (slices E blockProofs) = map Done (r # rs)"
      "first = fst r" "vs = snd r" "vsBlockValidators s = map (shCoinbase \<circ> fst) (r # rs)"
      "successively (\<lambda>parent block. shParentHash block = shBlockHash parent) (map fst (r # rs))"
      using blocks_loop_all [OF s(1) [unfolded Cons] start] unfolding Cons s(2,3) by metis
    have len: "length (r # rs) = length blockProofs"
      using arg_cong [OF rs(1), of length] lie(1) by simp
    have parse: "parseAndVerifyPoSaBlockHeader E ?cd chainId (slices E blockProofs ! i) epochLength = Done ((r # rs) ! i)"
      if "i < length blockProofs" for i
      using arg_cong [OF rs(1), of "\<lambda>xs. xs ! i"] that len lie(1) by (simp only: nth_map)
    have "checked_blocks E chainId blockProofs (map fst (r # rs))"
      unfolding checked_blocks_def
    proof (intro conjI allI impI rs(5))
      show "length (map fst (r # rs)) = length blockProofs"
        using len by simp
      fix i assume i: "i < length blockProofs"
      show "checked_block E ?cd chainId (slices E blockProofs ! i) (blockProofs ! i) (map fst (r # rs) ! i)"
        using parse_checked(1) [of E ?cd chainId "slices E blockProofs ! i" epochLength "fst ((r # rs) ! i)" "snd ((r # rs) ! i)"]
          parse [OF i] lie(2,3) [OF i] i len by (simp only: prod.collapse nth_map)
    qed
    moreover have "first_validators E blockProofs = Done vs" if "shBlockNumber first mod epochLength = 0"
    proof -
      have "0 < length blockProofs" "slices E blockProofs ! 0 = hd (slices E blockProofs)"
        using len Cons by auto
      then show ?thesis
        using parse_checked(2) [of E ?cd chainId "hd (slices E blockProofs)" epochLength "fst r" "snd r"] parse [of 0]
          lie(2,3) [of 0] that rs(2,3) by (simp add: first_validators_def Let_def)
    qed
    ultimately show ?thesis
      using s(4) rs(2,4) quorum by (intro that [of "map fst (r # rs)"]) (simp_all add: comp_def)
  qed
qed

section \<open>A transition\<close>

text \<open>What the verifier promises the hub about a transition to the epoch \<open>e\<close> with the new validators \<open>vs\<close>.\<close>

definition parlia_vouched ::
    "evm_lib \<Rightarrow> nat \<Rightarrow> bytes list \<Rightarrow> u32 \<Rightarrow> address list \<Rightarrow> address list \<Rightarrow> u64 \<Rightarrow> bool" where
  "parlia_vouched E chainId blockProofs epochLength signers vs e \<longleftrightarrow>
     (calldata_laws E \<and> length (concat blockProofs) < 2 ^ 60 \<longrightarrow>
        (\<exists>blocks. checked_blocks E chainId blockProofs blocks \<and> blocks \<noteq> [] \<and> signers = map shCoinbase blocks
           \<and> unat (shBlockNumber (hd blocks)) = unat e * unat epochLength)
        \<and> first_validators E blockProofs = Done vs)"

lemma unat_ucast_64 [simp]: "unat (ucast (w :: u32) :: u64) = unat w"
  by transfer (simp add: take_bit_take_bit)

lemma verifyValidatorTransition_vouched:
  assumes "verifyValidatorTransition E chainId blockProofs epochLength checker = Done (vs, e)" and "0 < e"
  shows "\<exists>signers. parlia_vouched E chainId blockProofs epochLength signers vs e \<and> checker chainId signers (e - 1) = Done True"
proof -
  obtain first where first: "verifyBlocksAndReachedQuorum E chainId blockProofs (ucast epochLength) checker = Done (first, vs)"
    "shBlockNumber first mod ucast epochLength = 0" "e = shBlockNumber first div ucast epochLength"
    using assms(1) by (auto simp: verifyValidatorTransition_def evm_inv del: mod_0_imp_dvd)
  show ?thesis
  proof (cases "calldata_laws E \<and> length (concat blockProofs) < 2 ^ 60")
    case True
    then obtain blocks where blocks: "checked_blocks E chainId blockProofs blocks"
      "first = (case blocks of [] \<Rightarrow> new_sol_header | block # _ \<Rightarrow> block)"
      "blocks \<noteq> [] \<Longrightarrow> shBlockNumber first mod ucast epochLength = 0 \<Longrightarrow> first_validators E blockProofs = Done vs"
      "0 < shBlockNumber first div ucast epochLength \<Longrightarrow>
         checker chainId (map shCoinbase blocks) (shBlockNumber first div ucast epochLength - 1) = Done True"
      using verifyBlocks_checked [OF _ _ first(1)] by blast
    have nonempty: "blocks \<noteq> []"
      using blocks(2) first(3) assms(2) by (auto simp: new_sol_header_def)
    have "unat (shBlockNumber first) = unat (shBlockNumber first) div unat epochLength * unat epochLength + unat (shBlockNumber first) mod unat epochLength"
      by simp
    also have "\<dots> = unat e * unat epochLength"
      using first(2,3) by (metis add.right_neutral unat_div unat_mod unat_ucast_64 unsigned_0)
    finally show ?thesis
      using blocks first nonempty assms(2) unfolding parlia_vouched_def
      by (intro exI [of _ "map shCoinbase blocks"]) (cases blocks; auto)
  next
    case False
    have "\<exists>signers. checker chainId signers (e - 1) = Done True"
      using first(1,3) assms(2) by (auto simp: verifyBlocksAndReachedQuorum_def evm_inv Let_def split: if_splits)
    then show ?thesis
      using False unfolding parlia_vouched_def by blast
  qed
qed

end
