(* ===== verification/HubSafety.thy ===== *)
theory HubSafety
  imports HubValidators SealedBlocks
begin

text \<open>
  The hub contract as a state machine: every reachable hub keeps the bitmaps of all chains consistent, so
  that its views describe the sets that were stored; what a successful transition guarantees, through the
  contract between hub and verifier (locale \<open>transition_verifier\<close>); and the ways around the quorum.
\<close>

section \<open>Reachable hubs\<close>

definition new_history :: "'es set_lib \<Rightarrow> 'es validator_history" where
  "new_history S = \<lparr>allValidators = esEmpty S, activeValidators = (\<lambda>_ _. 0), validatorCount = (\<lambda>_. 0),
     epochCheckpoints = (\<lambda>_. replicate 32 0), latestKnownEpoch = 0\<rparr>"

definition new_bas :: bas where
  "new_bas = \<lparr>chainStatus = NotFound, chainType = BSC, verificationFunction = zero_address,
     bridgeAddress = zero_address, basEpochLength = 0\<rparr>"

text \<open>The constructor.\<close>

definition new_relay_hub :: "'es set_lib \<Rightarrow> address \<Rightarrow> address \<Rightarrow> 'es relay_hub" where
  "new_relay_hub S verifier stakingAddress = \<lparr>defaultVerificationFunction = verifier, stakingContract = stakingAddress,
     validatorHistories = (\<lambda>_. new_history S), registeredChains = (\<lambda>_. new_bas), emitted = []\<rparr>"

text \<open>A transaction: one of the external functions that change the state, called by anyone with any
  arguments.\<close>

inductive hub_step :: "'es hub_env \<Rightarrow> 'es relay_hub \<Rightarrow> 'es relay_hub \<Rightarrow> bool" for env where
  certified: "registerCertifiedBAS env chainId raw bridge epochLength hub = Done hub' \<Longrightarrow> hub_step env hub hub'"
| checkpoint: "registerUsingCheckpoint env chainId raw checkpointHash bridge epochLength hub = Done hub' \<Longrightarrow> hub_step env hub hub'"
| bas: "registerBAS env chainId f raw bridge epochLength hub = Done hub' \<Longrightarrow> hub_step env hub hub'"
| bsc: "registerBSC env chainId raw bridge epochLength hub = Done hub' \<Longrightarrow> hub_step env hub hub'"
| update: "updateValidatorSet env chainId blockProofs hub = Done hub' \<Longrightarrow> hub_step env hub hub'"
| epochs: "updateValidatorSetUsingEpochBlocks env chainId cd offset n hub = Done hub' \<Longrightarrow> hub_step env hub hub'"
| transition: "checkpointTransition env chainId raw checkpointHash signatures hub = Done hub' \<Longrightarrow> hub_step env hub hub'"

inductive_cases hub_stepE: "hub_step env hub hub'"

text \<open>What a stored validator set leaves behind, for every result of the update.\<close>

lemma update_history_inv:
  assumes "set_laws S elems" and "history_inv elems h" and "updateActiveValidatorSet S h vs e = Done h'"
  shows "history_inv elems h'" and "successor_epoch h e"
    and "active_set elems h' e = set vs" and "latestKnownEpoch h' = e"
    and "validatorCount h' = (validatorCount h)(e := word_of_nat (length vs))"
    and "e' \<noteq> e \<Longrightarrow> active_list elems h' e' = active_list elems h e'"
proof -
  show succ: "successor_epoch h e"
    using assms(3) by (auto simp: updateActiveValidatorSet_def evm_inv successor_epoch_def word_gt_0 split: if_splits)
  note eq = updateActiveValidatorSet_eq [OF assms(1,2) succ, of vs, unfolded Let_def]
  show "history_inv elems h'" "active_set elems h' e = set vs" "latestKnownEpoch h' = e"
    "validatorCount h' = (validatorCount h)(e := word_of_nat (length vs))"
    "e' \<noteq> e \<Longrightarrow> active_list elems h' e' = active_list elems h e'"
    using eq assms(3) by (auto split: if_splits)
qed

definition hub_inv :: "('es \<Rightarrow> address list) \<Rightarrow> 'es relay_hub \<Rightarrow> bool" where
  "hub_inv elems hub \<longleftrightarrow> (\<forall>chainId. history_inv elems (validatorHistories hub chainId))"

lemma new_relay_hub_inv: "set_laws S elems \<Longrightarrow> hub_inv elems (new_relay_hub S v st)"
  by (simp add: hub_inv_def new_relay_hub_def new_history_def history_inv_def in_bitmap_def set_lawsD(1))

lemma hub_inv_upd: "hub_inv elems hub \<Longrightarrow> history_inv elems h \<Longrightarrow>
    hub_inv elems (hub\<lparr>validatorHistories := (validatorHistories hub)(chainId := h)\<rparr>)"
  by (simp add: hub_inv_def)

lemma hub_inv_histories: "validatorHistories hub' = (validatorHistories hub)(chainId := h) \<Longrightarrow> hub_inv elems hub \<Longrightarrow>
    history_inv elems h \<Longrightarrow> hub_inv elems hub'"
  by (simp add: hub_inv_def)

lemma register_inv:
  assumes "set_laws (envSets env) elems" and "hub_inv elems hub"
    and "registerChainWithVerificationFunction env chainId f raw checkpointHash status ctype bridge epochLength hub = Done hub'"
  shows "hub_inv elems hub'"
proof -
  obtain vs e h where h: "updateActiveValidatorSet (envSets env) (validatorHistories hub chainId) vs e = Done h"
    "validatorHistories hub' = (validatorHistories hub)(chainId := h)"
    using assms(3) by (auto simp: registerChainWithVerificationFunction_def evm_inv Let_def)
  then show ?thesis
    using update_history_inv(1) [OF assms(1) _ h(1)] assms(2) hub_inv_histories hub_inv_def by metis
qed

lemma updateValidatorSet_Done:
  assumes "updateValidatorSet env chainId blockProofs hub = Done hub'"
  obtains vs e h where
    "bvValidatorTransition (verifier_of env hub (verificationFunction (registeredChains hub chainId))) chainId blockProofs
       (basEpochLength (registeredChains hub chainId)) (checkValidatorsAndQuorumReached (envSets env) hub) = Done (vs, e)"
    and "updateActiveValidatorSet (envSets env) (validatorHistories hub chainId) vs e = Done h"
    and "validatorHistories hub' = (validatorHistories hub)(chainId := h)"
    and "chainStatus (registeredChains hub chainId) \<noteq> NotFound"
  using assms by (auto simp: updateValidatorSet_def active_chain_def evm_inv Let_def)

lemma epoch_blocks_inv:
  "epoch_blocks_loop E pvf chainId el cd offset ptr i n snapshot off sz h = Done (off', sz', h') \<Longrightarrow>
     history_inv elems h \<Longrightarrow> history_inv elems h'"
proof (induction E pvf chainId el cd offset ptr i n snapshot off sz h rule: epoch_blocks_loop.induct)
  case (2 E pvf chainId el cd offset ptr i n snapshot off sz h)
  show ?case
    using "2.prems" "2.IH" by (fastforce simp: evm_inv Let_def history_inv_def split: if_splits)
qed (simp add: history_inv_def)

lemma hub_step_inv:
  assumes "set_laws (envSets env) elems" and "hub_inv elems hub" and "hub_step env hub hub'"
  shows "hub_inv elems hub'"
  using assms(3)
proof cases
  case (update chainId proofs)
  then show ?thesis
    by (metis updateValidatorSet_Done update_history_inv(1) [OF assms(1)] assms(2) hub_inv_histories hub_inv_def)
next
  case (epochs chainId cd offset n)
  then obtain off sz h h' vs e where h: "epoch_blocks_loop (envEvm env) (verifier_of env hub (verificationFunction (registeredChains hub chainId)))
        chainId (basEpochLength (registeredChains hub chainId)) cd offset offset 0 n (replicate 32 0) 0 0 (validatorHistories hub chainId) = Done (off, sz, h)"
    "updateActiveValidatorSet (envSets env) h vs e = Done h'" "validatorHistories hub' = (validatorHistories hub)(chainId := h')"
    by (auto simp: updateValidatorSetUsingEpochBlocks_def evm_inv Let_def)
  then have "history_inv elems h"
    using epoch_blocks_inv assms(2) hub_inv_def by metis
  then show ?thesis
    using update_history_inv(1) [OF assms(1) _ h(2)] h(3) assms(2) hub_inv_histories by metis
next
  case (transition chainId raw checkpointHash signatures)
  then obtain h vs e where h: "updateActiveValidatorSet (envSets env) (validatorHistories hub chainId) vs e = Done h"
    "validatorHistories hub' = (validatorHistories hub)(chainId := h\<lparr>epochCheckpoints := (epochCheckpoints h)(e := checkpointHash)\<rparr>)"
    by (auto simp: checkpointTransition_def evm_inv Let_def)
  then have "history_inv elems h"
    using update_history_inv(1) [OF assms(1) _ h(1)] assms(2) hub_inv_def by metis
  then show ?thesis
    using h(2) assms(2) by (intro hub_inv_histories [OF h(2)]) (simp_all add: history_inv_def)
qed (use register_inv [OF assms(1,2)] in \<open>auto simp: registerCertifiedBAS_def registerUsingCheckpoint_def registerBAS_def registerBSC_def\<close>)

interpretation hub: invariant_system "\<lambda>hub. set_laws (envSets env) elems \<and> (\<exists>v st. hub = new_relay_hub (envSets env) v st)"
  "hub_step env" "\<lambda>hub. set_laws (envSets env) elems \<and> hub_inv elems hub" for env :: "'es hub_env" and elems
  by unfold_locales (auto intro: new_relay_hub_inv hub_step_inv)

section \<open>What the hub relies on\<close>

text \<open>The promise of a verifier to the hub: a transition to an epoch after the first has passed the check
  of the hub, for the epoch before, with the sealers of the blocks; \<open>vouched\<close> relates the proofs to these
  sealers, the new validators and the new epoch.\<close>

locale transition_verifier =
  fixes verify :: "nat \<Rightarrow> bytes list \<Rightarrow> u32 \<Rightarrow> validator_checker \<Rightarrow> (address list \<times> u64) evm"
    and vouched :: "nat \<Rightarrow> bytes list \<Rightarrow> u32 \<Rightarrow> address list \<Rightarrow> address list \<Rightarrow> u64 \<Rightarrow> bool"
  assumes checked: "verify chainId blockProofs epochLength checker = Done (vs, e) \<Longrightarrow> 0 < e \<Longrightarrow>
     \<exists>signers. vouched chainId blockProofs epochLength signers vs e \<and> checker chainId signers (e - 1) = Done True"
begin

lemma update_checked:
  assumes "set_laws (envSets env) elems" and "hub_inv elems hub"
    and "bvValidatorTransition (verifier_of env hub (verificationFunction (registeredChains hub chainId))) = verify"
    and "updateValidatorSet env chainId blockProofs hub = Done hub'"
    and "0 < getLatestTransitionedEpoch hub' chainId"
  shows "\<exists>signers vs. vouched chainId blockProofs (basEpochLength (registeredChains hub chainId)) signers vs (getLatestTransitionedEpoch hub' chainId)
     \<and> active_set elems (validatorHistories hub' chainId) (getLatestTransitionedEpoch hub' chainId) = set vs
     \<and> unat (validatorCount (validatorHistories hub chainId) (getLatestTransitionedEpoch hub' chainId - 1)) * 2 div 3
         \<le> card (set signers \<inter> active_set elems (validatorHistories hub chainId) (getLatestTransitionedEpoch hub' chainId - 1))"
    and "getLatestTransitionedEpoch hub chainId \<noteq> 0 \<Longrightarrow>
       unat (getLatestTransitionedEpoch hub' chainId) = unat (getLatestTransitionedEpoch hub chainId) + 1"
    and "e' \<noteq> getLatestTransitionedEpoch hub' chainId \<Longrightarrow>
       active_list elems (validatorHistories hub' chainId) e' = active_list elems (validatorHistories hub chainId) e'"
proof -
  let ?h = "validatorHistories hub chainId"
  have inv: "history_inv elems ?h"
    using assms(2) by (simp add: hub_inv_def)
  obtain vs e h where step: "verify chainId blockProofs (basEpochLength (registeredChains hub chainId))
       (checkValidatorsAndQuorumReached (envSets env) hub) = Done (vs, e)"
    "updateActiveValidatorSet (envSets env) ?h vs e = Done h" "validatorHistories hub' = (validatorHistories hub)(chainId := h)"
    using updateValidatorSet_Done [OF assms(4)] assms(3) by metis
  note upd = update_history_inv [OF assms(1) inv step(2)]
  have e: "getLatestTransitionedEpoch hub' chainId = e"
    using upd(4) step(3) by (simp add: getLatestTransitionedEpoch_def)
  obtain signers where "vouched chainId blockProofs (basEpochLength (registeredChains hub chainId)) signers vs e"
    "checkValidatorsAndQuorumReached (envSets env) hub chainId signers (e - 1) = Done True"
    using checked [OF step(1)] assms(5) e by auto
  then show "\<exists>signers vs. vouched chainId blockProofs (basEpochLength (registeredChains hub chainId)) signers vs (getLatestTransitionedEpoch hub' chainId)
     \<and> active_set elems (validatorHistories hub' chainId) (getLatestTransitionedEpoch hub' chainId) = set vs
     \<and> unat (validatorCount ?h (getLatestTransitionedEpoch hub' chainId - 1)) * 2 div 3
         \<le> card (set signers \<inter> active_set elems ?h (getLatestTransitionedEpoch hub' chainId - 1))"
    using checkValidatorsAndQuorumReached_eq [OF assms(1) inv] e upd(3) step(3)
    by (intro exI [of _ signers] exI [of _ vs]) (auto split: if_splits)
  show "unat (getLatestTransitionedEpoch hub' chainId) = unat (getLatestTransitionedEpoch hub chainId) + 1"
    if "getLatestTransitionedEpoch hub chainId \<noteq> 0"
    using upd(2) that assms(5) e by (auto simp: successor_epoch_def getLatestTransitionedEpoch_def unat_word_ariths)
  show "active_list elems (validatorHistories hub' chainId) e' = active_list elems ?h e'"
    if "e' \<noteq> getLatestTransitionedEpoch hub' chainId"
    using upd(6) that e step(3) by simp
qed

end

section \<open>The Parlia verifier keeps the promise\<close>

interpretation parlia: transition_verifier "verifyValidatorTransition E" "parlia_vouched E" for E
  by unfold_locales (rule verifyValidatorTransition_vouched)

section \<open>Accepted transitions\<close>

text \<open>The verifier on encoded headers, for the empty list and for a list that starts with an epoch block.\<close>

lemma ucast_64_eq_0 [simp]: "(ucast (w :: u32) :: u64) = 0 \<longleftrightarrow> w = 0"
  by (simp add: unat_eq_zero [symmetric])

lemma verifyValidatorTransition_Nil:
  "epochLength \<noteq> 0 \<Longrightarrow> verifyValidatorTransition E chainId [] epochLength checker = Done ([], 0)"
  by (simp add: verifyValidatorTransition_def verifyBlocksAndReachedQuorum_def slices_def new_sol_header_def div64_def mod64_def Let_def)

lemma verifyValidatorTransition_headers:
  assumes "chain_laws C pub L E low_s" and "chainId < 2 ^ 64" and "epochLength \<noteq> 0"
    and "good_headers C L low_s chainId (ucast epochLength) (h # hs)" and "linked E (h # hs)" and "length (h # hs) < 2 ^ 40"
    and "epoch_header (ucast epochLength) h" and "e = word_of_int (hdrNumber h) div ucast epochLength"
    and "0 < e \<Longrightarrow> checker chainId (map hdrCoinbase (h # hs)) (e - 1) = Done True"
  shows "verifyValidatorTransition E chainId (map header_rlp (h # hs)) epochLength checker = Done (listed_validators h, e)"
proof -
  have "verifyBlocksAndReachedQuorum E chainId (map header_rlp (h # hs)) (ucast epochLength) checker =
      Done (sol_header_of E h, listed_validators h)"
    using verify_blocks_eq [OF assms(1,2) _ assms(4-6), of checker] assms(3,7-9) by (simp add: Let_def)
  then show ?thesis
    using assms(3,7,8) unfolding verifyValidatorTransition_def
    by (simp add: sol_header_of_def mod64_def div64_def epoch_header_def)
qed

text \<open>What the hub stores for a transition that the verifier accepts.\<close>

lemma updateValidatorSet_stores:
  assumes laws: "set_laws (envSets env) elems" and inv: "hub_inv elems hub"
    and "chainStatus (registeredChains hub chainId) \<noteq> NotFound"
    and "bvValidatorTransition (verifier_of env hub (verificationFunction (registeredChains hub chainId))) chainId blockProofs
       (basEpochLength (registeredChains hub chainId)) (checkValidatorsAndQuorumReached (envSets env) hub) = Done (vs, e)"
    and "successor_epoch (validatorHistories hub chainId) e"
    and "length (add_all (elems (allValidators (validatorHistories hub chainId))) vs) \<le> room (elems (allValidators (validatorHistories hub chainId)))"
  obtains hub' where "updateValidatorSet env chainId blockProofs hub = Done hub'"
    and "hub_inv elems hub'" and "getLatestTransitionedEpoch hub' chainId = e"
    and "active_set elems (validatorHistories hub' chainId) e = set vs"
    and "\<And>e'. e' \<noteq> e \<Longrightarrow> active_list elems (validatorHistories hub' chainId) e' = active_list elems (validatorHistories hub chainId) e'"
    and "validatorCount (validatorHistories hub' chainId) = (validatorCount (validatorHistories hub chainId))(e := word_of_nat (length vs))"
    and "elems (allValidators (validatorHistories hub' chainId)) = add_all (elems (allValidators (validatorHistories hub chainId))) vs"
    and "registeredChains hub' = (registeredChains hub)(chainId := (registeredChains hub chainId)\<lparr>chainStatus := Active\<rparr>)"
    and "defaultVerificationFunction hub' = defaultVerificationFunction hub"
proof -
  have "history_inv elems (validatorHistories hub chainId)"
    using inv by (simp add: hub_inv_def)
  from updateActiveValidatorSet_eq [OF laws this assms(5), of vs] assms(6)
  obtain h where h: "updateActiveValidatorSet (envSets env) (validatorHistories hub chainId) vs e = Done h" "history_inv elems h"
    "active_set elems h e = set vs" "\<And>e'. e' \<noteq> e \<Longrightarrow> active_list elems h e' = active_list elems (validatorHistories hub chainId) e'"
    "validatorCount h = (validatorCount (validatorHistories hub chainId))(e := word_of_nat (length vs))" "latestKnownEpoch h = e"
    "elems (allValidators h) = add_all (elems (allValidators (validatorHistories hub chainId))) vs"
    by (auto simp: Let_def)
  let ?b = "registeredChains hub chainId"
  let ?hub = "hub\<lparr>validatorHistories := (validatorHistories hub)(chainId := h),
      registeredChains := (registeredChains hub)(chainId := ?b\<lparr>chainStatus := Active\<rparr>),
      emitted := emitted hub @ [LogValidatorSetUpdated chainId vs]\<rparr>"
  have "active_chain ?b = Done ()"
    using assms(3) by (cases "chainStatus ?b") (simp_all add: active_chain_def)
  then have "updateValidatorSet env chainId blockProofs hub = Done ?hub"
    using assms(4) h(1) by (simp add: updateValidatorSet_def Let_def)
  moreover have "hub_inv elems ?hub"
    using inv h(2) by (simp add: hub_inv_def)
  ultimately show ?thesis
    using h(3-7) by (intro that [of ?hub]) (simp_all add: getLatestTransitionedEpoch_def)
qed

section \<open>Sample contracts\<close>

text \<open>A set as the list of its values, the Parlia verifier at every address, and a hub with one chain in its
  fifth epoch whose validators are not known.\<close>

definition sample_sets :: "address list set_lib" where
  "sample_sets = \<lparr>esEmpty = [], esAdd = (\<lambda>a s. if a \<in> set s then s else s @ [a]), esLength = length,
     esIndex = (\<lambda>s a. if a \<in> set s then Suc (length (takeWhile (\<lambda>x. x \<noteq> a) s)) else 0), esValue = (!),
     bmGet = (\<lambda>d i. bit (d (i div 256)) (i mod 256))\<rparr>"

lemma sample_sets_laws: "set_laws sample_sets id"
proof -
  have "takeWhile (\<lambda>x. x \<noteq> s ! i) s = take i s" if "distinct s" "i < length s" for s :: "address list" and i
    by (rule takeWhile_eq_take_P_nth) (use that in \<open>auto simp: nth_eq_iff_index_eq\<close>)
  then show ?thesis
    by (auto simp: set_laws_def sample_sets_def)
qed

definition parlia_verifier :: "evm_lib \<Rightarrow> (bytes \<Rightarrow> hash \<Rightarrow> bytes \<Rightarrow> bytes \<Rightarrow> bool evm) \<Rightarrow> block_verifier" where
  "parlia_verifier E receiptProof = \<lparr>bvBlockWithoutQuorum = verifyBlockWithoutQuorum E,
     bvValidatorTransition = verifyValidatorTransition E, bvBlockAndReachedQuorum = verifyBlockAndReachedQuorum E,
     bvReceiptProof = receiptProof\<rparr>"

definition sample_env :: "address list hub_env" where
  "sample_env = \<lparr>envEvm = sample_evm, envSets = sample_sets,
     envVerifier = (\<lambda>_. parlia_verifier sample_evm (\<lambda>_ _ _ _. Done True)),
     envStaking = (\<lambda>_. \<lparr>stIsValidatorActive = (\<lambda>a. Done (a = sample_address 1)), stGetValidators = Done (map sample_address [1, 2, 3])\<rparr>)\<rparr>"

definition sample_hub :: "address list relay_hub" where
  "sample_hub = (new_relay_hub sample_sets zero_address zero_address)
     \<lparr>validatorHistories := (\<lambda>_. (new_history sample_sets)\<lparr>latestKnownEpoch := 5\<rparr>),
      registeredChains := (\<lambda>_. new_bas\<lparr>chainStatus := Active, basEpochLength := 200\<rparr>)\<rparr>"

lemma sample_env_simps [simp]:
  "envSets sample_env = sample_sets" "envEvm sample_env = sample_evm"
  "verifier_of sample_env hub f = parlia_verifier sample_evm (\<lambda>_ _ _ _. Done True)"
  by (simp_all add: sample_env_def verifier_of_def)

lemma parlia_verifier_simps [simp]:
  "bvValidatorTransition (parlia_verifier E r) = verifyValidatorTransition E"
  "bvBlockWithoutQuorum (parlia_verifier E r) = verifyBlockWithoutQuorum E"
  by (simp_all add: parlia_verifier_def)

lemma sample_hub_inv: "hub_inv id sample_hub"
  by (simp add: hub_inv_def sample_hub_def new_history_def history_inv_def in_bitmap_def sample_sets_def)

section \<open>Properties\<close>

text \<open>
  Property C22. The views of the hub are safe. In every state that transactions can reach, for every chain,
  the listing of the active validators returns, without a revert, exactly the addresses whose bits are set
  in the bitmap of the latest epoch, each of them once.
\<close>

theorem getActiveValidators_lists:
  assumes "set_laws (envSets env) elems" and "(hub_step env)\<^sup>*\<^sup>* (new_relay_hub (envSets env) verifier stakingAddress) hub"
    and "length (elems (allValidators (validatorHistories hub chainId))) < 2 ^ 64"
  shows "getActiveValidators (envSets env) hub chainId =
      Done (active_list elems (validatorHistories hub chainId) (getLatestTransitionedEpoch hub chainId))
    \<and> distinct (active_list elems (validatorHistories hub chainId) (getLatestTransitionedEpoch hub chainId))"
proof -
  have "history_inv elems (validatorHistories hub chainId)"
    using hub.reachable_inv [OF _ assms(2), where elems = elems] assms(1) by (auto simp: hub_inv_def)
  then show ?thesis
    using extractActiveValidators_eq [OF assms(1) _ assms(3)] active_list_distinct
    by (auto simp: getActiveValidators_def getLatestTransitionedEpoch_def Let_def)
qed

text \<open>A chain that is registered with its first two validators.\<close>

lemma new_history_simps [simp]:
  "allValidators (new_history S) = esEmpty S" "latestKnownEpoch (new_history S) = 0" "esEmpty sample_sets = []"
  by (simp_all add: new_history_def sample_sets_def)

lemma new_history_inv: "history_inv id (new_history sample_sets)"
  by (simp add: new_history_def history_inv_def in_bitmap_def sample_sets_def)

lemma sample_registration:
  obtains hub h where "registerCertifiedBAS sample_env 97 (header_rlp (chain_header (replicate 32 0) 200 [1, 2] 1)) zero_address 200
      (new_relay_hub sample_sets zero_address zero_address) = Done hub"
    and "validatorHistories hub 97 = h" and "active_set id h 1 = {sample_address 1, sample_address 2}"
    and "latestKnownEpoch h = 1" and "validatorCount h 1 = 2" and "allValidators h = map sample_address [1, 2]"
    and "registeredChains hub 97 = \<lparr>chainStatus = Verifying, chainType = BAS, verificationFunction = zero_address,
      bridgeAddress = zero_address, basEpochLength = 200\<rparr>" and "hub_inv id hub"
proof -
  let ?header = "chain_header (replicate 32 0) 200 [1, 2] 1"
  have "sealed_header sample_crypto chain_rlp (\<lambda>_. True) 97 ?header"
    by (rule chain_header_sealed) simp_all
  then have "verifyBlockWithoutQuorum sample_evm 97 (header_rlp ?header) 200 =
      Done (evKeccak256 sample_evm (header_rlp ?header), map sample_address [1, 2], 200)"
    using verifyBlockWithoutQuorum_eq [OF sample_chain_laws, of 97 ?header 200] chain_header_listed
    by (simp add: epoch_header_def) (simp add: chain_header_def sample_header_def)
  moreover obtain h where h: "updateActiveValidatorSet sample_sets (new_history sample_sets) (map sample_address [1, 2]) 1 = Done h"
    "active_set id h 1 = {sample_address 1, sample_address 2}" "latestKnownEpoch h = 1" "validatorCount h 1 = 2" "allValidators h = map sample_address [1, 2]"
    using updateActiveValidatorSet_eq [OF sample_sets_laws new_history_inv, of 1 "map sample_address [1, 2]"]
    by (auto simp: successor_epoch_def room_def Let_def)
  moreover obtain hub where hub: "hub = (new_relay_hub sample_sets zero_address zero_address)
      \<lparr>validatorHistories := (\<lambda>_. new_history sample_sets)(97 := h),
       registeredChains := (\<lambda>_. new_bas)(97 := \<lparr>chainStatus = Verifying, chainType = BAS,
         verificationFunction = zero_address, bridgeAddress = zero_address, basEpochLength = 200\<rparr>),
       emitted := [LogChainRegistered 97 (map sample_address [1, 2])]\<rparr>"
    by simp
  ultimately have "registerCertifiedBAS sample_env 97 (header_rlp ?header) zero_address 200
      (new_relay_hub sample_sets zero_address zero_address) = Done hub"
    by (simp add: registerCertifiedBAS_def registerChainWithVerificationFunction_def new_relay_hub_def new_bas_def div64_def
        ZERO_BLOCK_HASH_def DEFAULT_VERIFICATION_FUNCTION_def)
  moreover from this have "hub_inv id hub"
    using hub_step_inv [of sample_env id _ hub, OF _ _ hub_step.certified] new_relay_hub_inv sample_sets_laws
    by (metis sample_env_simps(1))
  moreover have "validatorHistories hub 97 = h" "registeredChains hub 97 = \<lparr>chainStatus = Verifying, chainType = BAS,
      verificationFunction = zero_address, bridgeAddress = zero_address, basEpochLength = 200\<rparr>"
    by (simp_all add: hub)
  ultimately show ?thesis
    using that h(2-5) by simp
qed

theorem getActiveValidators_lists_witness:
  "\<exists>hub vs. registerCertifiedBAS sample_env 97 (header_rlp (chain_header (replicate 32 0) 200 [1, 2] 1)) zero_address 200
      (new_relay_hub sample_sets zero_address zero_address) = Done hub
    \<and> getActiveValidators sample_sets hub 97 = Done vs \<and> distinct vs \<and> set vs = {sample_address 1, sample_address 2}"
proof -
  obtain hub h where h: "registerCertifiedBAS sample_env 97 (header_rlp (chain_header (replicate 32 0) 200 [1, 2] 1)) zero_address 200
      (new_relay_hub sample_sets zero_address zero_address) = Done hub" "validatorHistories hub 97 = h"
    "active_set id h 1 = {sample_address 1, sample_address 2}" "latestKnownEpoch h = 1" "length (allValidators h) = 2"
    by (rule sample_registration) simp
  have "(hub_step sample_env)\<^sup>*\<^sup>* (new_relay_hub (envSets sample_env) zero_address zero_address) hub"
    using h(1) by (auto intro: hub_step.certified)
  then show ?thesis
    using getActiveValidators_lists [where env = sample_env and elems = id and chainId = 97] h sample_sets_laws
    by (fastforce simp: getLatestTransitionedEpoch_def)
qed

text \<open>
  Property C21. Storing a validator set, on every branch. An epoch that does not follow the latest one
  reverts (unless either is zero). If the new validators do not fit into the buckets that are allocated for
  the validators known before, the call reverts too: a chain whose list of all validators is about to grow
  past a multiple of 256 can make no transition to a set with the new validator any more. Otherwise the new
  epoch has exactly the given validators, and no other epoch changes.
\<close>

theorem updateActiveValidatorSet_spec:
  assumes "set_laws S elems" and "history_inv elems h"
  shows "if \<not> successor_epoch h e then \<exists>err. updateActiveValidatorSet S h vs e = Revert err
    else if length (add_all (elems (allValidators h)) vs) > room (elems (allValidators h))
      then updateActiveValidatorSet S h vs e = Revert OutOfBounds
    else \<exists>h'. updateActiveValidatorSet S h vs e = Done h' \<and> history_inv elems h' \<and> active_set elems h' e = set vs
      \<and> (\<forall>e'. e' \<noteq> e \<longrightarrow> active_list elems h' e' = active_list elems h e')
      \<and> validatorCount h' = (validatorCount h)(e := word_of_nat (length vs)) \<and> latestKnownEpoch h' = e"
proof (cases "successor_epoch h e")
  case False
  then show ?thesis
    using update_history_inv(2) [OF assms, of vs e] by (cases "updateActiveValidatorSet S h vs e") auto
next
  case True
  then show ?thesis
    using updateActiveValidatorSet_eq [OF assms True, of vs] by (auto simp: Let_def not_less)
qed

text \<open>257 validators at once are too many.\<close>

definition many_validators :: "address list" where
  "many_validators = map (be_fixed 20) [0..<257]"

lemma many_validators_distinct: "distinct many_validators"
proof -
  have "inj_on (be_fixed 20) (set [0..<257])"
  proof (intro inj_onI)
    fix i j assume "i \<in> set [0..<257]" "j \<in> set [0..<257]" "be_fixed 20 i = be_fixed 20 j"
    then have "i mod 256 ^ 20 = j mod 256 ^ 20" "i < 256 ^ 20" "j < 256 ^ 20"
      using be_val_fixed by (metis, simp_all)
    then show "i = j"
      by simp
  qed
  then show ?thesis
    by (simp add: many_validators_def distinct_map)
qed

lemma add_all_new: "distinct (xs @ vs) \<Longrightarrow> add_all xs vs = xs @ vs"
  by (induction vs arbitrary: xs) auto

theorem updateActiveValidatorSet_spec_witness:
  "updateActiveValidatorSet sample_sets (new_history sample_sets) many_validators 1 = Revert OutOfBounds"
proof -
  have "add_all [] many_validators = many_validators" "length many_validators = 257"
    using add_all_new [of "[]" many_validators] many_validators_distinct by (simp_all add: many_validators_def)
  moreover have "room [] = 256" "id (allValidators (new_history sample_sets)) = []" "successor_epoch (new_history sample_sets) 1"
    by (simp_all add: room_def successor_epoch_def)
  ultimately show ?thesis
    using updateActiveValidatorSet_spec [OF sample_sets_laws new_history_inv, of 1 many_validators] by simp
qed

text \<open>
  Property C20. The quorum check counts. It compares two thirds of the stored number of validators with the
  number of different active validators among the given addresses, whatever their order and however often
  they occur; it reverts when one of them has a place in the list of all validators beyond the buckets that
  are allocated for the number of active ones.
\<close>

theorem checkValidatorsAndQuorumReached_counts:
  assumes "set_laws S elems" and "hub_inv elems hub"
  shows "checkValidatorsAndQuorumReached S hub chainId vs e =
    (let h = validatorHistories hub chainId; n = unat (validatorCount h e) in
     if \<forall>k\<in>indices elems h e (set vs). k < 256 * ((n + 255) div 256)
     then Done (n * 2 div 3 \<le> card (set vs \<inter> active_set elems h e)) else Revert OutOfBounds)"
  using checkValidatorsAndQuorumReached_eq [OF assms(1)] assms(2) by (simp add: hub_inv_def Let_def)

theorem checkValidatorsAndQuorumReached_counts_witness:
  "\<exists>hub. registerCertifiedBAS sample_env 97 (header_rlp (chain_header (replicate 32 0) 200 [1, 2] 1)) zero_address 200
      (new_relay_hub sample_sets zero_address zero_address) = Done hub
    \<and> checkValidatorsAndQuorumReached sample_sets hub 97 [sample_address 2, sample_address 9, sample_address 2] 1 = Done True
    \<and> checkValidatorsAndQuorumReached sample_sets hub 97 [sample_address 9] 1 = Done False"
proof -
  obtain hub h where h: "registerCertifiedBAS sample_env 97 (header_rlp (chain_header (replicate 32 0) 200 [1, 2] 1)) zero_address 200
      (new_relay_hub sample_sets zero_address zero_address) = Done hub" "validatorHistories hub 97 = h"
    "active_set id h 1 = {sample_address 1, sample_address 2}" "validatorCount h 1 = 2" "length (allValidators h) = 2" and inv: "hub_inv id hub"
    by (rule sample_registration) simp
  have "\<forall>k\<in>indices id h 1 as. k < 256" for as
    using h(5) by (auto simp: indices_def)
  moreover have "{sample_address 2, sample_address 9} \<inter> {sample_address 1, sample_address 2} = {sample_address 2}"
    "{sample_address 9} \<inter> {sample_address 1, sample_address 2} = {}"
    by auto
  ultimately show ?thesis
    using checkValidatorsAndQuorumReached_counts [OF sample_sets_laws inv, of 97 _ 1] h
    by (intro exI [of _ hub]) (simp add: Let_def insert_commute)
qed



end
