(* ===== verification/Network.thy ===== *)
theory Network
  imports Server
begin

text \<open>
  Several relayers together: the services, servers and listeners of the other theories, composed
  over streams that keep the order of messages and may lose them (a connection that ends, a relayer
  that is not connected when a proof is announced). Every relayer signs with its own key what it has
  built from its own view of the chain, announces it to those connected, and takes in what it
  receives; nothing else puts messages on a stream. The steps call the modelled functions of the code
  and nothing else; the invariant says what the stores of all relayers hold.
\<close>

section \<open>State\<close>

text \<open>The parameters of all relayers: the packages, and for each relayer its key and its node.\<close>

record ('t, 'c, 'w) net_libs =
  nlLru :: "'c lru_lib"
  nlOrder :: "(address, bytes) gomap \<Rightarrow> (address, bytes) gomap"
  nlCodec :: codec_lib
  nlCrypto :: crypto_lib
  nlRlp :: rlp_lib
  nlTrie :: "'t trie_lib"
  nlKey :: "nat \<Rightarrow> priv_key"
  nlClient :: "nat \<Rightarrow> 'w eth_client"

text \<open>The services by relayer, and the replies under way from one relayer to another.\<close>

record 'c network =
  nodes :: "nat \<Rightarrow> 'c RelayService"
  wires :: "nat \<Rightarrow> nat \<Rightarrow> SignCheckpointProofReply list"

definition set_node :: "nat \<Rightarrow> 'c RelayService \<Rightarrow> 'c network \<Rightarrow> 'c network" where
  "set_node i s N = N\<lparr>nodes := (nodes N)(i := s)\<rparr>"

definition set_wire :: "nat \<Rightarrow> nat \<Rightarrow> SignCheckpointProofReply list \<Rightarrow> 'c network \<Rightarrow> 'c network" where
  "set_wire i j ms N = N\<lparr>wires := (wires N)(i := (wires N i)(j := ms))\<rparr>"

lemma set_node_simps [simp]:
  "nodes (set_node i s N) = (nodes N)(i := s)" "wires (set_node i s N) = wires N"
  by (simp_all add: set_node_def)

lemma set_wire_simps [simp]:
  "wires (set_wire i j ms N) = (wires N)(i := (wires N i)(j := ms))" "nodes (set_wire i j ms N) = nodes N"
  by (simp_all add: set_wire_def)

section \<open>Sending and receiving\<close>

text \<open>The two ends of a stream. The server's end appends to what is under way; the client's takes the
  oldest reply, and what the listener emits is merged by the collector of the same service.\<close>

definition wire_server :: "SignCheckpointProofReply list server_stream" where
  "wire_server = \<lparr>ssRecvMsg = (\<lambda>ms. (Ret SignCheckpointProofRequest, ms)), ssSendMsg = (\<lambda>m ms. (Ret (), ms @ [m]))\<rparr>"

record 'c link =
  linkWire :: "SignCheckpointProofReply list"
  linkNode :: "'c RelayService"

definition wire_client :: "'c link client_stream" where
  "wire_client = \<lparr>csSendMsg = (\<lambda>m w. (Ret (), w)), csCloseSend = (\<lambda>w. (Ret (), w)),
     csRecvMsg = (\<lambda>w. case linkWire w of [] \<Rightarrow> (Fail (LibError ''EOF''), w) | m # ms \<Rightarrow> (Ret m, w\<lparr>linkWire := ms\<rparr>))\<rparr>"

abbreviation act_on :: "('t, 'c, 'w) net_libs \<Rightarrow> svc_action \<Rightarrow> 'c RelayService \<Rightarrow> 'c RelayService" where
  "act_on K \<equiv> perform (nlLru K) (nlOrder K) (nlCodec K) (nlCrypto K)"

definition deliver :: "('t, 'c, 'w) net_libs \<Rightarrow> string \<Rightarrow> checkpointProof \<Rightarrow> ('c link, unit) io" where
  "deliver K name p w =
     (Ret (), if name = checkpointProofReceived then w\<lparr>linkNode := act_on K (Received p) (linkNode w)\<rparr> else w)"

text \<open>Relayer \<open>j\<close> receives the next reply of relayer \<open>i\<close>.\<close>

definition receive :: "('t, 'c, 'w) net_libs \<Rightarrow> nat \<Rightarrow> nat \<Rightarrow> 'c network \<Rightarrow> unit outcome \<times> 'c network" where
  "receive K i j N =
     (case listen_round (nlCodec K) (deliver K) wire_client \<lparr>linkWire = wires N i j, linkNode = nodes N j\<rparr> of
        (r, w) \<Rightarrow> (r, set_wire i j (linkWire w) (set_node j (linkNode w) N)))"

text \<open>Relayer \<open>i\<close> serves the announcement of proof \<open>r\<close> to the relayers that are connected to it.\<close>

fun announce :: "('t, 'c, 'w) net_libs \<Rightarrow> nat \<Rightarrow> ref \<Rightarrow> nat list \<Rightarrow> 'c network \<Rightarrow> 'c network" where
  "announce K i r [] N = N"
| "announce K i r (j # peers) N =
     announce K i r peers (set_wire i j
       (snd (serve_event (nlCodec K) (nlOrder K) wire_server [ProofArg r] (proofHeap (nodes N i)) (wires N i j))) N)"

text \<open>Relayer \<open>i\<close> signs a proof that it has built, stores it and announces it.\<close>

definition sign_and_announce ::
    "('t, 'c, 'w) net_libs \<Rightarrow> nat \<Rightarrow> checkpointProof \<Rightarrow> nat list \<Rightarrow> 'c network \<Rightarrow> 'c network" where
  "sign_and_announce K i p peers N =
     (case signCheckpointProof (nlCodec K) (nlCrypto K) (nlKey K i) p of
        (Ret _, p') \<Rightarrow>
          (case new_proof p' (nodes N i) of (r, s) \<Rightarrow>
             (case mergeCheckpointProof (nlLru K) (nlOrder K) r s of
                (Ret r', s') \<Rightarrow> announce K i r' peers (set_node i s' N)
              | (_, s') \<Rightarrow> set_node i s' N))
      | _ \<Rightarrow> N)"

section \<open>Steps\<close>

inductive net_step :: "('t, 'c, 'w) net_libs \<Rightarrow> 'c network \<Rightarrow> 'c network \<Rightarrow> bool" for K where
  signs: "createCheckpointProof (nlCodec K) (nlRlp K) (nlTrie K) (nlClient K i) epochBlock epochLength w = (Ret p, w') \<Longrightarrow>
    net_step K N (sign_and_announce K i p peers N)"
| receives: "wires N i j \<noteq> [] \<Longrightarrow> net_step K N (snd (receive K i j N))"
| looks_up: "net_step K N (set_node i (act_on K (Lookup h) (nodes N i)) N)"
| loses: "net_step K N (set_wire i j [] N)"

inductive_cases net_stepE: "net_step K N N'"

text \<open>At the start all services are new and nothing is under way.\<close>

definition net_start :: "('t, 'c, 'w) net_libs \<Rightarrow> 'c network \<Rightarrow> bool" where
  "net_start K N \<longleftrightarrow> (\<forall>i. NewRelayService (nlLru K) = Ret (nodes N i)) \<and> (\<forall>i j. wires N i j = [])"

text \<open>The documented behaviour of the packages, and the fixed lengths of addresses and hashes.\<close>

definition net_laws ::
    "('t, 'c, 'w) net_libs \<Rightarrow> ('c \<Rightarrow> (lru_key \<times> ref) set) \<Rightarrow> (priv_key \<Rightarrow> bytes) \<Rightarrow> bool" where
  "net_laws K content pub \<longleftrightarrow>
     lru_laws (nlLru K) content \<and> codec_laws (nlCodec K) \<and> crypto_laws (nlCrypto K) pub \<and> range_order (nlOrder K)
     \<and> (\<forall>t. length (trieHash (nlTrie K) t) = 32)
     \<and> (\<forall>i n w b w'. fetch_block (nlClient K i) n w = (Ret b, w') \<longrightarrow> length (blkHash b) = 32)"

lemma net_lawsD:
  assumes "net_laws K content pub"
  shows "lru_laws (nlLru K) content" and "codec_laws (nlCodec K)" and "crypto_laws (nlCrypto K) pub"
    and "range_order (nlOrder K)" and "length (trieHash (nlTrie K) t) = 32"
    and "fetch_block (nlClient K i) n w = (Ret b, w') \<Longrightarrow> length (blkHash b) = 32"
  using assms unfolding net_laws_def by blast+

section \<open>The invariant\<close>

text \<open>A proof is genuine if it carries exactly one signature: that of a relayer of the network, under
  its address, over the checkpoint hash of the proof.\<close>

definition genuine :: "('t, 'c, 'w) net_libs \<Rightarrow> checkpointProof \<Rightarrow> bool" where
  "genuine K p \<longleftrightarrow> (\<exists>i s. ecSign (nlCrypto K) (hashBytes (nlCodec K) (checkpointHash p)) (nlKey K i) = Ret s
     \<and> sig_map p = [keyToAddress (nlCrypto K) (nlKey K i) \<mapsto> s])"

definition stored_well :: "('t, 'c, 'w) net_libs \<Rightarrow> ('c \<Rightarrow> (lru_key \<times> ref) set) \<Rightarrow> 'c RelayService \<Rightarrow> bool" where
  "stored_well K content s \<longleftrightarrow>
     service_inv (nlLru K) content s \<and> (\<forall>r p. proofHeap s r = Some p \<longrightarrow> sendable p \<and> genuine K p)"

definition sent_well :: "('t, 'c, 'w) net_libs \<Rightarrow> SignCheckpointProofReply list \<Rightarrow> bool" where
  "sent_well K ms \<longleftrightarrow> (\<forall>m\<in>set ms. \<exists>p. m = make_reply (nlCodec K) (nlOrder K) p \<and> sendable p \<and> genuine K p)"

definition net_inv ::
    "('t, 'c, 'w) net_libs \<Rightarrow> ('c \<Rightarrow> (lru_key \<times> ref) set) \<Rightarrow> (priv_key \<Rightarrow> bytes) \<Rightarrow> 'c network \<Rightarrow> bool" where
  "net_inv K content pub N \<longleftrightarrow>
     net_laws K content pub \<and> (\<forall>i. stored_well K content (nodes N i)) \<and> (\<forall>i j. sent_well K (wires N i j))"

lemma inv_set_node:
  "net_inv K content pub N \<Longrightarrow> stored_well K content s \<Longrightarrow> net_inv K content pub (set_node i s N)"
  by (simp add: net_inv_def)

lemma inv_set_wire:
  "net_inv K content pub N \<Longrightarrow> sent_well K ms \<Longrightarrow> net_inv K content pub (set_wire i j ms N)"
  by (simp add: net_inv_def)

text \<open>What a proof that has been built and signed looks like.\<close>

lemma fetch_run_hashes:
  "(\<And>n w b w'. fetch_block client n w = (Ret b, w') \<Longrightarrow> length (blkHash b) = 32) \<Longrightarrow>
   fetch_run client n i w = (Ret blocks, w') \<Longrightarrow> b \<in> set blocks \<Longrightarrow> length (blkHash b) = 32"
  by (induction n arbitrary: i w blocks) (fastforce simp: io_inv)+

lemma built_hashes:
  assumes "net_laws K content pub"
    and "createCheckpointProof (nlCodec K) (nlRlp K) (nlTrie K) (nlClient K i) e len w = (Ret p, w')"
  shows "length (blockHash p) = 32" and "length (checkpointHash p) = 32"
proof -
  let ?r = "\<lparr>epochNumber = e div len, rawEpochBlock = [],
             blockHash = replicate 32 0, checkpointHash = replicate 32 0, signatures = None\<rparr>"
  obtain r t where loop: "checkpoint_loop (nlCodec K) (nlRlp K) (nlTrie K) (nlClient K i) e (e + len) e ?r
        (trieNewEmpty (nlTrie K)) w = (Ret (r, t), w')" and p: "p = r\<lparr>checkpointHash := trieHash (nlTrie K) t\<rparr>"
    using assms(2) by (auto simp: createCheckpointProof_def Let_def io_bind_Ret_iff io_ret_iff io_lift_iff
        split: if_splits)
  obtain blocks where run: "fetch_run (nlClient K i) (length blocks) e w = (Ret blocks, w')"
    "length blocks = unat (e + len) - unat e"
    and sound: "if e = e \<and> e < e + len
      then rlpEncodeHeader (nlRlp K) (blkHeader (hd blocks)) = Ret (rawEpochBlock r)
           \<and> r = ?r\<lparr>rawEpochBlock := rawEpochBlock r, blockHash := blkHash (hd blocks)\<rparr>
      else r = ?r"
    using checkpoint_loop_sound [OF loop order.refl] by blast
  have "length (blockHash r) = 32"
  proof (cases "e < e + len")
    case True
    then have "hd blocks \<in> set blocks"
      using run(2) by (cases blocks) (auto simp: word_less_nat_alt)
    have "r = ?r\<lparr>rawEpochBlock := rawEpochBlock r, blockHash := blkHash (hd blocks)\<rparr>"
      using sound unfolding if_P [OF conjI [OF refl True]] by (rule conjunct2)
    then have "blockHash r = blockHash (?r\<lparr>rawEpochBlock := rawEpochBlock r, blockHash := blkHash (hd blocks)\<rparr>)"
      by (rule arg_cong)
    also have "\<dots> = blkHash (hd blocks)" by simp
    finally show ?thesis
      using fetch_run_hashes [OF net_lawsD(6) [OF assms(1)] run(1)] \<open>hd blocks \<in> set blocks\<close> by simp
  next
    case False
    then have "r = ?r" using sound by simp
    then have "blockHash r = blockHash ?r" by (rule arg_cong)
    then show ?thesis by simp
  qed
  then show "length (blockHash p) = 32" and "length (checkpointHash p) = 32"
    using net_lawsD(5) [OF assms(1)] by (simp_all add: p)
qed

lemma key_address_length: "crypto_laws C pub \<Longrightarrow> length (keyToAddress C k) = 20"
  using crypto_lawsD(1,3) [of C pub] by simp

lemma signed_well:
  assumes "net_laws K content pub"
    and "createCheckpointProof (nlCodec K) (nlRlp K) (nlTrie K) (nlClient K i) e len w = (Ret p, w')"
    and "signCheckpointProof (nlCodec K) (nlCrypto K) (nlKey K i) p = (Ret (), p')"
  shows "sendable p' \<and> genuine K p'"
proof -
  obtain s where s: "ecSign (nlCrypto K) (hashBytes (nlCodec K) (checkpointHash p)) (nlKey K i) = Ret s"
    "p' = p\<lparr>signatures := Some [(keyToAddress (nlCrypto K) (nlKey K i), s)]\<rparr>"
    using signCheckpointProof_first [OF createCheckpointProof_unsigned [OF assms(2)] assms(3)] by blast
  then show ?thesis
    using built_hashes [OF assms(1,2)] key_address_length [OF net_lawsD(3) [OF assms(1)]]
    by (auto simp: sendable_def genuine_def wf_proof_def wf_map_def sig_map_def)
qed

text \<open>What has been stored and received again is as it was.\<close>

lemma same_proof_well:
  assumes "sendable p \<and> genuine K p" and "same_proof p q"
  shows "sendable q \<and> genuine K q"
proof -
  have "fst ` set (sigs_of q) = fst ` set (sigs_of p)"
    using assms(2) dom_map_of_conv_image_fst [of "sigs_of p"] dom_map_of_conv_image_fst [of "sigs_of q"]
    by (simp add: same_proof_def sig_map_def)
  then show ?thesis
    using assms by (auto simp: same_proof_def sendable_def genuine_def)
qed

lemma perform_received:
  assumes "service_inv lru content s"
  shows "proofHeap (perform lru ord cd C (Received q) s) = (proofHeap s)(nextRef s \<mapsto> q)"
    and "nextRef (perform lru ord cd C (Received q) s) = Suc (nextRef s)"
proof -
  obtain r s' where new: "new_proof q s = (r, s')" by (cases "new_proof q s")
  then have s': "r = nextRef s" "proofHeap s' = (proofHeap s)(nextRef s \<mapsto> q)" "nextRef s' = Suc (nextRef s)"
    by (auto simp: new_proof_def)
  have "service_inv lru content s'" "r < nextRef s'"
    using inv_new [OF assms, of q] new s' by simp_all
  note merge = inv_merge [OF this, of ord]
  have "perform lru ord cd C (Received q) s = snd (mergeCheckpointProof lru ord r s')"
    using new merge(1) by (cases "mergeCheckpointProof lru ord r s'")
      (simp add: perform_def collect_event_def go_index_def io_bind_def io_ret_def io_lift_def)
  then show "proofHeap (perform lru ord cd C (Received q) s) = (proofHeap s)(nextRef s \<mapsto> q)"
    and "nextRef (perform lru ord cd C (Received q) s) = Suc (nextRef s)"
    using merge(2,3) s' by simp_all
qed

lemma stored_received:
  assumes "stored_well K content s" and "sendable q \<and> genuine K q"
  shows "stored_well K content (act_on K (Received q) s)"
proof -
  have inv: "service_inv (nlLru K) content s"
    using assms(1) by (simp add: stored_well_def)
  show ?thesis
    unfolding stored_well_def perform_received(1) [OF inv]
    using perform_keeps(1) [OF inv] assms by (simp add: stored_well_def)
qed

lemma stored_looked_up:
  assumes "stored_well K content s"
  shows "stored_well K content (act_on K (Lookup h) s)"
proof -
  have "proofHeap (act_on K (Lookup h) s) = proofHeap s"
    by (auto simp: perform_def findCheckpointProof_def split: prod.split option.split)
  then show ?thesis
    using assms perform_keeps(1) [of "nlLru K" content s] by (simp add: stored_well_def)
qed

lemma receive_reply:
  assumes "net_inv K content pub N" and "wires N i j = m # ms"
    and "m = make_reply (nlCodec K) (nlOrder K) p" and "sendable p"
  shows "\<exists>q. same_proof p q
    \<and> receive K i j N = (Ret (), set_wire i j ms (set_node j (act_on K (Received q) (nodes N j)) N))"
proof -
  have laws: "net_laws K content pub"
    using assms(1) by (simp add: net_inv_def)
  obtain q where q: "decode_reply (nlCodec K) m = Ret q" "same_proof p q"
    unfolding assms(3) using decode_make_reply [OF net_lawsD(2,4) [OF laws] assms(4)] by blast
  have "receive K i j N = (Ret (), set_wire i j ms (set_node j (act_on K (Received q) (nodes N j)) N))"
    using assms(2) q(1) by (simp add: receive_def listen_round_def Recv_def wire_client_def deliver_def
        io_bind_def io_ret_def io_lift_def)
  with q(2) show ?thesis by blast
qed

lemma receive_next:
  assumes "net_inv K content pub N" and "wires N i j = m # ms"
  shows "\<exists>q. sendable q \<and> genuine K q
    \<and> receive K i j N = (Ret (), set_wire i j ms (set_node j (act_on K (Received q) (nodes N j)) N))"
proof -
  have "sent_well K (wires N i j)"
    using assms(1) by (simp add: net_inv_def)
  then obtain p where p: "m = make_reply (nlCodec K) (nlOrder K) p" "sendable p \<and> genuine K p"
    using assms(2) by (auto simp: sent_well_def)
  then obtain q where "same_proof p q"
    "receive K i j N = (Ret (), set_wire i j ms (set_node j (act_on K (Received q) (nodes N j)) N))"
    using receive_reply [OF assms p(1)] by blast
  then show ?thesis
    using same_proof_well [OF p(2)] by blast
qed

lemma receive_inv:
  assumes "net_inv K content pub N" and "wires N i j \<noteq> []"
  shows "fst (receive K i j N) = Ret () \<and> net_inv K content pub (snd (receive K i j N))"
proof -
  obtain m ms where m: "wires N i j = m # ms" using assms(2) by (cases "wires N i j") auto
  obtain q where q: "sendable q \<and> genuine K q"
    "receive K i j N = (Ret (), set_wire i j ms (set_node j (act_on K (Received q) (nodes N j)) N))"
    using receive_next [OF assms(1) m] by blast
  have "stored_well K content (nodes N j)" and "sent_well K (wires N i j)"
    using assms(1) by (simp_all add: net_inv_def)
  then have "stored_well K content (act_on K (Received q) (nodes N j))" and "sent_well K ms"
    using stored_received q(1) m by (auto simp: sent_well_def)
  then show ?thesis
    using q(2) inv_set_wire [OF inv_set_node [OF assms(1)]] by simp
qed

lemma announce_inv:
  "net_inv K content pub N \<Longrightarrow> proofHeap (nodes N i) r = Some p \<Longrightarrow> net_inv K content pub (announce K i r peers N)"
proof (induction K i r peers N rule: announce.induct)
  case (2 K i r j peers N)
  let ?reply = "make_reply (nlCodec K) (nlOrder K) p"
  have sent: "snd (serve_event (nlCodec K) (nlOrder K) wire_server [ProofArg r] (proofHeap (nodes N i)) (wires N i j))
      = wires N i j @ [?reply]"
    using "2.prems"(2) by (simp add: serve_event_def go_index_def Send_def wire_server_def)
  have "sendable p \<and> genuine K p"
    using "2.prems" by (auto simp: net_inv_def stored_well_def)
  then have "sent_well K (wires N i j @ [?reply])"
    using "2.prems"(1) by (auto simp: net_inv_def sent_well_def)
  then have "net_inv K content pub (set_wire i j (wires N i j @ [?reply]) N)"
    by (rule inv_set_wire [OF "2.prems"(1)])
  then show ?case
    using "2.IH" "2.prems"(2) by (simp add: sent)
qed simp

lemma sign_and_announce_eq:
  assumes "service_inv (nlLru K) content (nodes N i)"
    and "signCheckpointProof (nlCodec K) (nlCrypto K) (nlKey K i) p = (Ret u, p')"
  shows "\<exists>s. sign_and_announce K i p peers N = announce K i (nextRef (nodes N i)) peers (set_node i s N)
    \<and> service_inv (nlLru K) content s \<and> proofHeap s = (proofHeap (nodes N i))(nextRef (nodes N i) \<mapsto> p')"
proof -
  obtain r s where new: "new_proof p' (nodes N i) = (r, s)" by (cases "new_proof p' (nodes N i)")
  then have s: "service_inv (nlLru K) content s" "r < nextRef s" "r = nextRef (nodes N i)"
    "proofHeap s = (proofHeap (nodes N i))(nextRef (nodes N i) \<mapsto> p')"
    using inv_new [OF assms(1), of p'] by (auto simp: new_proof_def)
  note merge = inv_merge [OF s(1,2), of "nlOrder K"]
  obtain s' where s': "mergeCheckpointProof (nlLru K) (nlOrder K) r s = (Ret r, s')"
    using merge(1) by (cases "mergeCheckpointProof (nlLru K) (nlOrder K) r s") simp
  then show ?thesis
    using merge(2,4) s(3,4) new assms(2) by (intro exI [of _ s']) (simp add: sign_and_announce_def)
qed

lemma sign_and_announce_inv:
  assumes "net_inv K content pub N"
    and "createCheckpointProof (nlCodec K) (nlRlp K) (nlTrie K) (nlClient K i) e len w = (Ret p, w')"
  shows "net_inv K content pub (sign_and_announce K i p peers N)"
proof -
  have laws: "net_laws K content pub" and node: "stored_well K content (nodes N i)"
    using assms(1) by (auto simp: net_inv_def)
  then have inv: "service_inv (nlLru K) content (nodes N i)"
    by (simp add: stored_well_def)
  obtain res p' where sign: "signCheckpointProof (nlCodec K) (nlCrypto K) (nlKey K i) p = (res, p')"
    by (cases "signCheckpointProof (nlCodec K) (nlCrypto K) (nlKey K i) p")
  show ?thesis
  proof (cases res)
    case (Ret u)
    then have p': "sendable p' \<and> genuine K p'"
      using signed_well [OF laws assms(2)] sign by simp
    obtain s where s: "sign_and_announce K i p peers N = announce K i (nextRef (nodes N i)) peers (set_node i s N)"
      "service_inv (nlLru K) content s" "proofHeap s = (proofHeap (nodes N i))(nextRef (nodes N i) \<mapsto> p')"
      using sign_and_announce_eq [OF inv sign [unfolded Ret]] by blast
    have "stored_well K content s"
      using s(2,3) node p' by (simp add: stored_well_def)
    then have "net_inv K content pub (set_node i s N)"
      by (rule inv_set_node [OF assms(1)])
    then show ?thesis
      unfolding s(1) by (rule announce_inv) (simp add: s(3))
  qed (use assms(1) in \<open>simp_all add: sign_and_announce_def sign\<close>)
qed

lemma new_service_empty: "NewRelayService lru = Ret s \<Longrightarrow> proofHeap s = Map.empty"
  by (auto simp: NewRelayService_def must_def outcome_bind_Ret_iff)

definition net_begin ::
    "('t, 'c, 'w) net_libs \<Rightarrow> ('c \<Rightarrow> (lru_key \<times> ref) set) \<Rightarrow> (priv_key \<Rightarrow> bytes) \<Rightarrow> 'c network \<Rightarrow> bool" where
  "net_begin K content pub N \<longleftrightarrow> net_laws K content pub \<and> net_start K N"

interpretation net: invariant_system "net_begin K content pub" "net_step K" "net_inv K content pub"
  for K :: "('t, 'c, 'w) net_libs" and content pub
proof unfold_locales
  show "net_inv K content pub N" if start: "net_begin K content pub N" for N
  proof -
    have "service_inv (nlLru K) content (nodes N i) \<and> proofHeap (nodes N i) = Map.empty" for i
    proof -
      have "service_start (nlLru K) content (nodes N i)"
        using start by (simp add: net_begin_def net_start_def service_start_def net_laws_def)
      then show ?thesis
        using svc.inv_start [of "nlLru K" content "nodes N i"] new_service_empty [of "nlLru K" "nodes N i"]
        by (simp add: service_start_def)
    qed
    then show ?thesis
      using start by (simp add: net_inv_def stored_well_def sent_well_def net_begin_def net_start_def)
  qed
  show "net_inv K content pub N'" if inv: "net_inv K content pub N" and step: "net_step K N N'" for N N'
    using step
  proof (cases rule: net_step.cases)
    case (signs i e len w p w' peers)
    then show ?thesis using sign_and_announce_inv [OF inv] by simp
  next
    case (receives i j)
    then show ?thesis using receive_inv [OF inv] by simp
  next
    case (looks_up i h)
    have "stored_well K content (nodes N i)"
      using inv by (simp add: net_inv_def)
    then show ?thesis
      using looks_up inv_set_node [OF inv stored_looked_up] by simp
  next
    case (loses i j)
    then show ?thesis using inv_set_wire [OF inv, of "[]"] by (simp add: sent_well_def)
  qed
qed

lemma map_of_singleton:
  assumes "wf_map m" and "map_of m = [a \<mapsto> b]"
  shows "m = [(a, b)]"
proof -
  have "fst ` set m = {a}"
    using assms(2) dom_map_of_conv_image_fst [of m] by simp
  then have "length m = 1"
    using wf_map_length [OF assms(1)] by simp
  then show ?thesis
    using assms(2) by (cases m) (auto simp: fun_eq_iff split: if_splits)
qed

section \<open>Delivery\<close>

text \<open>Relayer \<open>j\<close> receives \<open>n\<close> replies of relayer \<open>i\<close>, one after the other.\<close>

fun receive_all :: "('t, 'c, 'w) net_libs \<Rightarrow> nat \<Rightarrow> nat \<Rightarrow> nat \<Rightarrow> 'c network \<Rightarrow> 'c network" where
  "receive_all K i j 0 N = N"
| "receive_all K i j (Suc n) N = receive_all K i j n (snd (receive K i j N))"

lemma receive_replies:
  assumes "net_inv K content pub N" and "wires N i j = map (make_reply (nlCodec K) (nlOrder K)) ps"
    and "\<forall>p\<in>set ps. sendable p"
  shows "wires (receive_all K i j (length ps) N) i j = []
    \<and> nextRef (nodes (receive_all K i j (length ps) N) j) = nextRef (nodes N j) + length ps
    \<and> (\<forall>r < nextRef (nodes N j). proofHeap (nodes (receive_all K i j (length ps) N) j) r = proofHeap (nodes N j) r)
    \<and> (\<forall>k < length ps. \<exists>q. proofHeap (nodes (receive_all K i j (length ps) N) j) (nextRef (nodes N j) + k) = Some q
         \<and> same_proof (ps ! k) q)"
  using assms
proof (induction ps arbitrary: N)
  case (Cons p ps)
  let ?N = "snd (receive K i j N)"
  obtain q where q: "same_proof p q"
    and N: "?N = set_wire i j (map (make_reply (nlCodec K) (nlOrder K)) ps) (set_node j (act_on K (Received q) (nodes N j)) N)"
    using receive_reply [OF Cons.prems(1), of i j _ _ p] Cons.prems(2,3) by auto
  have inv: "net_inv K content pub ?N"
    using receive_inv [OF Cons.prems(1)] Cons.prems(2) by simp
  have "service_inv (nlLru K) content (nodes N j)"
    using Cons.prems(1) by (simp add: net_inv_def stored_well_def)
  note got = perform_received [OF this, of "nlOrder K" "nlCodec K" "nlCrypto K" q]
  have IH: "wires (receive_all K i j (length ps) ?N) i j = []"
    "nextRef (nodes (receive_all K i j (length ps) ?N) j) = Suc (nextRef (nodes N j)) + length ps"
    "\<forall>r < Suc (nextRef (nodes N j)). proofHeap (nodes (receive_all K i j (length ps) ?N) j) r
       = ((proofHeap (nodes N j))(nextRef (nodes N j) \<mapsto> q)) r"
    "\<forall>k < length ps. \<exists>q. proofHeap (nodes (receive_all K i j (length ps) ?N) j) (Suc (nextRef (nodes N j)) + k) = Some q
         \<and> same_proof (ps ! k) q"
    using Cons.IH [OF inv] Cons.prems(3) got by (simp_all add: N)
  have "\<exists>q. proofHeap (nodes (receive_all K i j (length ps) ?N) j) (nextRef (nodes N j) + k) = Some q
      \<and> same_proof ((p # ps) ! k) q" if "k < Suc (length ps)" for k
    using that IH(3,4) q by (cases k) auto
  then show ?case
    using IH by simp
qed simp

lemma announce_wire:
  "proofHeap (nodes N i) r = Some p \<Longrightarrow> nodes (announce K i r peers N) = nodes N
     \<and> wires (announce K i r peers N) i j =
         wires N i j @ map (\<lambda>_. make_reply (nlCodec K) (nlOrder K) p) (filter (\<lambda>k. k = j) peers)"
proof (induction K i r peers N rule: announce.induct)
  case (2 K i r k peers N)
  then show ?case
    by (auto simp: serve_event_def go_index_def Send_def wire_server_def)
qed simp

lemma announce_other:
  "a \<noteq> i \<Longrightarrow> wires (announce K i r peers N) a b = wires N a b"
  by (induction K i r peers N rule: announce.induct) auto

lemma filter_one: "distinct xs \<Longrightarrow> x \<in> set xs \<Longrightarrow> filter (\<lambda>y. y = x) xs = [x]"
  by (induction xs) (auto simp: filter_empty_conv)

text \<open>What is under way in a good state are the replies for proofs that can be sent.\<close>

lemma sent_replies:
  "sent_well K ms \<Longrightarrow> \<exists>ps. ms = map (make_reply (nlCodec K) (nlOrder K)) ps \<and> (\<forall>p\<in>set ps. sendable p)"
proof (induction ms)
  case (Cons m ms)
  then obtain p ps where "m = make_reply (nlCodec K) (nlOrder K) p" "sendable p"
    "ms = map (make_reply (nlCodec K) (nlOrder K)) ps" "\<forall>p\<in>set ps. sendable p"
    by (auto simp: sent_well_def)
  then show ?case by (intro exI [of _ "p # ps"]) simp
qed simp

section \<open>Properties\<close>

lemma net_reachable:
  assumes "net_laws K content pub" and "net_start K N0" and "(net_step K)\<^sup>*\<^sup>* N0 N"
  shows "net_inv K content pub N"
  by (rule net.reachable_inv [OF _ assms(3)]) (simp add: net_begin_def assms(1,2))

text \<open>A sample network: relayer \<open>i\<close> has the key \<open>i\<close>, all see the sample chain. Relayer 0 signs the
  epoch of the blocks 2 and 3 and announces it to relayer 1.\<close>

definition sample_net :: "((bytes \<times> bytes) list, (lru_key \<times> ref) list, unit) net_libs" where
  "sample_net = \<lparr>nlLru = sample_lru, nlOrder = rev, nlCodec = sample_codec, nlCrypto = sample_crypto,
     nlRlp = sample_rlp, nlTrie = sample_trie, nlKey = int, nlClient = (\<lambda>i. sample_client [1, 2, 3] id)\<rparr>"

definition sample_start :: "(lru_key \<times> ref) list network" where
  "sample_start = \<lparr>nodes = (\<lambda>i. sample_service), wires = (\<lambda>i j. [])\<rparr>"

lemma sample_net_laws: "net_laws sample_net set sample_pub"
  by (auto simp: net_laws_def sample_net_def sample_trie_def range_order_def sample_block_def)

lemma sample_net_start: "net_start sample_net sample_start"
  by (simp add: net_start_def sample_net_def sample_start_def sample_service_start)

lemma sample_net_build:
  "\<exists>p. createCheckpointProof (nlCodec sample_net) (nlRlp sample_net) (nlTrie sample_net) (nlClient sample_net i)
     2 2 () = (Ret p, ())"
  using sample_checkpoint by (auto simp: sample_net_def)

lemma sample_net_announced:
  assumes "createCheckpointProof (nlCodec sample_net) (nlRlp sample_net) (nlTrie sample_net) (nlClient sample_net 0)
     2 2 () = (Ret p, ())"
  shows "(net_step sample_net)\<^sup>*\<^sup>* sample_start (sign_and_announce sample_net 0 p [1] sample_start)
    \<and> wires (sign_and_announce sample_net 0 p [1] sample_start) 0 1 \<noteq> []
    \<and> nextRef (nodes (sign_and_announce sample_net 0 p [1] sample_start) 1) = 0"
proof -
  have step: "net_step sample_net sample_start (sign_and_announce sample_net 0 p [1] sample_start)"
    by (rule net_step.signs [OF assms])
  have "service_inv (nlLru sample_net) set (nodes sample_start 0)"
    using net_reachable [OF sample_net_laws sample_net_start rtranclp.rtrancl_refl]
    by (simp add: net_inv_def stored_well_def)
  moreover obtain p' where "signCheckpointProof (nlCodec sample_net) (nlCrypto sample_net) (nlKey sample_net 0) p = (Ret (), p')"
    using createCheckpointProof_unsigned [OF assms] by (simp add: signCheckpointProof_def sample_net_def Let_def sigs_of_def)
  ultimately obtain s where "sign_and_announce sample_net 0 p [1] sample_start =
      announce sample_net 0 (nextRef (nodes sample_start 0)) [1] (set_node 0 s sample_start)"
    "proofHeap s = (proofHeap (nodes sample_start 0))(nextRef (nodes sample_start 0) \<mapsto> p')"
    using sign_and_announce_eq by blast
  then show ?thesis
    using step announce_wire [of "set_node 0 s sample_start" 0 0 p' sample_net "[1]" 1]
    by (auto simp: sample_start_def sample_service_def)
qed

text \<open>
  Property C31. Type safety of the exchange. In every state that a network of relayers reaches, whatever
  is signed, received, looked up or lost, every stored proof is well-formed (one signature per signer,
  20-byte signers, 32-byte hashes), and whatever is under way is received without an error, a
  corrupted reply or a panic.
\<close>

theorem network_type_safe:
  assumes "net_laws K content pub" and "net_start K N0" and "(net_step K)\<^sup>*\<^sup>* N0 N"
  shows "(proofHeap (nodes N i) r = Some p \<longrightarrow>
            distinct (map fst (sigs_of p)) \<and> (\<forall>a\<in>fst ` set (sigs_of p). length a = 20)
            \<and> length (blockHash p) = 32 \<and> length (checkpointHash p) = 32)
       \<and> (wires N i j \<noteq> [] \<longrightarrow> fst (receive K i j N) = Ret ())"
proof -
  have inv: "net_inv K content pub N"
    by (rule net_reachable [OF assms])
  then have "proofHeap (nodes N i) r = Some p \<longrightarrow> sendable p"
    by (simp add: net_inv_def stored_well_def)
  then show ?thesis
    using receive_inv [OF inv, of i j] by (auto simp: sendable_def wf_proof_def wf_map_def)
qed

theorem network_type_safe_witness:
  "\<exists>N. (net_step sample_net)\<^sup>*\<^sup>* sample_start N \<and> wires N 0 1 \<noteq> [] \<and> fst (receive sample_net 0 1 N) = Ret ()"
proof -
  obtain p where p: "createCheckpointProof (nlCodec sample_net) (nlRlp sample_net) (nlTrie sample_net) (nlClient sample_net 0)
     2 2 () = (Ret p, ())"
    using sample_net_build [of 0] by blast
  show ?thesis
    using network_type_safe [OF sample_net_laws sample_net_start, of _ 0 0 undefined 1] sample_net_announced [OF p]
    by blast
qed

text \<open>
  Property C19. What one relayer signs the others get. In any reachable state, when relayer \<open>i\<close> signs a
  proof that it has built and announces it to connected relayers, then relayer \<open>j\<close> among them, once it
  has received what was under way and one reply more, has stored a proof with the same epoch, raw
  block, hashes and with the signature of \<open>i\<close>, and everything it had stored before is unchanged.
\<close>

theorem network_delivers:
  assumes "net_laws K content pub" and "net_start K N0" and "(net_step K)\<^sup>*\<^sup>* N0 N"
    and "createCheckpointProof (nlCodec K) (nlRlp K) (nlTrie K) (nlClient K i) e len w = (Ret p, w')"
    and "ecSign (nlCrypto K) (hashBytes (nlCodec K) (checkpointHash p)) (nlKey K i) = Ret s"
    and "distinct peers" and "j \<in> set peers"
    and "N1 = sign_and_announce K i p peers N" and "N2 = receive_all K i j (Suc (length (wires N i j))) N1"
  shows "\<exists>q r. proofHeap (nodes N2 j) r = Some q \<and> nextRef (nodes N1 j) \<le> r
      \<and> epochNumber q = epochNumber p \<and> rawEpochBlock q = rawEpochBlock p
      \<and> blockHash q = blockHash p \<and> checkpointHash q = checkpointHash p
      \<and> sig_map q = [keyToAddress (nlCrypto K) (nlKey K i) \<mapsto> s]
      \<and> (\<forall>r' < nextRef (nodes N1 j). proofHeap (nodes N2 j) r' = proofHeap (nodes N1 j) r')"
proof -
  have inv: "net_inv K content pub N"
    by (rule net_reachable [OF assms(1-3)])
  then have inv1: "net_inv K content pub N1"
    unfolding assms(8) by (rule sign_and_announce_inv [OF _ assms(4)])
  let ?p = "p\<lparr>signatures := Some [(keyToAddress (nlCrypto K) (nlKey K i), s)]\<rparr>"
  have sign: "signCheckpointProof (nlCodec K) (nlCrypto K) (nlKey K i) p = (Ret (), ?p)"
    using assms(5) createCheckpointProof_unsigned [OF assms(4)]
    by (simp add: signCheckpointProof_def Let_def sigs_of_def go_put_def)
  have "service_inv (nlLru K) content (nodes N i)"
    using inv by (simp add: net_inv_def stored_well_def)
  then obtain s1 where s1: "N1 = announce K i (nextRef (nodes N i)) peers (set_node i s1 N)"
    "proofHeap s1 = (proofHeap (nodes N i))(nextRef (nodes N i) \<mapsto> ?p)"
    unfolding assms(8) using sign_and_announce_eq [OF _ sign] by blast
  obtain ps where ps: "wires N i j = map (make_reply (nlCodec K) (nlOrder K)) ps" "\<forall>p\<in>set ps. sendable p"
    using sent_replies inv unfolding net_inv_def by metis
  have "wires N1 i j = map (make_reply (nlCodec K) (nlOrder K)) (ps @ [?p])"
    using announce_wire [of "set_node i s1 N" i "nextRef (nodes N i)" ?p K peers j] s1 ps(1)
      filter_one [OF assms(6,7)] by simp
  moreover have "\<forall>p\<in>set (ps @ [?p]). sendable p"
    using ps(2) signed_well [OF assms(1,4) sign] by simp
  ultimately have "\<exists>q. proofHeap (nodes N2 j) (nextRef (nodes N1 j) + length ps) = Some q \<and> same_proof ?p q"
    and "\<forall>r' < nextRef (nodes N1 j). proofHeap (nodes N2 j) r' = proofHeap (nodes N1 j) r'"
    using receive_replies [OF inv1, of i j "ps @ [?p]"] ps(1) unfolding assms(9)
    by (auto dest: spec [of _ "length ps"])
  then show ?thesis
    by (fastforce simp: same_proof_def sig_map_def)
qed

theorem network_delivers_witness:
  "\<exists>N q r. proofHeap (nodes (receive_all sample_net 0 1 1 N) 1) r = Some q
     \<and> rawEpochBlock q = [2] \<and> sig_map q = [keyToAddress sample_crypto 0 \<mapsto> sample_pub 0]"
proof -
  obtain p where p: "createCheckpointProof (nlCodec sample_net) (nlRlp sample_net) (nlTrie sample_net) (nlClient sample_net 0)
     2 2 () = (Ret p, ())" "rawEpochBlock p = [2]"
    using sample_checkpoint by (auto simp: sample_net_def)
  have sign: "ecSign (nlCrypto sample_net) (hashBytes (nlCodec sample_net) (checkpointHash p)) (nlKey sample_net 0)
      = Ret (sample_pub 0)"
    by (simp add: sample_net_def)
  have "nlCrypto sample_net = sample_crypto" "nlKey sample_net 0 = 0" "wires sample_start 0 1 = []"
    by (simp_all add: sample_net_def sample_start_def)
  then show ?thesis
    using network_delivers [OF sample_net_laws sample_net_start rtranclp.rtrancl_refl p(1) sign, of "[1]" 1, OF _ _ refl refl]
      p(2) by fastforce
qed

end
