(* ===== verification/Agreement.thy ===== *)
theory Agreement
  imports Network
begin

text \<open>
  Where the proofs of a network of relayers come from: a second invariant on top of that of theory
  Network. The signature of a proof covers its checkpoint hash only; that the rest of a received proof
  is what its signer has stored is a property of the exchange, and is proved here.
\<close>

section \<open>The origin of a proof\<close>

text \<open>The proof carries one signature, by a relayer of the network that stores the same proof.\<close>

definition origin :: "('t, 'c, 'w) net_libs \<Rightarrow> 'c network \<Rightarrow> checkpointProof \<Rightarrow> bool" where
  "origin K N p \<longleftrightarrow> (\<exists>k s r p0. ecSign (nlCrypto K) (hashBytes (nlCodec K) (checkpointHash p)) (nlKey K k) = Ret s
     \<and> sig_map p = [keyToAddress (nlCrypto K) (nlKey K k) \<mapsto> s]
     \<and> proofHeap (nodes N k) r = Some p0 \<and> same_proof p0 p)"

definition stores_agree :: "('t, 'c, 'w) net_libs \<Rightarrow> 'c network \<Rightarrow> bool" where
  "stores_agree K N \<longleftrightarrow> (\<forall>i r p. proofHeap (nodes N i) r = Some p \<longrightarrow> origin K N p)
     \<and> (\<forall>i j. \<forall>m\<in>set (wires N i j). \<exists>p. m = make_reply (nlCodec K) (nlOrder K) p \<and> sendable p \<and> origin K N p)"

text \<open>Stores only grow, so an origin stays one.\<close>

definition grows :: "'c network \<Rightarrow> 'c network \<Rightarrow> bool" where
  "grows N N' \<longleftrightarrow> (\<forall>i. proofHeap (nodes N i) \<subseteq>\<^sub>m proofHeap (nodes N' i))"

lemma grows_lookup: "grows N N' \<Longrightarrow> proofHeap (nodes N i) r = Some p \<Longrightarrow> proofHeap (nodes N' i) r = Some p"
  unfolding grows_def by (metis domI map_le_def)

lemma origin_grows: "origin K N p \<Longrightarrow> grows N N' \<Longrightarrow> origin K N' p"
  unfolding origin_def by (blast dest: grows_lookup)

lemma same_proof_trans: "same_proof p q \<Longrightarrow> same_proof q r \<Longrightarrow> same_proof p r"
  by (simp add: same_proof_def)

lemma origin_same:
  assumes "origin K N p" and "same_proof p q"
  shows "origin K N q"
proof -
  have eq: "checkpointHash q = checkpointHash p" "sig_map q = sig_map p"
    using assms(2) by (simp_all add: same_proof_def)
  show ?thesis
    using assms(1) same_proof_trans [OF _ assms(2)] unfolding origin_def eq by blast
qed

lemma agree_add:
  assumes "stores_agree K N" and "grows N N'"
    and "\<And>i r p. proofHeap (nodes N' i) r = Some p \<Longrightarrow> proofHeap (nodes N i) r = Some p \<or> origin K N' p"
    and "\<And>i j m. m \<in> set (wires N' i j) \<Longrightarrow> m \<in> set (wires N i j)
           \<or> (\<exists>p. m = make_reply (nlCodec K) (nlOrder K) p \<and> sendable p \<and> origin K N' p)"
  shows "stores_agree K N'"
proof -
  have "origin K N' p" if "proofHeap (nodes N' i) r = Some p" for i r p
    using assms(3) [OF that]
  proof
    assume "proofHeap (nodes N i) r = Some p"
    then have "origin K N p" using assms(1) unfolding stores_agree_def by blast
    then show ?thesis using assms(2) by (rule origin_grows)
  qed
  moreover have "\<exists>p. m = make_reply (nlCodec K) (nlOrder K) p \<and> sendable p \<and> origin K N' p"
    if m: "m \<in> set (wires N' i j)" for i j m
    using assms(4) [OF m]
  proof
    assume "m \<in> set (wires N i j)"
    then obtain p where "m = make_reply (nlCodec K) (nlOrder K) p" "sendable p" "origin K N p"
      using assms(1) unfolding stores_agree_def by blast
    then show ?thesis using origin_grows [OF _ assms(2)] by blast
  qed
  ultimately show ?thesis unfolding stores_agree_def by blast
qed

section \<open>Preservation\<close>

lemma heap_grows_new:
  "service_inv lru content s \<Longrightarrow> proofHeap s \<subseteq>\<^sub>m (proofHeap s)(nextRef s \<mapsto> p)"
  by (auto simp: service_inv_def map_le_def)

lemma agree_receive:
  assumes "net_inv K content pub N" and "stores_agree K N" and "wires N i j \<noteq> []"
  shows "stores_agree K (snd (receive K i j N))"
proof -
  obtain m ms where m: "wires N i j = m # ms" using assms(3) by (cases "wires N i j") auto
  have "m \<in> set (wires N i j)" using m by simp
  then obtain p where p: "m = make_reply (nlCodec K) (nlOrder K) p" "sendable p" "origin K N p"
    using assms(2) unfolding stores_agree_def by blast
  have inv: "service_inv (nlLru K) content (nodes N j)"
    using assms(1) by (simp add: net_inv_def stored_well_def)
  obtain q where q: "same_proof p q"
    "receive K i j N = (Ret (), set_wire i j ms (set_node j (act_on K (Received q) (nodes N j)) N))"
    using receive_reply [OF assms(1) m p(1,2)] by blast
  let ?N = "snd (receive K i j N)"
  note heap = perform_received(1) [OF inv, of "nlOrder K" "nlCodec K" "nlCrypto K" q]
  have grows: "grows N ?N"
    using q(2) heap heap_grows_new [OF inv] by (simp add: grows_def)
  have "origin K ?N q"
    using origin_grows [OF origin_same [OF p(3) q(1)] grows] .
  then show ?thesis
    using q(2) m heap by (intro agree_add [OF assms(2) grows]) (auto split: if_splits)
qed

text \<open>A relayer is the origin of what it has built, signed and stored.\<close>

lemma signed_origin:
  assumes "createCheckpointProof (nlCodec K) (nlRlp K) (nlTrie K) (nlClient K i) e len w = (Ret p, w')"
    and "signCheckpointProof (nlCodec K) (nlCrypto K) (nlKey K i) p = (Ret (), p')"
    and "sendable p'" and "proofHeap (nodes N i) r = Some p'"
  shows "origin K N p'"
proof -
  obtain s where s: "ecSign (nlCrypto K) (hashBytes (nlCodec K) (checkpointHash p)) (nlKey K i) = Ret s"
    "p' = p\<lparr>signatures := Some [(keyToAddress (nlCrypto K) (nlKey K i), s)]\<rparr>"
    using signCheckpointProof_first [OF createCheckpointProof_unsigned [OF assms(1)] assms(2)] by blast
  have "same_proof p' p'"
    using assms(3) by (simp add: same_proof_def sendable_def)
  moreover have "checkpointHash p' = checkpointHash p" "sig_map p' = [keyToAddress (nlCrypto K) (nlKey K i) \<mapsto> s]"
    by (simp_all add: s(2) sig_map_def)
  ultimately show ?thesis
    using s(1) assms(4) unfolding origin_def by metis
qed

lemma agree_sign:
  assumes "net_inv K content pub N" and "stores_agree K N"
    and "createCheckpointProof (nlCodec K) (nlRlp K) (nlTrie K) (nlClient K i) e len w = (Ret p, w')"
  shows "stores_agree K (sign_and_announce K i p peers N)"
proof (cases "signCheckpointProof (nlCodec K) (nlCrypto K) (nlKey K i) p")
  case (Pair res p')
  show ?thesis
  proof (cases res)
    case (Ret u)
    note sign = Pair [unfolded Ret]
    have laws: "net_laws K content pub" and inv: "service_inv (nlLru K) content (nodes N i)"
      using assms(1) by (simp_all add: net_inv_def stored_well_def)
    obtain t where t: "sign_and_announce K i p peers N = announce K i (nextRef (nodes N i)) peers (set_node i t N)"
      "proofHeap t = (proofHeap (nodes N i))(nextRef (nodes N i) \<mapsto> p')"
      using sign_and_announce_eq [OF inv sign] by blast
    let ?N = "sign_and_announce K i p peers N"
    have wires: "nodes ?N = (nodes N)(i := t)"
      "wires ?N a b = (if a = i then wires N a b @ map (\<lambda>_. make_reply (nlCodec K) (nlOrder K) p') (filter (\<lambda>k. k = b) peers)
                       else wires N a b)" for a b
      unfolding t(1) using announce_wire [of "set_node i t N" i "nextRef (nodes N i)" p' K peers b]
        announce_other [of a i K "nextRef (nodes N i)" peers "set_node i t N"] t(2) by auto
    have grows: "grows N ?N"
      using wires(1) t(2) heap_grows_new [OF inv] by (simp add: grows_def)
    have send: "sendable p'" using signed_well [OF laws assms(3)] sign by simp
    have "origin K ?N p'"
      using sign by (intro signed_origin [OF assms(3) _ send, where r = "nextRef (nodes N i)"]) (simp_all add: wires(1) t(2))
    then show ?thesis
      using wires t(2) send by (intro agree_add [OF assms(2) grows]) (auto split: if_splits)
  qed (use assms(2) in \<open>simp_all add: sign_and_announce_def Pair\<close>)
qed

definition agree_inv ::
    "('t, 'c, 'w) net_libs \<Rightarrow> ('c \<Rightarrow> (lru_key \<times> ref) set) \<Rightarrow> (priv_key \<Rightarrow> bytes) \<Rightarrow> 'c network \<Rightarrow> bool" where
  "agree_inv K content pub N \<longleftrightarrow> net_inv K content pub N \<and> stores_agree K N"

interpretation agree: invariant_system "net_begin K content pub" "net_step K" "agree_inv K content pub"
  for K :: "('t, 'c, 'w) net_libs" and content pub
proof unfold_locales
  show "agree_inv K content pub N" if start: "net_begin K content pub N" for N
  proof -
    have "proofHeap (nodes N i) = Map.empty" for i
      using start new_service_empty [of "nlLru K" "nodes N i"] by (simp add: net_begin_def net_start_def)
    then show ?thesis
      using start net.inv_start [OF start] by (simp add: agree_inv_def stores_agree_def net_begin_def net_start_def)
  qed
  show "agree_inv K content pub N'" if both: "agree_inv K content pub N" and step: "net_step K N N'" for N N'
  proof -
    have inv: "net_inv K content pub N" and agree: "stores_agree K N"
      using both by (simp_all add: agree_inv_def)
    have "stores_agree K N'"
      using step
    proof (cases rule: net_step.cases)
      case (signs i e len w p w' peers)
      then show ?thesis using agree_sign [OF inv agree] by simp
    next
      case (receives i j)
      then show ?thesis using agree_receive [OF inv agree] by simp
    next
      case (looks_up i h)
      have heap: "proofHeap (act_on K (Lookup h) s) = proofHeap s" for s
        by (auto simp: perform_def findCheckpointProof_def split: prod.split option.split)
      have "grows N N'"
        using looks_up heap by (simp add: grows_def)
      then show ?thesis
        using looks_up heap by (intro agree_add [OF agree]) (auto split: if_splits)
    next
      case (loses i j)
      have "grows N N'" using loses by (simp add: grows_def)
      then show ?thesis
        using loses by (intro agree_add [OF agree]) (auto split: if_splits)
    qed
    then show ?thesis
      using net.inv_step [OF inv step] by (simp add: agree_inv_def)
  qed
qed

text \<open>The one signature of a stored proof.\<close>

lemma stored_signature:
  assumes "net_laws K content pub" and "net_start K N0" and "(net_step K)\<^sup>*\<^sup>* N0 N"
    and "proofHeap (nodes N i) r = Some p"
  obtains k s r0 p0 where "ecSign (nlCrypto K) (hashBytes (nlCodec K) (checkpointHash p)) (nlKey K k) = Ret s"
    and "sigs_of p = [(keyToAddress (nlCrypto K) (nlKey K k), s)]"
    and "proofHeap (nodes N k) r0 = Some p0" and "same_proof p0 p"
proof -
  have "agree_inv K content pub N"
    by (rule agree.reachable_inv [OF _ assms(3)]) (simp add: net_begin_def assms(1,2))
  then have wf: "wf_map (sigs_of p)" and "origin K N p"
    using assms(4) by (auto simp: agree_inv_def net_inv_def stored_well_def sendable_def wf_proof_def stores_agree_def)
  then obtain k s r0 p0 where s: "ecSign (nlCrypto K) (hashBytes (nlCodec K) (checkpointHash p)) (nlKey K k) = Ret s"
    "map_of (sigs_of p) = [keyToAddress (nlCrypto K) (nlKey K k) \<mapsto> s]"
    "proofHeap (nodes N k) r0 = Some p0" "same_proof p0 p"
    by (auto simp: origin_def sig_map_def)
  then show ?thesis
    using that map_of_singleton [OF wf s(2)] by blast
qed

section \<open>Properties\<close>

text \<open>
  Property C15. Authenticity and agreement in a network of relayers that run this program. Every proof
  that any of them stores, its own or received, has exactly one signer: however many relayers sign the
  same epoch and exchange their signatures, no proof is ever completed to a quorum of two. The signer
  is a relayer of the network, its signature recovers over the checkpoint hash to its key, and it has
  stored the same proof itself, with the same epoch number, raw block and hashes, although the
  signature does not cover all of them.
\<close>

theorem network_authentic:
  assumes "net_laws K content pub" and "net_start K N0" and "(net_step K)\<^sup>*\<^sup>* N0 N"
    and "proofHeap (nodes N i) r = Some p"
  shows "\<exists>k s r0 p0. sigs_of p = [(keyToAddress (nlCrypto K) (nlKey K k), s)]
    \<and> ecrecover (nlCrypto K) (hashBytes (nlCodec K) (checkpointHash p)) s = Ret (pub (nlKey K k))
    \<and> proofHeap (nodes N k) r0 = Some p0 \<and> epochNumber p0 = epochNumber p \<and> rawEpochBlock p0 = rawEpochBlock p
    \<and> blockHash p0 = blockHash p \<and> checkpointHash p0 = checkpointHash p \<and> sig_map p0 = sig_map p"
proof -
  obtain k s r0 p0 where s: "ecSign (nlCrypto K) (hashBytes (nlCodec K) (checkpointHash p)) (nlKey K k) = Ret s"
    "sigs_of p = [(keyToAddress (nlCrypto K) (nlKey K k), s)]" "proofHeap (nodes N k) r0 = Some p0" "same_proof p0 p"
    by (rule stored_signature [OF assms])
  moreover have "ecrecover (nlCrypto K) (hashBytes (nlCodec K) (checkpointHash p)) s = Ret (pub (nlKey K k))"
    by (rule crypto_lawsD(5) [OF net_lawsD(3) [OF assms(1)] s(1)])
  ultimately show ?thesis
    unfolding same_proof_def by metis
qed

lemma sample_net_received:
  assumes "createCheckpointProof (nlCodec sample_net) (nlRlp sample_net) (nlTrie sample_net) (nlClient sample_net 0)
     2 2 () = (Ret p, ())"
  shows "\<exists>N q. (net_step sample_net)\<^sup>*\<^sup>* sample_start N \<and> proofHeap (nodes N 1) 0 = Some q"
proof -
  let ?N = "sign_and_announce sample_net 0 p [1] sample_start"
  have N: "(net_step sample_net)\<^sup>*\<^sup>* sample_start ?N" "wires ?N 0 1 \<noteq> []" "nextRef (nodes ?N 1) = 0"
    using sample_net_announced [OF assms] by blast+
  then have inv: "net_inv sample_net set sample_pub ?N"
    using net_reachable [OF sample_net_laws sample_net_start] by blast
  obtain m ms where m: "wires ?N 0 1 = m # ms" using N(2) by (cases "wires ?N 0 1") auto
  obtain q where q: "receive sample_net 0 1 ?N =
      (Ret (), set_wire 0 1 ms (set_node 1 (act_on sample_net (Received q) (nodes ?N 1)) ?N))"
    using receive_next [OF inv m] by blast
  have "service_inv (nlLru sample_net) set (nodes ?N 1)"
    using inv by (simp add: net_inv_def stored_well_def)
  then have "proofHeap (nodes (snd (receive sample_net 0 1 ?N)) 1) 0 = Some q"
    using q N(3) perform_received(1) by fastforce
  moreover have "(net_step sample_net)\<^sup>*\<^sup>* sample_start (snd (receive sample_net 0 1 ?N))"
    by (rule rtranclp.rtrancl_into_rtrancl [OF N(1) net_step.receives [OF N(2)]])
  ultimately show ?thesis by blast
qed

text \<open>In the sample network relayer 1 has received the proof of relayer 0.\<close>

theorem network_authentic_witness:
  "\<exists>N p k s r0 p0. (net_step sample_net)\<^sup>*\<^sup>* sample_start N \<and> proofHeap (nodes N 1) 0 = Some p \<and> sigs_of p = [(keyToAddress sample_crypto (int k), s)]
     \<and> ecrecover sample_crypto (hashBytes sample_codec (checkpointHash p)) s = Ret (sample_pub (int k))
     \<and> proofHeap (nodes N k) r0 = Some p0 \<and> checkpointHash p0 = checkpointHash p"
proof -
  obtain p where p: "createCheckpointProof (nlCodec sample_net) (nlRlp sample_net) (nlTrie sample_net) (nlClient sample_net 0)
     2 2 () = (Ret p, ())"
    using sample_net_build [of 0] by blast
  obtain N q where q: "(net_step sample_net)\<^sup>*\<^sup>* sample_start N" "proofHeap (nodes N 1) 0 = Some q"
    using sample_net_received [OF p] by blast
  have lib: "nlCrypto sample_net = sample_crypto" "nlCodec sample_net = sample_codec" "nlKey sample_net = int"
    by (simp_all add: sample_net_def)
  show ?thesis
    using network_authentic [OF sample_net_laws sample_net_start q] q unfolding lib by blast
qed

end
