(* ===== verification/HubGaps.thy ===== *)
theory HubGaps
  imports HubSafety Agreement
begin

text \<open>
  The ways around the quorum in \<open>contracts/RelayHub.sol\<close>, as theorems about its functions: the empty
  proof list, the repeated checkpoint signature, and the transition over several epoch blocks; and the
  checkpoints of the relayers' network (\<open>relayer/checkpoint.go\<close>), which no hub accepts.
\<close>

section \<open>Lemmas\<close>

text \<open>An epoch of which nothing is stored has quorum zero.\<close>

lemma quorum_of_empty:
  assumes "set_laws S elems" and "hub_inv elems hub" and "active_set elems (validatorHistories hub chainId) e = {}"
    and "validatorCount (validatorHistories hub chainId) e = 0"
  shows "checkValidatorsAndQuorumReached S hub chainId vs e = Done True"
proof -
  have "indices elems (validatorHistories hub chainId) e (set vs) = {}"
    using assms(3) by (auto simp: indices_def active_list_def filter_empty_conv)
  then show ?thesis
    using checkValidatorsAndQuorumReached_eq [OF assms(1), of hub chainId vs e] assms(2,4) by (simp add: hub_inv_def Let_def)
qed

text \<open>The signatures of one staking validator, repeated.\<close>

lemma check_staked_repeat:
  assumes "evRecover E d signature = Done a" and "stIsValidatorActive st a = Done True"
  shows "check_staked E st d (replicate n signature) = Done ()"
  using assms by (induction n) simp_all

text \<open>The loop over epoch blocks when every proof is one: it takes them all.\<close>

lemma epoch_block_step:
  assumes "chain_laws C pub L E low_s" and "chainId < 2 ^ 64" and "epochLength \<noteq> 0"
    and "bvBlockWithoutQuorum pvf = verifyBlockWithoutQuorum E"
    and "sealed_header C L low_s chainId b" and "whole_validators b" and "epoch_header (ucast epochLength) b"
    and "calldata_element cd offset ptr = Done (header_rlp b)" and "off + 65567 < 2 ^ 256" and "sz + 1 < 2 ^ 256"
  shows "\<exists>off'. off' \<le> off + 65567 \<and> epoch_blocks_loop E' pvf chainId epochLength cd offset ptr i (Suc n) snapshot off sz h =
     (let newSnapshot = evKeccak256 E' (encode_addresses (listed_validators b)); e = word_of_int (hdrNumber b) div ucast epochLength in
      if i = 0 then
        evm_bind (add64 (latestKnownEpoch h) 1) (\<lambda>successor.
        evm_bind (require (e = successor) ''bad epoch transition'') (\<lambda>_.
        epoch_blocks_loop E' pvf chainId epochLength cd offset (evm_add ptr 32) (i + 1) n newSnapshot off' (sz + 1) (h\<lparr>latestKnownEpoch := successor\<rparr>)))
      else
        evm_bind (require (newSnapshot \<noteq> snapshot) ''bad validator snapshot'') (\<lambda>_.
        epoch_blocks_loop E' pvf chainId epochLength cd offset (evm_add ptr 32) (i + 1) n snapshot off' (sz + 1) h))"
proof -
  have len: "length (header_rlp b) \<le> 65535"
    using assms(5) by (auto simp: sealed_header_def wf_header_def)
  have el: "(ucast epochLength :: u64) \<noteq> 0" "(word_of_int (hdrNumber b) :: u64) mod ucast epochLength = 0"
    using assms(3,7) by (simp_all add: epoch_header_def)
  then have block: "verifyBlockWithoutQuorum E chainId (header_rlp b) (ucast epochLength) =
      Done (evKeccak256 E (header_rlp b), listed_validators b, word_of_int (hdrNumber b))"
    using verifyBlockWithoutQuorum_eq [OF assms(1,5,2), of "ucast epochLength"] assms(6,7) by simp
  have "uadd (length (header_rlp b)) 32 = Done (length (header_rlp b) + 32)" "uadd sz 1 = Done (sz + 1)"
    "uadd off (length (header_rlp b) + 32) = Done (off + (length (header_rlp b) + 32))"
    using len assms(9,10) by (simp_all add: uadd_def)
  then show ?thesis
    using block el len assms(4,8)
    by (intro exI [of _ "off + (length (header_rlp b) + 32)"]) (simp add: mod64_def div64_def Let_def)
qed

lemma epoch_blocks_later:
  assumes "chain_laws C pub L E low_s" and "chainId < 2 ^ 64" and "epochLength \<noteq> 0"
    and "bvBlockWithoutQuorum pvf = verifyBlockWithoutQuorum E"
    and "\<forall>b\<in>set hs. sealed_header C L low_s chainId b \<and> whole_validators b \<and> epoch_header (ucast epochLength) b
           \<and> evKeccak256 E' (encode_addresses (listed_validators b)) \<noteq> snapshot"
    and "calldata_elements cd offset ptr (length hs) = Done (map header_rlp hs)"
    and "off + length hs * 65567 < 2 ^ 255" and "sz + length hs < 2 ^ 255" and "0 < i"
  shows "\<exists>off'. epoch_blocks_loop E' pvf chainId epochLength cd offset ptr i (length hs) snapshot off sz h = Done (off', sz + length hs, h)"
  using assms(5-)
proof (induction hs arbitrary: ptr off sz i)
  case (Cons b hs)
  have b: "sealed_header C L low_s chainId b" "whole_validators b" "epoch_header (ucast epochLength) b"
    "evKeccak256 E' (encode_addresses (listed_validators b)) \<noteq> snapshot"
    using Cons.prems(1) by simp_all
  have element: "calldata_element cd offset ptr = Done (header_rlp b)"
    "calldata_elements cd offset (evm_add ptr 32) (length hs) = Done (map header_rlp hs)"
    using Cons.prems(2) by (auto simp: evm_inv)
  have "off + 65567 < 2 ^ 256" "sz + 1 < 2 ^ 256"
    using Cons.prems(3,4) by simp_all
  from epoch_block_step [OF assms(1-4) b(1-3) element(1) this, of E' i "length hs" snapshot h]
  obtain off' where step: "off' \<le> off + 65567" "epoch_blocks_loop E' pvf chainId epochLength cd offset ptr i (length (b # hs)) snapshot off sz h =
      epoch_blocks_loop E' pvf chainId epochLength cd offset (evm_add ptr 32) (i + 1) (length hs) snapshot off' (sz + 1) h"
    using b(4) Cons.prems(5) by (auto simp: Let_def)
  have "off' + length hs * 65567 < 2 ^ 255" "sz + 1 + length hs < 2 ^ 255"
    using step(1) Cons.prems(3,4) by simp_all
  then show ?case
    using Cons.IH [OF _ element(2), of off' "sz + 1" "i + 1"] Cons.prems(1) step(2) by simp
qed simp

text \<open>The calldata of an array of one element.\<close>

lemma single_array:
  assumes "length x < 2 ^ 64"
  shows "calldata_element (be_fixed 32 32 @ be_fixed 32 (length x) @ x) 0 0 = Done x"
proof -
  let ?cd = "be_fixed 32 32 @ be_fixed 32 (length x) @ x"
  have "lies ?cd 0 (be_fixed 32 32)" "lies ?cd 32 (be_fixed 32 (length x))" "lies ?cd 64 x"
    by (simp_all add: lies_def del: be_fixed.simps)
  then have "calldataload ?cd 0 = 32" "calldataload ?cd 32 = length x" "cd_slice ?cd 64 (length x) = x"
    using assms lies_slice [of ?cd 0 "be_fixed 32 32"] lies_slice [of ?cd 32 "be_fixed 32 (length x)"] lies_slice [of ?cd 64 x]
    by (simp_all add: calldataload_def be_val_fixed del: be_fixed.simps)
  then show ?thesis
    using assms by (simp add: calldata_element_def Let_def evm_add_def evm_sub_le signed256_def del: be_fixed.simps)
qed

section \<open>Properties\<close>

text \<open>
  Property C9. The empty list of block proofs. Whatever a chain has come to, anyone can reset it: the
  Parlia verifier takes the empty list for an epoch block of number zero, for which no quorum is asked. The
  validators of epoch zero are then nobody, so that any block of epoch one, sealed by anyone, sets the
  validators that it lists. (The addresses known to the hub and those listed fit into the allocated buckets.)
\<close>

theorem hub_takeover:
  assumes "set_laws (envSets env) elems" and "hub_inv elems hub" and "chain_laws C pub L E low_s" and "chainId < 2 ^ 64"
    and "b = registeredChains hub chainId" and "chainStatus b \<noteq> NotFound" and "basEpochLength b \<noteq> 0"
    and "bvValidatorTransition (verifier_of env hub (verificationFunction b)) = verifyValidatorTransition E"
    and "sealed_header C L low_s chainId h" and "whole_validators h" and "hdrNumber h = uint (basEpochLength b)"
    and "all = elems (allValidators (validatorHistories hub chainId))" and "length (add_all all (listed_validators h)) \<le> room all"
  shows "\<exists>hub1 hub2. updateValidatorSet env chainId [] hub = Done hub1 \<and> getLatestTransitionedEpoch hub1 chainId = 0
    \<and> active_set elems (validatorHistories hub1 chainId) 0 = {}
    \<and> updateValidatorSet env chainId [header_rlp h] hub1 = Done hub2 \<and> getLatestTransitionedEpoch hub2 chainId = 1
    \<and> active_set elems (validatorHistories hub2 chainId) 1 = set (listed_validators h)"
proof -
  let ?el = "basEpochLength b"
  have number: "(word_of_int (hdrNumber h) :: u64) = ucast ?el"
    using assms(11) by (simp add: unsigned_ucast_eq)
  have one: "(ucast ?el :: u64) div ucast ?el = 1"
    using assms(7) by (simp add: div_word_self)
  have "verifyValidatorTransition E chainId [] ?el (checkValidatorsAndQuorumReached (envSets env) hub) = Done ([], 0)"
    using verifyValidatorTransition_Nil assms(7) .
  then have reset: "bvValidatorTransition (verifier_of env hub (verificationFunction (registeredChains hub chainId))) chainId []
      (basEpochLength (registeredChains hub chainId)) (checkValidatorsAndQuorumReached (envSets env) hub) = Done ([], 0)"
    using assms(5,8) by simp
  obtain hub1 where hub1: "updateValidatorSet env chainId [] hub = Done hub1" "hub_inv elems hub1"
    "getLatestTransitionedEpoch hub1 chainId = 0" "active_set elems (validatorHistories hub1 chainId) 0 = {}"
    "validatorCount (validatorHistories hub1 chainId) 0 = 0" "elems (allValidators (validatorHistories hub1 chainId)) = all"
    "registeredChains hub1 chainId = b\<lparr>chainStatus := Active\<rparr>" "defaultVerificationFunction hub1 = defaultVerificationFunction hub"
    by (rule updateValidatorSet_stores [OF assms(1,2) _ reset]) (use assms(5,6,12) length_le_room in \<open>auto simp: successor_epoch_def\<close>)
  have "verifyValidatorTransition E chainId (map header_rlp [h]) ?el (checkValidatorsAndQuorumReached (envSets env) hub1) =
      Done (listed_validators h, 1)"
    using assms(7,9,10,11) number one quorum_of_empty [OF assms(1) hub1(2,4,5)]
    by (intro verifyValidatorTransition_headers [OF assms(3,4)])
       (auto simp: good_headers_def linked_def epoch_header_def uint_0_iff)
  moreover have "verifier_of env hub1 (verificationFunction b) = verifier_of env hub (verificationFunction b)"
    using hub1(8) by (simp add: verifier_of_def)
  ultimately have install: "bvValidatorTransition (verifier_of env hub1 (verificationFunction (registeredChains hub1 chainId))) chainId [header_rlp h]
      (basEpochLength (registeredChains hub1 chainId)) (checkValidatorsAndQuorumReached (envSets env) hub1) = Done (listed_validators h, 1)"
    using hub1(7) assms(8) by simp
  obtain hub2 where "updateValidatorSet env chainId [header_rlp h] hub1 = Done hub2" "getLatestTransitionedEpoch hub2 chainId = 1"
    "active_set elems (validatorHistories hub2 chainId) 1 = set (listed_validators h)"
    by (rule updateValidatorSet_stores [OF assms(1) hub1(2) _ install])
       (use hub1(3,6,7) assms(13) in \<open>auto simp: successor_epoch_def getLatestTransitionedEpoch_def\<close>)
  then show ?thesis
    using hub1(1,3,4) by blast
qed

text \<open>The chain in its fifth epoch falls to a single sealer, who lists himself.\<close>

theorem hub_takeover_witness:
  "\<exists>hub1 hub2. updateValidatorSet sample_env 97 [] sample_hub = Done hub1 \<and> getLatestTransitionedEpoch hub1 97 = 0
    \<and> active_set id (validatorHistories hub1 97) 0 = {}
    \<and> updateValidatorSet sample_env 97 [header_rlp (chain_header (replicate 32 0) 200 [0] 0)] hub1 = Done hub2
    \<and> getLatestTransitionedEpoch hub2 97 = 1 \<and> active_set id (validatorHistories hub2 97) 1 = {sample_address 0}"
proof -
  let ?h = "chain_header (replicate 32 0) 200 [0] 0"
  have sealed: "sealed_header sample_crypto chain_rlp (\<lambda>_. True) 97 ?h"
    by (rule chain_header_sealed) simp_all
  have "hdrNumber ?h = uint (basEpochLength (registeredChains sample_hub 97))"
    by (simp add: chain_header_def sample_header_def sample_hub_def)
  from hub_takeover [where env = sample_env and elems = id, OF _ sample_hub_inv sample_chain_laws _ refl _ _ _ sealed _ this refl]
  show ?thesis
    using sample_sets_laws by (simp add: chain_header_listed sample_hub_def new_bas_def room_def)
qed

text \<open>
  Property C29. A checkpoint of the BSC counts signatures and not signers: when one staking validator has
  signed, his signature, repeated as often as there are validators, moves the chain to any epoch block,
  sealed by anyone, of an epoch that the hub takes next (the one after the latest, epoch zero, or any epoch
  when the latest is zero), and sets the validators that this block lists. (The addresses known to the hub and those listed fit into the buckets.)
\<close>

theorem checkpointTransition_one_signer:
  assumes "set_laws (envSets env) elems" and "hub_inv elems hub" and "chain_laws C pub L E low_s" and "chainId < 2 ^ 64"
    and "b = registeredChains hub chainId" and "chainStatus b \<noteq> NotFound" and "basEpochLength b \<noteq> 0" and "chainType b = BSC"
    and "bvBlockWithoutQuorum (verifier_of env hub (verificationFunction b)) = verifyBlockWithoutQuorum E"
    and "sealed_header C L low_s chainId h" and "whole_validators h" and "epoch_header (ucast (basEpochLength b)) h"
    and "e = word_of_int (hdrNumber h) div ucast (basEpochLength b)" and "successor_epoch (validatorHistories hub chainId) e"
    and "all = elems (allValidators (validatorHistories hub chainId))" and "length (add_all all (listed_validators h)) \<le> room all"
    and "st = envStaking env (stakingContract hub)" and "stGetValidators st = Done validators"
    and "evRecover (envEvm env) (evKeccak256 (envEvm env) (evKeccak256 E (header_rlp h) @ cp)) signature = Done a"
    and "stIsValidatorActive st a = Done True"
  shows "\<exists>hub'. checkpointTransition env chainId (header_rlp h) cp (replicate (length validators) signature) hub = Done hub'
    \<and> getLatestTransitionedEpoch hub' chainId = e
    \<and> active_set elems (validatorHistories hub' chainId) e = set (listed_validators h)"
proof -
  have block: "verifyBlockWithoutQuorum E chainId (header_rlp h) (ucast (basEpochLength b)) =
      Done (evKeccak256 E (header_rlp h), listed_validators h, word_of_int (hdrNumber h))"
    using verifyBlockWithoutQuorum_eq [OF assms(3,10,4)] assms(7,11,12) by simp
  have "check_signatures env hub chainId BSC (evKeccak256 E (header_rlp h)) cp e (replicate (length validators) signature) = Done ()"
    using check_staked_repeat [OF assms(19,20)] assms(17,18) by (simp add: check_signatures_def Let_def)
  moreover have "active_chain b = Done ()"
    using assms(6) by (cases "chainStatus b") (simp_all add: active_chain_def)
  moreover have "history_inv elems (validatorHistories hub chainId)"
    using assms(2) by (simp add: hub_inv_def)
  from updateActiveValidatorSet_eq [OF assms(1) this assms(14), of "listed_validators h"] assms(15,16)
  obtain h' where "updateActiveValidatorSet (envSets env) (validatorHistories hub chainId) (listed_validators h) e = Done h'"
    "active_set elems h' e = set (listed_validators h)" "latestKnownEpoch h' = e"
    by (auto simp: Let_def)
  ultimately show ?thesis
    using block assms(5,7-9,13)
    by (simp add: checkpointTransition_def Let_def div64_def getLatestTransitionedEpoch_def active_list_def)
qed

text \<open>Three validators are staked, and the first of them signs.\<close>

theorem checkpointTransition_one_signer_witness:
  "\<exists>hub'. checkpointTransition sample_env 97 (header_rlp (chain_header (replicate 32 0) 1200 [7] 0)) (replicate 32 0)
       (replicate 3 ((sample_pub 1)[64 := sample_pub 1 ! 64 + 27])) sample_hub = Done hub'
    \<and> getLatestTransitionedEpoch hub' 97 = 6 \<and> active_set id (validatorHistories hub' 97) 6 = {sample_address 7}"
proof -
  let ?h = "chain_header (replicate 32 0) 1200 [7] 0"
  let ?sig = "(sample_pub 1)[64 := sample_pub 1 ! 64 + 27]"
  have sealed: "sealed_header sample_crypto chain_rlp (\<lambda>_. True) 97 ?h"
    by (rule chain_header_sealed) simp_all
  have number: "hdrNumber ?h = 1200"
    by (simp add: chain_header_def sample_header_def)
  have "evRecover sample_evm d ?sig = Done (sample_address 1)" for d
    by (simp add: sample_evm_def sample_pub_def sample_address_def sample_fit_def nth_append list_update_append)
  moreover have "stGetValidators (envStaking sample_env a) = Done (map sample_address [1, 2, 3])"
    "stIsValidatorActive (envStaking sample_env a) (sample_address 1) = Done True" for a
    by (simp_all add: sample_env_def)
  moreover have "registeredChains sample_hub 97 = new_bas\<lparr>chainStatus := Active, basEpochLength := 200\<rparr>"
    "validatorHistories sample_hub 97 = (new_history sample_sets)\<lparr>latestKnownEpoch := 5\<rparr>"
    by (simp_all add: sample_hub_def)
  ultimately show ?thesis
    using checkpointTransition_one_signer [where env = sample_env and elems = id and signature = ?sig and a = "sample_address 1"
        and cp = "replicate 32 0", OF _ sample_hub_inv sample_chain_laws _ refl _ _ _ _ sealed _ _ refl _ refl _ refl]
      sample_sets_laws number
    by (simp add: chain_header_listed new_bas_def room_def epoch_header_def successor_epoch_def numeral_3_eq_3)
qed

text \<open>
  Property C28. The transition over several epoch blocks resets a chain. Take any blocks of which each is an
  epoch block, sealed by anyone, the first of the epoch that follows, with other validators than all later
  ones, in calldata of any layout. All of them are skipped, so that the empty list is left for the Parlia
  verifier: the call succeeds, no quorum is asked for, and the chain is back in epoch zero, without validators.
\<close>

theorem updateValidatorSetUsingEpochBlocks_resets:
  assumes "set_laws (envSets env) elems" and "hub_inv elems hub" and "chain_laws C pub L E low_s" and "chainId < 2 ^ 64"
    and "b = registeredChains hub chainId" and "chainStatus b \<noteq> NotFound" and "basEpochLength b \<noteq> 0"
    and "verifier_of env hub (verificationFunction b) = parlia_verifier E receiptProof"
    and "\<forall>h\<in>set (h0 # hs). sealed_header C L low_s chainId h \<and> whole_validators h \<and> epoch_header (ucast (basEpochLength b)) h"
    and "word_of_int (hdrNumber h0) div ucast (basEpochLength b) = getLatestTransitionedEpoch hub chainId + 1"
    and "unat (getLatestTransitionedEpoch hub chainId) + 1 < 2 ^ 64"
    and "\<forall>h\<in>set hs. evKeccak256 (envEvm env) (encode_addresses (listed_validators h))
                       \<noteq> evKeccak256 (envEvm env) (encode_addresses (listed_validators h0))"
    and "n = length (h0 # hs)" and "n < 2 ^ 40" and "offset + 32 * n \<le> length cd"
    and "calldata_array cd offset n = Done (map header_rlp (h0 # hs))"
  shows "\<exists>hub'. updateValidatorSetUsingEpochBlocks env chainId cd offset n hub = Done hub'
    \<and> getLatestTransitionedEpoch hub' chainId = 0 \<and> active_set elems (validatorHistories hub' chainId) 0 = {}"
proof -
  let ?el = "basEpochLength b" and ?pvf = "parlia_verifier E receiptProof" and ?h = "validatorHistories hub chainId"
  have "0 < n"
    using assms(13) by simp
  obtain h' where inv: "h' = ?h\<lparr>latestKnownEpoch := latestKnownEpoch ?h + 1\<rparr>" "history_inv elems h'"
    using assms(2) by (simp add: hub_inv_def history_inv_def)
  have h0: "sealed_header C L low_s chainId h0" "whole_validators h0" "epoch_header (ucast ?el) h0"
    using assms(9) by simp_all
  have pvf: "bvBlockWithoutQuorum ?pvf = verifyBlockWithoutQuorum E"
    by simp
  have element: "calldata_element cd offset offset = Done (header_rlp h0)"
    "calldata_elements cd offset (evm_add offset 32) (length hs) = Done (map header_rlp hs)"
    using assms(16) by (auto simp: assms(13) calldata_array_def evm_inv)
  have succ: "add64 (latestKnownEpoch ?h) 1 = Done (latestKnownEpoch ?h + 1)"
    using assms(11) by (simp add: add64_def getLatestTransitionedEpoch_def)
  obtain off where first: "off \<le> 65567" "epoch_blocks_loop (envEvm env) ?pvf chainId ?el cd offset offset 0 n (replicate 32 0) 0 0 ?h =
      epoch_blocks_loop (envEvm env) ?pvf chainId ?el cd offset (evm_add offset 32) 1 (length hs)
        (evKeccak256 (envEvm env) (encode_addresses (listed_validators h0))) off 1 h'"
    using epoch_block_step [OF assms(3,4,7) pvf h0 element(1), of 0 0 "envEvm env" 0 "length hs" "replicate 32 0" ?h]
      succ assms(10) inv(1) by (auto simp: assms(13) Let_def getLatestTransitionedEpoch_def)
  have "off + length hs * 65567 < 2 ^ 255" "1 + length hs < 2 ^ 255"
    using first(1) assms(13,14) by simp_all
  then obtain off' where loop: "epoch_blocks_loop (envEvm env) ?pvf chainId ?el cd offset offset 0 n (replicate 32 0) 0 0 ?h = Done (off', n, h')"
    using epoch_blocks_later [OF assms(3,4,7) pvf _ element(2), of "envEvm env" "evKeccak256 (envEvm env) (encode_addresses (listed_validators h0))"
        off 1 1 h'] assms(9,12) first(2) by (auto simp: assms(13))
  have shifted: "proofs_with_offset cd offset n off' n = Done []"
    by (simp add: proofs_with_offset_def calldata_array_def evm_sub_def)
  have "successor_epoch h' 0"
    by (simp add: successor_epoch_def)
  from updateActiveValidatorSet_eq [OF assms(1) inv(2) this, of "[]"]
  obtain h2 where h2: "updateActiveValidatorSet (envSets env) h' [] 0 = Done h2" "active_set elems h2 0 = {}" "latestKnownEpoch h2 = 0"
    using length_le_room by (auto simp: Let_def)
  moreover have "active_chain b = Done ()"
    using assms(6) by (cases "chainStatus b") (simp_all add: active_chain_def)
  ultimately show ?thesis
    using loop shifted verifyValidatorTransition_Nil [OF assms(7)] assms(5,8,15)
    by (simp add: updateValidatorSetUsingEpochBlocks_def Let_def getLatestTransitionedEpoch_def)
qed

text \<open>One epoch block, of the epoch that follows.\<close>

theorem updateValidatorSetUsingEpochBlocks_resets_witness:
  "\<exists>cd hub'. updateValidatorSetUsingEpochBlocks sample_env 97 cd 0 1 sample_hub = Done hub'
    \<and> calldata_array cd 0 1 = Done [header_rlp (chain_header (replicate 32 0) 1200 [7] 0)]
    \<and> getLatestTransitionedEpoch hub' 97 = 0 \<and> active_set id (validatorHistories hub' 97) 0 = {}"
proof -
  let ?h = "chain_header (replicate 32 0) 1200 [7] 0"
  let ?cd = "be_fixed 32 32 @ be_fixed 32 (length (header_rlp ?h)) @ header_rlp ?h"
  have sealed: "sealed_header sample_crypto chain_rlp (\<lambda>_. True) 97 ?h"
    by (rule chain_header_sealed) simp_all
  have number: "hdrNumber ?h = 1200"
    by (simp add: chain_header_def sample_header_def)
  have "length (header_rlp ?h) < 2 ^ 64"
    using sealed by (auto simp: sealed_header_def wf_header_def)
  then have array: "calldata_array ?cd 0 1 = Done (map header_rlp [?h])"
    using single_array by (simp add: calldata_array_def del: be_fixed.simps)
  have el: "basEpochLength (registeredChains sample_hub 97) = 200" "chainStatus (registeredChains sample_hub 97) = Active"
    "getLatestTransitionedEpoch sample_hub 97 = 5"
    by (simp_all add: sample_hub_def getLatestTransitionedEpoch_def)
  have "verifier_of sample_env sample_hub f = parlia_verifier sample_evm (\<lambda>_ _ _ _. Done True)" for f
    by simp
  from updateValidatorSetUsingEpochBlocks_resets [where env = sample_env and elems = id and chainId = 97 and cd = ?cd and offset = 0 and n = 1
      and ?h0.0 = ?h and hs = "[]", OF _ sample_hub_inv sample_chain_laws _ refl _ _ this]
  obtain hub' where "updateValidatorSetUsingEpochBlocks sample_env 97 ?cd 0 1 sample_hub = Done hub'"
    "getLatestTransitionedEpoch hub' 97 = 0" "active_set id (validatorHistories hub' 97) 0 = {}"
    using sealed sample_sets_laws array by (auto simp: el number chain_header_listed epoch_header_def simp del: be_fixed.simps)
  then show ?thesis
    using array by auto
qed

text \<open>Documented: Go's \<open>Sign\<close> puts the recovery id, zero or one, into the last of 65 bytes, and \<open>ECDSA.recover\<close>
  reverts for a signature of 65 bytes unless the last byte is 27 or 28.\<close>

definition signature_laws :: "crypto_lib \<Rightarrow> evm_lib \<Rightarrow> bool" where
  "signature_laws C E \<longleftrightarrow> (\<forall>d k s. ecSign C d k = Ret s \<longrightarrow> length s = 65 \<and> s ! 64 \<in> {0, 1})
     \<and> (\<forall>d s. length s = 65 \<and> s ! 64 \<notin> {27, 28} \<longrightarrow> (\<exists>e. evRecover E d s = Revert e))"

lemma check_signatures_recover:
  "check_signatures env hub chainId ctype bh cp e (s # rest) = Done () \<Longrightarrow>
     \<exists>a. evRecover (envEvm env) (evKeccak256 (envEvm env) (bh @ cp)) s = Done a"
  by (auto simp: check_signatures_def Let_def evm_inv split: chain_type.splits)

text \<open>
  Property C8. The checkpoints of the network never pass. Whatever a network of relayers signs, exchanges
  and stores, the transaction that a relayer sends for a stored proof, its raw block, its checkpoint hash
  and the values of its signatures, reverts on every hub in every state: the signatures are sent with the
  recovery id as Go writes it.
\<close>

theorem network_checkpoints_rejected:
  assumes "net_laws K content pub" and "net_start K N0" and "(net_step K)\<^sup>*\<^sup>* N0 N"
    and "proofHeap (nodes N i) r = Some p" and "signature_laws (nlCrypto K) (envEvm env)"
  shows "\<exists>err. checkpointTransition env chainId (rawEpochBlock p) (checkpointHash p)
      (mappingValues (nlOrder K) (sigs_of p)) hub = Revert err"
proof -
  obtain k s where s: "ecSign (nlCrypto K) (hashBytes (nlCodec K) (checkpointHash p)) (nlKey K k) = Ret s"
    "sigs_of p = [(keyToAddress (nlCrypto K) (nlKey K k), s)]"
    by (rule stored_signature [OF assms(1-4)])
  then have "mset (nlOrder K (sigs_of p)) = {#(keyToAddress (nlCrypto K) (nlKey K k), s)#}"
    using net_lawsD(4) [OF assms(1)] by (simp add: range_order_def)
  then have sent: "mappingValues (nlOrder K) (sigs_of p) = [s]"
    by simp
  have "length s = 65" "s ! 64 \<in> {0, 1}"
    using assms(5) s(1) unfolding signature_laws_def by blast+
  then have "length s = 65 \<and> s ! 64 \<notin> {27, 28}"
    by auto
  then have "\<exists>e. evRecover (envEvm env) d s = Revert e" for d
    using assms(5) unfolding signature_laws_def by blast
  then have "check_signatures env hub chainId ctype bh cp e [s] \<noteq> Done ()" for ctype bh cp e
    using check_signatures_recover by (metis evm.distinct(1))
  then have "checkpointTransition env chainId (rawEpochBlock p) (checkpointHash p) [s] hub \<noteq> Done hub'" for hub'
    by (auto simp: checkpointTransition_def evm_inv Let_def)
  then show ?thesis
    unfolding sent by (metis evm.exhaust)
qed

text \<open>Relayer 0 has signed and stored a proof in a network of two signing relayers.\<close>

definition signing_crypto :: crypto_lib where
  "signing_crypto = sample_crypto\<lparr>ecSign := (\<lambda>d k. if k \<in> {0, 1} then Ret (sample_pub k) else Fail (LibError ''invalid key''))\<rparr>"

definition signing_net :: "((bytes \<times> bytes) list, (lru_key \<times> ref) list, unit) net_libs" where
  "signing_net = sample_net\<lparr>nlCrypto := signing_crypto\<rparr>"

lemma signing_net_laws: "net_laws signing_net set sample_pub" "net_start signing_net sample_start"
    "signature_laws signing_crypto sample_evm"
proof -
  have "crypto_laws signing_crypto sample_pub"
    using sample_crypto_laws by (auto simp: crypto_laws_def signing_crypto_def)
  then show "net_laws signing_net set sample_pub" "net_start signing_net sample_start"
    using sample_net_laws sample_net_start by (simp_all add: net_laws_def net_start_def signing_net_def)
  show "signature_laws signing_crypto sample_evm"
    by (auto simp: signature_laws_def signing_crypto_def sample_pub_def sample_evm_def nth_append)
qed

theorem network_checkpoints_rejected_witness:
  "\<exists>N p err. (net_step signing_net)\<^sup>*\<^sup>* sample_start N \<and> proofHeap (nodes N 0) 0 = Some p
    \<and> checkpointTransition sample_env 97 (rawEpochBlock p) (checkpointHash p) (mappingValues rev (sigs_of p)) sample_hub = Revert err"
proof -
  have lib: "nlCodec signing_net = nlCodec sample_net" "nlRlp signing_net = nlRlp sample_net" "nlTrie signing_net = nlTrie sample_net"
    "nlClient signing_net = nlClient sample_net" "nlCrypto signing_net = signing_crypto" "nlOrder signing_net = rev" "nlKey signing_net 0 = 0"
    by (simp_all add: signing_net_def) (simp_all add: sample_net_def)
  obtain p where p: "createCheckpointProof (nlCodec signing_net) (nlRlp signing_net) (nlTrie signing_net) (nlClient signing_net 0)
     2 2 () = (Ret p, ())"
    using sample_net_build [of 0] unfolding lib by blast
  let ?N = "sign_and_announce signing_net 0 p [] sample_start"
  have step: "(net_step signing_net)\<^sup>*\<^sup>* sample_start ?N"
    using net_step.signs [OF p] by blast
  have "service_inv (nlLru signing_net) set (nodes sample_start 0)"
    using net_reachable [OF signing_net_laws(1,2) rtranclp.rtrancl_refl] by (simp add: net_inv_def stored_well_def)
  moreover obtain p' where "signCheckpointProof (nlCodec signing_net) (nlCrypto signing_net) (nlKey signing_net 0) p = (Ret (), p')"
    using createCheckpointProof_unsigned [OF p] by (simp add: signCheckpointProof_def lib signing_crypto_def Let_def sigs_of_def)
  ultimately obtain s where "?N = announce signing_net 0 (nextRef (nodes sample_start 0)) [] (set_node 0 s sample_start)"
    "proofHeap s = (proofHeap (nodes sample_start 0))(nextRef (nodes sample_start 0) \<mapsto> p')"
    using sign_and_announce_eq by blast
  then have stored: "proofHeap (nodes ?N 0) 0 = Some p'"
    by (simp add: sample_start_def sample_service_def)
  have "signature_laws (nlCrypto signing_net) (envEvm sample_env)"
    using signing_net_laws(3) lib by simp
  from network_checkpoints_rejected [OF signing_net_laws(1,2) step stored this, of 97 sample_hub]
  show ?thesis
    using step stored unfolding lib by blast
qed

end
