(* ===== verification/Acceptance.thy ===== *)
theory Acceptance
  imports HubSafety BlockProofs
begin

text \<open>
  Relayer and contract together: the block proofs that \<open>relayer/proof.go\<close> creates from an honest node are
  accepted by \<open>contracts/RelayHub.sol\<close> with its Parlia verifier, epoch after epoch.
\<close>

section \<open>An honest chain\<close>

text \<open>An honest chain, as a map from block numbers to headers, and a node that serves its blocks whenever it
  answers.\<close>

definition honest_chain :: "evm_lib \<Rightarrow> (bytes \<Rightarrow> bool) \<Rightarrow> u64 \<Rightarrow> (u64 \<Rightarrow> header) \<Rightarrow> bool" where
  "honest_chain E low_s epochLength chain \<longleftrightarrow>
     (\<forall>i. wf_header (chain i) \<and> hdrNumber (chain i) = uint i
        \<and> (i \<noteq> 0 \<longrightarrow> canonical_seal low_s (chain i) \<and> hdrParentHash (chain i) = evKeccak256 E (header_rlp (chain (i - 1))))
        \<and> (i mod epochLength = 0 \<longrightarrow> whole_validators (chain i)))"

definition serves :: "'w eth_client \<Rightarrow> nat \<Rightarrow> (u64 \<Rightarrow> header) \<Rightarrow> bool" where
  "serves client chainId chain \<longleftrightarrow>
     (\<forall>w c w'. ethChainID client w = (Ret c, w') \<longrightarrow> c = int chainId)
     \<and> (\<forall>i w b w'. fetch_block client i w = (Ret b, w') \<longrightarrow> blkHeader b = chain i \<and> blkCoinbase b = hdrCoinbase (chain i))"

lemma serves_run:
  assumes "serves client chainId chain" and "fetch_run client n i w = (Ret blocks, w')"
  shows "map blkHeader blocks = map (\<lambda>k. chain (i + word_of_nat k)) [0..<n]"
    and "\<forall>b\<in>set blocks. blkCoinbase b = hdrCoinbase (blkHeader b)"
proof -
  have "map blkHeader blocks = map (\<lambda>k. chain (i + word_of_nat k)) [0..<n] \<and> (\<forall>b\<in>set blocks. blkCoinbase b = hdrCoinbase (blkHeader b))"
    using assms(2)
  proof (induction n arbitrary: i w blocks)
    case (Suc n)
    obtain b w1 bs where b: "fetch_block client i w = (Ret b, w1)" "fetch_run client n (i + 1) w1 = (Ret bs, w')" "blocks = b # bs"
      using Suc.prems by (auto simp: io_inv)
    have "map (\<lambda>k. chain (i + word_of_nat k)) [0..<Suc n] = chain i # map (\<lambda>k. chain (i + 1 + word_of_nat k)) [0..<n]"
      unfolding upt_conv_Cons [OF zero_less_Suc] map_Suc_upt [symmetric] by (simp add: add.assoc)
    moreover have "blkHeader b = chain i \<and> blkCoinbase b = hdrCoinbase (chain i)"
      using assms(1) b(1) unfolding serves_def by blast
    ultimately show ?case
      using Suc.IH [OF b(2)] b(3) by simp
  qed (simp add: io_inv)
  then show "map blkHeader blocks = map (\<lambda>k. chain (i + word_of_nat k)) [0..<n]"
    "\<forall>b\<in>set blocks. blkCoinbase b = hdrCoinbase (blkHeader b)"
    by blast+
qed

section \<open>One epoch\<close>

definition validators_at :: "(u64 \<Rightarrow> header) \<Rightarrow> u32 \<Rightarrow> u64 \<Rightarrow> address list" where
  "validators_at chain epochLength e = listed_validators (chain (e * ucast epochLength))"

text \<open>The hub has followed the chain up to epoch \<open>e\<close>, and knows only validators of \<open>V\<close>.\<close>

definition in_sync ::
    "'es hub_env \<Rightarrow> ('es \<Rightarrow> address list) \<Rightarrow> evm_lib \<Rightarrow> address set \<Rightarrow> nat \<Rightarrow> u32 \<Rightarrow> (u64 \<Rightarrow> header) \<Rightarrow> u64 \<Rightarrow> 'es relay_hub \<Rightarrow> bool" where
  "in_sync env elems E V chainId epochLength chain e hub \<longleftrightarrow>
     (let b = registeredChains hub chainId; h = validatorHistories hub chainId in
      hub_inv elems hub \<and> chainStatus b \<noteq> NotFound \<and> basEpochLength b = epochLength
      \<and> bvValidatorTransition (verifier_of env hub (verificationFunction b)) = verifyValidatorTransition E
      \<and> getLatestTransitionedEpoch hub chainId = e \<and> set (elems (allValidators h)) \<subseteq> V
      \<and> active_set elems h e = set (validators_at chain epochLength e)
      \<and> validatorCount h e = word_of_nat (length (validators_at chain epochLength e)))"

text \<open>The proofs that the relayer creates for the epoch after \<open>e\<close>; the sealers of their blocks are
  validators of epoch \<open>e\<close>.\<close>

definition epoch_proofs ::
    "codec_lib \<Rightarrow> crypto_lib \<Rightarrow> rlp_lib \<Rightarrow> 'w eth_client \<Rightarrow> (u64 \<Rightarrow> header) \<Rightarrow> u32 \<Rightarrow> u64 \<Rightarrow> bytes list \<Rightarrow> bool" where
  "epoch_proofs cd C L client chain epochLength e proofs \<longleftrightarrow>
     (\<exists>w w'. createBlockProofs cd C L client ((e + 1) * ucast epochLength) (ucast epochLength) w = (Ret proofs, w'))
     \<and> (\<forall>k < length proofs. hdrCoinbase (chain ((e + 1) * ucast epochLength + word_of_nat k)) \<in> set (validators_at chain epochLength e))"

lemma listed_few: "wf_header h \<Longrightarrow> length (listed_validators h) < 65536"
proof -
  assume wf: "wf_header h"
  have "length (hdrExtra h) \<le> length (rlp_string (hdrExtra h))"
    by (simp add: rlp_string_def)
  also have "\<dots> \<le> length (concat (map rlp_string (header_payloads h)))"
    by (simp add: header_payloads_def)
  also have "\<dots> \<le> length (rlp_of (header_payloads h))"
    by (simp add: rlp_of_def rlp_list_def Let_def)
  finally have "length (hdrExtra h) \<le> 65535"
    using wf by (simp add: wf_header_def)
  then have "(length (hdrExtra h) - 97) div 20 < 65536"
    by linarith
  then show ?thesis
    by (simp add: listed_validators_def)
qed

text \<open>Epochs as machine words.\<close>

lemma epoch_words:
  fixes e :: u64 and epochLength :: u32
  assumes "epochLength \<noteq> 0" and "(unat e + 2) * unat epochLength < 2 ^ 64"
  shows "(e + 1) * ucast epochLength - ucast epochLength = e * ucast epochLength"
    and "unat ((e + 1) * ucast epochLength + ucast epochLength) - unat ((e + 1) * ucast epochLength) = unat epochLength"
    and "(e + 1) * ucast epochLength < (e + 1) * ucast epochLength + ucast epochLength"
    and "k < unat epochLength \<Longrightarrow> unat ((e + 1) * ucast epochLength + word_of_nat k) = (unat e + 1) * unat epochLength + k"
    and "k < unat epochLength \<Longrightarrow> (e + 1) * ucast epochLength + word_of_nat k \<noteq> 0"
    and "(e + 1) * ucast epochLength div ucast epochLength = e + 1"
    and "(e + 1) * ucast epochLength mod ucast epochLength = 0"
    and "unat e + 1 < 2 ^ 64"
proof -
  let ?el = "ucast epochLength :: u64"
  let ?n = "unat epochLength"
  have n: "0 < ?n"
    using assms(1) by (simp add: unat_gt_0)
  have split: "(unat e + 2) * ?n = (unat e + 1) * ?n + ?n"
    by simp
  have "(unat e + 2) * 1 \<le> (unat e + 2) * ?n"
    using n by (intro mult_le_mono2) simp
  then show bound: "unat e + 1 < 2 ^ 64"
    using assms(2) by simp
  have e1: "unat (e + 1) = unat e + 1"
    using bound by (simp add: unat_word_ariths)
  have start: "unat ((e + 1) * ?el) = (unat e + 1) * ?n"
    using assms(2) split by (simp add: unat_word_ariths(2) [of "e + 1"] e1)
  have stop: "unat ((e + 1) * ?el + ?el) = (unat e + 2) * ?n"
    using assms(2) split by (simp add: unat_word_ariths(1) [of "(e + 1) * ?el"] start)
  show "(e + 1) * ?el - ?el = e * ?el"
    by (simp add: algebra_simps)
  show "unat ((e + 1) * ?el + ?el) - unat ((e + 1) * ?el) = ?n"
    using split by (simp only: start stop)
  show "(e + 1) * ?el < (e + 1) * ?el + ?el"
    unfolding word_less_nat_alt start stop using n split by linarith
  show pos: "unat ((e + 1) * ?el + word_of_nat k) = (unat e + 1) * ?n + k" if "k < ?n" for k
  proof -
    have "unat (word_of_nat k :: u64) = k"
      using that unsigned_less [of epochLength, where 'a = nat] by (simp add: unat_of_nat)
    then show ?thesis
      using assms(2) split that by (simp add: unat_word_ariths(1) [of "(e + 1) * ?el"] start)
  qed
  show "(e + 1) * ?el + word_of_nat k \<noteq> 0" if "k < ?n"
    using pos [OF that] n by (metis add_is_0 mult_is_0 unat_0 zero_neq_one less_numeral_extra(3))
  show "(e + 1) * ?el div ?el = e + 1"
    by (rule word_unat_eq_iff [THEN iffD2]) (use n in \<open>simp add: unat_div start e1\<close>)
  show "(e + 1) * ?el mod ?el = 0"
    by (rule word_unat_eq_iff [THEN iffD2]) (simp add: unat_mod start)
qed

text \<open>The blocks that the proofs encode.\<close>

lemma epoch_proofs_headers:
  assumes "chain_laws C pub L E low_s" and "honest_chain E low_s (ucast epochLength) chain" and "serves client chainId chain"
    and "plain_addresses cd" and "epoch_proofs cd C L client chain epochLength e proofs" and "epochLength \<noteq> 0"
    and "(unat e + 2) * unat epochLength < 2 ^ 64"
  obtains hs where "proofs = map header_rlp (chain ((e + 1) * ucast epochLength) # hs)"
    and "good_headers C L low_s chainId (ucast epochLength) (chain ((e + 1) * ucast epochLength) # hs)"
    and "linked E (chain ((e + 1) * ucast epochLength) # hs)" and "length (chain ((e + 1) * ucast epochLength) # hs) < 2 ^ 40"
    and "hdrCoinbase ` set (chain ((e + 1) * ucast epochLength) # hs) \<subseteq> set (validators_at chain epochLength e)"
    and "length (validators_at chain epochLength e) * 2 div 3 \<le> card (hdrCoinbase ` set (chain ((e + 1) * ucast epochLength) # hs))"
proof -
  let ?el = "ucast epochLength :: u64"
  let ?start = "(e + 1) * ?el"
  obtain w w' where "createBlockProofs cd C L client ?start ?el w = (Ret proofs, w')"
    using assms(5) by (auto simp: epoch_proofs_def)
  then obtain c w1 vs w2 blocks where run: "ethChainID client w = (Ret c, w1)"
    "prev_validators cd client (?start - ?el) w1 = (Ret vs, w2)"
    "fetch_run client (length blocks) ?start w2 = (Ret blocks, w')" "list_all2 (sealed C L c) blocks proofs"
    "length blocks \<le> unat (?start + ?el) - unat ?start" "quorumOf vs \<le> card (coinbases blocks)"
    "?start < ?start + ?el \<longrightarrow> blocks \<noteq> []"
    by (rule createBlockProofs_Ret) blast
  note words = epoch_words [OF assms(6,7)]
  have c: "c = int chainId"
    using assms(3) run(1) unfolding serves_def by blast
  obtain prev m where prev: "fetch_block client (e * ?el) w1 = (Ret prev, w2)" "extractParliaValidators cd (blkHeader prev) = Ret (vs, m)"
    using run(2) words(1) by (auto simp: prev_validators_Ret_iff)
  then have "blkHeader prev = chain (e * ?el)"
    using assms(3) unfolding serves_def by blast
  then have vs: "vs = validators_at chain epochLength e"
    using extract_listed(1) [OF assms(4) prev(2)] by (simp add: validators_at_def)
  have len: "length blocks \<le> unat epochLength" "blocks \<noteq> []"
    using run(5,7) words(2,3) by simp_all
  note blocks = serves_run [OF assms(3) run(3)]
  let ?hs = "map blkHeader blocks"
  have at: "?hs ! k = chain (?start + word_of_nat k)" if "k < length blocks" for k
    using blocks(1) that by (metis (no_types, lifting) add_0 diff_zero length_upt nth_map nth_upt)
  have chain: "wf_header (chain i)" "hdrNumber (chain i) = uint i" "i mod ?el = 0 \<Longrightarrow> whole_validators (chain i)"
    "i \<noteq> 0 \<Longrightarrow> canonical_seal low_s (chain i)"
    "i \<noteq> 0 \<Longrightarrow> hdrParentHash (chain i) = evKeccak256 E (header_rlp (chain (i - 1)))" for i
    using assms(2) by (simp_all add: honest_chain_def)
  have header: "\<exists>i. h = chain i \<and> i \<noteq> 0" if "h \<in> set ?hs" for h
  proof -
    obtain k where "k < length blocks" "h = chain (?start + word_of_nat k)"
      using \<open>h \<in> set ?hs\<close> unfolding blocks(1) by auto
    then show ?thesis
      using words(5) [of k] len(1) by auto
  qed
  have seals: "sealed_header C L low_s chainId h" if h: "h \<in> set ?hs" for h
  proof -
    obtain b where b: "b \<in> set blocks" "h = blkHeader b"
      using h by auto
    then obtain rlp where "sealed C L c b rlp"
      using run(4) by (metis in_set_conv_nth list_all2_conv_all_nth)
    then have "recoverParliaBlockSigner C L h (int chainId) = Ret (hdrCoinbase h)"
      using b blocks(2) c by (simp add: sealed_def)
    then show ?thesis
      using header [OF h] chain by (auto simp: sealed_header_def)
  qed
  have "proofs = map header_rlp ?hs"
  proof (rule nth_equalityI)
    show "length proofs = length (map header_rlp ?hs)"
      using list_all2_lengthD [OF run(4)] by simp
    fix k assume "k < length proofs"
    then have k: "k < length blocks" "sealed C L c (blocks ! k) (proofs ! k)"
      using run(4) list_all2_lengthD [OF run(4)] by (simp_all add: list_all2_conv_all_nth)
    have "wf_header (blkHeader (blocks ! k))"
      using seals [of "blkHeader (blocks ! k)"] k(1) by (simp add: sealed_header_def)
    then show "proofs ! k = map header_rlp ?hs ! k"
      using k chain_lawsD(2) [OF assms(1)] by (simp add: sealed_def rlp_laws_def wf_header_def)
  qed
  moreover have "good_headers C L low_s chainId ?el ?hs"
    unfolding good_headers_def
  proof (intro ballI conjI)
    fix h assume h: "h \<in> set ?hs"
    then obtain i where "h = chain i" "i \<noteq> 0"
      using header by blast
    then show "hdrNumber h \<noteq> 0" "epoch_header ?el h \<longrightarrow> whole_validators h"
      using chain(2,3) by (simp_all add: epoch_header_def uint_0_iff)
    show "sealed_header C L low_s chainId h"
      using seals [OF h] .
  qed
  moreover have "linked E ?hs"
    unfolding linked_def
  proof (intro allI impI)
    fix k assume k: "Suc k < length ?hs"
    then have "?start + word_of_nat (Suc k) \<noteq> 0"
      using words(5) [of "Suc k"] len(1) by simp
    then show "hdrParentHash (?hs ! Suc k) = evKeccak256 E (header_rlp (?hs ! k))"
      using chain(5) [of "?start + word_of_nat (Suc k)"] at k by (simp add: add.assoc)
  qed
  moreover have "length ?hs < 2 ^ 40"
    using len(1) unsigned_less [of epochLength, where 'a = nat] by simp
  moreover have "hdrCoinbase ` set ?hs \<subseteq> set (validators_at chain epochLength e)"
    using assms(5) list_all2_lengthD [OF run(4)] unfolding blocks(1) by (auto simp: epoch_proofs_def)
  moreover have "length (validators_at chain epochLength e) * 2 div 3 \<le> card (hdrCoinbase ` set ?hs)"
    using run(6) vs by (simp add: quorumOf_def coinbases_def image_image)
  moreover have "?hs = chain ?start # tl ?hs"
    using at [of 0] len(2) by (cases blocks) simp_all
  ultimately show ?thesis
    using that by metis
qed

lemma room_256: "256 \<le> room xs"
  by (simp add: room_def)

text \<open>All validators that the hub ever meets fit into the first bucket.\<close>

lemma add_all_few:
  assumes "distinct xs" and "set xs \<subseteq> V" and "set vs \<subseteq> V" and "finite V" and "card V \<le> 256"
  shows "length (add_all xs vs) \<le> 256" and "set (add_all xs vs) \<subseteq> V"
proof -
  show sub: "set (add_all xs vs) \<subseteq> V"
    using assms(2,3) by (simp add: set_add_all)
  have "length (add_all xs vs) = card (set (add_all xs vs))"
    using distinct_add_all [OF assms(1)] by (simp add: distinct_card)
  also have "\<dots> \<le> card V"
    using sub assms(4) by (rule card_mono [rotated])
  finally show "length (add_all xs vs) \<le> 256"
    using assms(5) by simp
qed

lemma updateValidatorSet_in_sync:
  assumes laws: "chain_laws C pub L E low_s" "plain_addresses cd" "set_laws (envSets env) elems"
    and chain: "honest_chain E low_s (ucast epochLength) chain" "serves client chainId chain" "chainId < 2 ^ 64" "epochLength \<noteq> 0"
    and V: "finite V" "card V \<le> 256" "\<And>e. set (validators_at chain epochLength e) \<subseteq> V"
    and "in_sync env elems E V chainId epochLength chain e hub"
    and "epoch_proofs cd C L client chain epochLength e proofs" and "(unat e + 2) * unat epochLength < 2 ^ 64"
  shows "\<exists>hub'. updateValidatorSet env chainId proofs hub = Done hub' \<and> in_sync env elems E V chainId epochLength chain (e + 1) hub'"
proof -
  let ?el = "ucast epochLength :: u64"
  let ?start = "(e + 1) * ?el"
  let ?b = "registeredChains hub chainId" and ?h = "validatorHistories hub chainId"
  let ?vs = "validators_at chain epochLength e" and ?new = "validators_at chain epochLength (e + 1)"
  note sync = assms(11)[unfolded in_sync_def Let_def]
  then have inv: "hub_inv elems hub" "history_inv elems ?h"
    by (simp_all add: hub_inv_def)
  note words = epoch_words [OF chain(4) assms(13)]
  obtain hs where hs: "proofs = map header_rlp (chain ?start # hs)"
    "good_headers C L low_s chainId ?el (chain ?start # hs)" "linked E (chain ?start # hs)" "length (chain ?start # hs) < 2 ^ 40"
    "hdrCoinbase ` set (chain ?start # hs) \<subseteq> set ?vs"
    "length ?vs * 2 div 3 \<le> card (hdrCoinbase ` set (chain ?start # hs))"
    by (rule epoch_proofs_headers [OF laws(1) chain(1,2) laws(2) assms(12) chain(4) assms(13)])
  have wf: "wf_header (chain i)" and number: "hdrNumber (chain i) = uint i" for i
    using chain(1) by (simp_all add: honest_chain_def)
  have "length ?vs < 65536"
    using listed_few [OF wf] by (simp add: validators_at_def)
  moreover have "validatorCount ?h e = word_of_nat (length ?vs)"
    using sync by blast
  ultimately have count: "unat (validatorCount ?h e) = length ?vs"
    by (simp add: unat_of_nat)
  have "?vs \<noteq> []"
    using hs(5) by auto
  have few: "length (add_all (elems (allValidators ?h)) ?new) \<le> 256" "set (add_all (elems (allValidators ?h)) ?new) \<subseteq> V"
    using add_all_few [OF _ _ V(3,1,2)] inv(2) sync by (simp_all add: history_inv_def)
  have "0 < (length ?vs + 255) div 256"
    using \<open>?vs \<noteq> []\<close> by (cases ?vs) simp_all
  moreover have "k < 256" if "k \<in> indices elems ?h e as" for k as
    using that few(1) length_add_all [of "elems (allValidators ?h)" ?new] by (auto simp: indices_def)
  ultimately have "\<forall>k\<in>indices elems ?h e as. k < 256 * ((length ?vs + 255) div 256)" for as
    by fastforce
  moreover have "set (map hdrCoinbase (chain ?start # hs)) \<inter> active_set elems ?h e = hdrCoinbase ` set (chain ?start # hs)"
    using hs(5) sync by auto
  ultimately have "checkValidatorsAndQuorumReached (envSets env) hub chainId (map hdrCoinbase (chain ?start # hs)) e = Done True"
    using checkValidatorsAndQuorumReached_eq [OF laws(3) inv(2), of "map hdrCoinbase (chain ?start # hs)" e] count hs(6)
    by (simp add: Let_def)
  moreover have "epoch_header ?el (chain ?start)" "word_of_int (hdrNumber (chain ?start)) div ?el = e + 1"
    using words(6,7) by (simp_all add: epoch_header_def number)
  ultimately have "verifyValidatorTransition E chainId proofs epochLength (checkValidatorsAndQuorumReached (envSets env) hub) = Done (?new, e + 1)"
    using verifyValidatorTransition_headers [OF laws(1) chain(3,4) hs(2-4), of "e + 1"] hs(1) by (simp add: validators_at_def)
  then have transition: "bvValidatorTransition (verifier_of env hub (verificationFunction ?b)) chainId proofs
      (basEpochLength ?b) (checkValidatorsAndQuorumReached (envSets env) hub) = Done (?new, e + 1)"
    using sync by simp
  have succ: "successor_epoch ?h (e + 1)"
    using sync words(8) by (simp add: successor_epoch_def getLatestTransitionedEpoch_def)
  have room: "length (add_all (elems (allValidators ?h)) ?new) \<le> room (elems (allValidators ?h))"
    using few(1) room_256 le_trans by blast
  obtain hub' where "updateValidatorSet env chainId proofs hub = Done hub'" "hub_inv elems hub'"
    "getLatestTransitionedEpoch hub' chainId = e + 1" "active_set elems (validatorHistories hub' chainId) (e + 1) = set ?new"
    "validatorCount (validatorHistories hub' chainId) (e + 1) = word_of_nat (length ?new)"
    "elems (allValidators (validatorHistories hub' chainId)) = add_all (elems (allValidators ?h)) ?new"
    "registeredChains hub' chainId = ?b\<lparr>chainStatus := Active\<rparr>" "defaultVerificationFunction hub' = defaultVerificationFunction hub"
    by (rule updateValidatorSet_stores [OF laws(3) inv(1) _ transition succ room]) (use sync in auto)
  moreover from this have "verifier_of env hub' (verificationFunction ?b) = verifier_of env hub (verificationFunction ?b)"
    by (simp add: verifier_of_def)
  ultimately show ?thesis
    using sync few(2) by (auto simp: in_sync_def Let_def)
qed

section \<open>All epochs\<close>

text \<open>Registration of the chain with an epoch block that is well sealed.\<close>

lemma register_in_sync:
  fixes e :: u64 and epochLength :: u32
  assumes laws: "chain_laws C pub L E low_s" "set_laws (envSets env) elems" "envVerifier env verifier = parlia_verifier E receiptProof"
    and chain: "honest_chain E low_s (ucast epochLength) chain" "chainId < 2 ^ 64" "epochLength \<noteq> 0"
    and V: "finite V" "card V \<le> 256" "\<And>e. set (validators_at chain epochLength e) \<subseteq> V"
    and "sealed_header C L low_s chainId (chain (e * ucast epochLength))" and "unat e * unat epochLength < 2 ^ 64"
  shows "\<exists>hub. registerCertifiedBAS env chainId (header_rlp (chain (e * ucast epochLength))) bridge epochLength
      (new_relay_hub (envSets env) verifier stakingAddress) = Done hub \<and> in_sync env elems E V chainId epochLength chain e hub"
proof -
  let ?el = "ucast epochLength :: u64"
  let ?hub = "new_relay_hub (envSets env) verifier stakingAddress"
  let ?vs = "validators_at chain epochLength e"
  have prod: "unat (e * ?el) = unat e * unat epochLength"
    using assms(11) by (simp add: unat_word_ariths(2))
  have div: "e * ?el div ?el = e"
    by (rule word_unat_eq_iff [THEN iffD2]) (use chain(3) in \<open>simp add: unat_div prod unat_gt_0\<close>)
  have mod: "e * ?el mod ?el = 0"
    by (rule word_unat_eq_iff [THEN iffD2]) (simp add: unat_mod prod)
  have "hdrNumber (chain (e * ?el)) = uint (e * ?el)" "whole_validators (chain (e * ?el))"
    using chain(1) mod by (simp_all add: honest_chain_def)
  then have block: "verifyBlockWithoutQuorum E chainId (header_rlp (chain (e * ?el))) ?el =
      Done (evKeccak256 E (header_rlp (chain (e * ?el))), ?vs, e * ?el)"
    using verifyBlockWithoutQuorum_eq [OF laws(1) assms(10) chain(2), of ?el] chain(3) mod
    by (simp add: epoch_header_def validators_at_def)
  have history: "validatorHistories ?hub chainId = new_history (envSets env)" "registeredChains ?hub chainId = new_bas"
    "defaultVerificationFunction ?hub = verifier" "emitted ?hub = []"
    by (simp_all add: new_relay_hub_def)
  have inv: "hub_inv elems ?hub"
    using new_relay_hub_inv [OF laws(2)] .
  then have hinv: "history_inv elems (new_history (envSets env))"
    using history(1) by (metis hub_inv_def)
  have succ: "successor_epoch (new_history (envSets env)) e"
    by (simp add: successor_epoch_def)
  have empty: "elems (allValidators (new_history (envSets env))) = []"
    using set_lawsD(1) [OF laws(2)] by simp
  have few: "length (add_all [] ?vs) \<le> room []" "set (add_all [] ?vs) \<subseteq> V"
    using add_all_few [OF _ _ V(3,1,2), of "[]"] by (auto simp: room_def)
  obtain h where h: "updateActiveValidatorSet (envSets env) (new_history (envSets env)) ?vs e = Done h" "history_inv elems h"
    "active_set elems h e = set ?vs" "validatorCount h e = word_of_nat (length ?vs)" "latestKnownEpoch h = e"
    "elems (allValidators h) = add_all [] ?vs"
    using updateActiveValidatorSet_eq [OF laws(2) hinv succ, of ?vs, unfolded Let_def empty if_P [OF few(1)]]
    by (elim exE conjE) (rule that, simp_all)
  let ?b = "new_bas\<lparr>chainStatus := Verifying, chainType := BAS, verificationFunction := DEFAULT_VERIFICATION_FUNCTION,
      bridgeAddress := bridge, basEpochLength := epochLength\<rparr>"
  let ?hub' = "?hub\<lparr>validatorHistories := (validatorHistories ?hub)(chainId := h),
      registeredChains := (registeredChains ?hub)(chainId := ?b), emitted := [LogChainRegistered chainId ?vs]\<rparr>"
  have "verifier_of env ?hub DEFAULT_VERIFICATION_FUNCTION = parlia_verifier E receiptProof"
    using laws(3) history(3) by (simp add: verifier_of_def)
  then have "registerCertifiedBAS env chainId (header_rlp (chain (e * ?el))) bridge epochLength ?hub = Done ?hub'"
    using block h(1) chain(3) history div unfolding registerCertifiedBAS_def registerChainWithVerificationFunction_def
    by (simp add: Let_def div64_def new_bas_def)
  moreover have "in_sync env elems E V chainId epochLength chain e ?hub'"
    using h(2-6) few(2) inv laws(3) history(3)
    by (simp add: in_sync_def Let_def hub_inv_def getLatestTransitionedEpoch_def verifier_of_def new_bas_def)
  ultimately show ?thesis
    by blast
qed

text \<open>One transaction per epoch.\<close>

fun updates :: "'es hub_env \<Rightarrow> nat \<Rightarrow> bytes list list \<Rightarrow> 'es relay_hub \<Rightarrow> 'es relay_hub evm" where
  "updates env chainId [] hub = Done hub"
| "updates env chainId (proofs # rest) hub = evm_bind (updateValidatorSet env chainId proofs hub) (updates env chainId rest)"

lemma updates_in_sync:
  assumes laws: "chain_laws C pub L E low_s" "plain_addresses cd" "set_laws (envSets env) elems"
    and chain: "honest_chain E low_s (ucast epochLength) chain" "serves client chainId chain" "chainId < 2 ^ 64" "epochLength \<noteq> 0"
    and V: "finite V" "card V \<le> 256" "\<And>e. set (validators_at chain epochLength e) \<subseteq> V"
    and "in_sync env elems E V chainId epochLength chain e hub"
    and "\<forall>k < length epochs. epoch_proofs cd C L client chain epochLength (e + word_of_nat k) (epochs ! k)"
    and "(unat e + length epochs + 1) * unat epochLength < 2 ^ 64"
  shows "\<exists>hub'. updates env chainId epochs hub = Done hub'
    \<and> in_sync env elems E V chainId epochLength chain (e + word_of_nat (length epochs)) hub'"
  using assms(11-13)
proof (induction epochs arbitrary: e hub)
  case (Cons proofs rest)
  have first: "epoch_proofs cd C L client chain epochLength e proofs"
    using Cons.prems(2) by force
  have bound: "(unat e + 2) * unat epochLength < 2 ^ 64"
    by (rule le_less_trans [OF mult_le_mono1 Cons.prems(3)]) simp
  obtain hub1 where hub1: "updateValidatorSet env chainId proofs hub = Done hub1" "in_sync env elems E V chainId epochLength chain (e + 1) hub1"
    using updateValidatorSet_in_sync [OF laws chain V Cons.prems(1) first bound] by blast
  have "unat (e + 1) = unat e + 1"
    using epoch_words(8) [OF chain(4) bound] by (simp add: unat_word_ariths)
  then have "(unat (e + 1) + length rest + 1) * unat epochLength < 2 ^ 64"
    using Cons.prems(3) by simp
  moreover have "\<forall>k < length rest. epoch_proofs cd C L client chain epochLength (e + 1 + word_of_nat k) (rest ! k)"
    using Cons.prems(2) by (force simp: add.assoc)
  ultimately obtain hub' where "updates env chainId rest hub1 = Done hub'"
    "in_sync env elems E V chainId epochLength chain (e + 1 + word_of_nat (length rest)) hub'"
    using Cons.IH [OF hub1(2)] by blast
  then show ?case
    using hub1(1) by (simp add: add.assoc)
qed simp

section \<open>Properties\<close>

text \<open>
  Property C2. The bridge follows the chain. A chain is registered with an epoch block, and then
  \<open>updateValidatorSet\<close> is called, once per epoch, with the proofs that \<open>createBlockProofs\<close> has returned on a
  node of that chain. Every call is accepted, in any number of epochs, and after them the hub's active
  validators are exactly those that the last epoch block lists, provided that the blocks in the
  proofs are sealed by validators of the epoch before and that the hub never meets more than 256 validators.
\<close>

theorem relayed_epochs_accepted:
  assumes "chain_laws C pub L E low_s" and "plain_addresses cd" and "set_laws (envSets env) elems"
    and "envVerifier env verifier = parlia_verifier E receiptProof"
    and "honest_chain E low_s (ucast epochLength) chain" and "serves client chainId chain"
    and "chainId < 2 ^ 64" and "epochLength \<noteq> 0" and "(unat e + length epochs + 1) * unat epochLength < 2 ^ 64"
    and "sealed_header C L low_s chainId (chain (e * ucast epochLength))"
    and "\<forall>k < length epochs. epoch_proofs cd C L client chain epochLength (e + word_of_nat k) (epochs ! k)"
    and "finite V" and "card V \<le> 256" and "\<And>e. set (validators_at chain epochLength e) \<subseteq> V"
  shows "\<exists>hub hub' vs. registerCertifiedBAS env chainId (header_rlp (chain (e * ucast epochLength))) bridge epochLength
      (new_relay_hub (envSets env) verifier stakingAddress) = Done hub
    \<and> updates env chainId epochs hub = Done hub'
    \<and> getLatestTransitionedEpoch hub' chainId = e + word_of_nat (length epochs)
    \<and> getActiveValidators (envSets env) hub' chainId = Done vs \<and> distinct vs
    \<and> set vs = set (validators_at chain epochLength (e + word_of_nat (length epochs)))"
proof -
  have "unat e * unat epochLength < 2 ^ 64"
    by (rule le_less_trans [OF mult_le_mono1 assms(9)]) simp
  then obtain hub where hub: "registerCertifiedBAS env chainId (header_rlp (chain (e * ucast epochLength))) bridge epochLength
      (new_relay_hub (envSets env) verifier stakingAddress) = Done hub" "in_sync env elems E V chainId epochLength chain e hub"
    using register_in_sync [OF assms(1,3,4,5,7,8,12,13,14,10)] by blast
  obtain hub' where hub': "updates env chainId epochs hub = Done hub'"
    "in_sync env elems E V chainId epochLength chain (e + word_of_nat (length epochs)) hub'"
    using updates_in_sync [OF assms(1,2,3,5-8,12-14) hub(2) assms(11,9)] by blast
  let ?h = "validatorHistories hub' chainId"
  have inv: "history_inv elems ?h" and V: "set (elems (allValidators ?h)) \<subseteq> V"
    using hub'(2) by (simp_all add: in_sync_def hub_inv_def Let_def)
  have "length (elems (allValidators ?h)) \<le> card V"
    using inv V assms(12) by (metis card_mono distinct_card history_inv_def)
  then have "getActiveValidators (envSets env) hub' chainId = Done (active_list elems ?h (latestKnownEpoch ?h))"
    using extractActiveValidators_eq [OF assms(3) inv] assms(13) by (simp add: getActiveValidators_def Let_def)
  then show ?thesis
    using hub(1) hub' active_list_distinct [OF inv]
    by (auto simp: in_sync_def Let_def getLatestTransitionedEpoch_def)
qed

text \<open>A chain with two sealers in turn, each block on top of the one before, and a node that serves it.\<close>

primrec sample_chain_at :: "nat \<Rightarrow> header" where
  "sample_chain_at 0 = chain_header (replicate 32 0) 0 [0, 1, 2] 0"
| "sample_chain_at (Suc n) =
     chain_header (evKeccak256 sample_evm (header_rlp (sample_chain_at n))) (int (Suc n)) [0, 1, 2] (int (Suc n) mod 2)"

definition linked_chain :: "u64 \<Rightarrow> header" where
  "linked_chain i = sample_chain_at (unat i)"

definition chain_client :: "'w eth_client" where
  "chain_client = (sample_client [0, 1, 2] id)\<lparr>ethBlockByNumber := (\<lambda>i w. (Ret \<lparr>blkHeader = linked_chain (word_of_int i),
     blkCoinbase = hdrCoinbase (linked_chain (word_of_int i)), blkHash = []\<rparr>, w))\<rparr>"

lemma sample_chain_form:
  "\<exists>parent. length parent = 32 \<and> sample_chain_at n = chain_header parent (int n) [0, 1, 2] (int n mod 2)"
proof (cases n)
  case 0
  then show ?thesis
    by (intro exI [of _ "replicate 32 0"]) simp
next
  case (Suc m)
  then show ?thesis
    by (intro exI [of _ "evKeccak256 sample_evm (header_rlp (sample_chain_at m))"]) (simp add: sample_evm_def)
qed

lemma linked_chain_sealed:
  "sealed_header sample_crypto chain_rlp (\<lambda>_. True) chainId (linked_chain i)"
  "listed_validators (linked_chain i) = map sample_address [0, 1, 2]" "whole_validators (linked_chain i)"
  "hdrNumber (linked_chain i) = uint i" "hdrCoinbase (linked_chain i) = sample_address (uint i mod 2)"
proof -
  obtain parent where parent: "length parent = 32" "linked_chain i = chain_header parent (int (unat i)) [0, 1, 2] (int (unat i) mod 2)"
    using sample_chain_form unfolding linked_chain_def by blast
  have "int (unat i) < 2 ^ 64"
    using uint_lt2p [of i] by simp
  then show "sealed_header sample_crypto chain_rlp (\<lambda>_. True) chainId (linked_chain i)"
    unfolding parent(2) by (intro chain_header_sealed) (use parent(1) in auto)
  show "listed_validators (linked_chain i) = map sample_address [0, 1, 2]" "whole_validators (linked_chain i)"
    unfolding parent(2) by (rule chain_header_listed)+
  show "hdrNumber (linked_chain i) = uint i" "hdrCoinbase (linked_chain i) = sample_address (uint i mod 2)"
    unfolding parent(2) by (simp_all add: chain_header_def sample_header_def)
qed

lemma linked_chain_honest: "honest_chain sample_evm (\<lambda>_. True) epochLength linked_chain"
  unfolding honest_chain_def
proof (intro allI conjI impI)
  fix i :: u64
  show "wf_header (linked_chain i)" "canonical_seal (\<lambda>_. True) (linked_chain i)"
    using linked_chain_sealed(1) [of undefined i] by (simp_all add: sealed_header_def)
  assume "i \<noteq> 0"
  then have "unat i = Suc (unat (i - 1))"
    by (simp add: unat_minus_one unat_gt_0)
  then show "hdrParentHash (linked_chain i) = evKeccak256 sample_evm (header_rlp (linked_chain (i - 1)))"
    by (simp add: linked_chain_def) (simp add: chain_header_def)
qed (simp_all add: linked_chain_sealed)

lemma chain_client_block: "fetch_block chain_client i w =
    (Ret \<lparr>blkHeader = linked_chain i, blkCoinbase = hdrCoinbase (linked_chain i), blkHash = []\<rparr>, w)"
  by (simp add: chain_client_def fetch_block_def)

lemma chain_client_serves: "serves (chain_client :: 'w eth_client) 97 linked_chain"
  by (simp add: serves_def chain_client_block) (simp add: chain_client_def sample_client_def)

text \<open>Epoch two of the chain, with epochs of four blocks: two proofs, from two sealers.\<close>

lemma chain_client_proofs:
  "createBlockProofs sample_codec sample_crypto chain_rlp chain_client 8 4 w =
     (Ret [header_rlp (linked_chain 8), header_rlp (linked_chain 9)], w)"
proof -
  let ?b = "\<lambda>i. \<lparr>blkHeader = linked_chain i, blkCoinbase = hdrCoinbase (linked_chain i), blkHash = []\<rparr>"
  let ?bs = "[?b 8, ?b 9]"
  let ?vs = "map sample_address [0, 1, 2]"
  have run: "fetch_run chain_client (length ?bs) 8 w = (Ret ?bs, w)"
    by (simp add: chain_client_block io_bind_def io_ret_def)
  have "sealed sample_crypto chain_rlp 97 (?b i) (header_rlp (linked_chain i))" for i
    using linked_chain_sealed(1) [of 97 i] by (simp add: sealed_def sealed_header_def chain_rlp_def)
  then have sealed: "list_all2 (sealed sample_crypto chain_rlp 97) ?bs [header_rlp (linked_chain 8), header_rlp (linked_chain 9)]"
    by simp
  have "hdrExtra (linked_chain 4) = replicate 32 0 @ concat (map (addressBytes sample_codec) ?vs) @ sample_pub 0"
    using sample_chain_form [of 4] by (auto simp: linked_chain_def chain_header_extra)
  then have "prev_validators sample_codec chain_client (8 - 4) w = (Ret ?vs, w)"
    using extract_of_parts [OF sample_codec_laws, of "linked_chain 4" "replicate 32 0" ?vs "sample_pub 0"]
    by (fastforce simp: prev_validators_Ret_iff chain_client_block extraVanity_def extraSeal_def addressLength_def)
  moreover have cb: "coinbases ?bs = {sample_address 0, sample_address 1}" "coinbases (take 1 ?bs) = {sample_address 0}"
    by (simp_all add: coinbases_def linked_chain_sealed(5))
  have signers: "length (put_signers [] ?bs) = 2"
    unfolding put_signers_length cb by simp
  have "proofs_loop sample_crypto chain_rlp chain_client 97 (quorumOf ?vs) (8 + 4) 8 [] [] w =
      (Ret (put_signers [] ?bs, [] @ [header_rlp (linked_chain 8), header_rlp (linked_chain 9)]), w)"
  proof (rule proofs_loop_complete [OF run sealed])
    show "\<forall>k. 0 < k \<and> k < length ?bs \<longrightarrow> length (put_signers [] (take k ?bs)) < quorumOf ?vs"
    proof (intro allI impI)
      fix k assume "0 < k \<and> k < length ?bs"
      then have "k = 1" by simp
      then show "length (put_signers [] (take k ?bs)) < quorumOf ?vs"
        unfolding \<open>k = 1\<close> put_signers_length cb by (simp add: quorumOf_def)
    qed
    show "?bs \<noteq> [] \<and> quorumOf ?vs \<le> length (put_signers [] ?bs) \<or> length ?bs = unat (8 + 4 :: u64) - unat (8 :: u64)"
      unfolding signers by (simp add: quorumOf_def)
  qed simp
  ultimately show ?thesis
    using createBlockProofs_run [of chain_client w 97 w sample_codec 8 4 ?vs w] signers
    by (simp add: chain_client_def quorumOf_def)
qed

theorem relayed_epochs_accepted_witness:
  "\<exists>hub hub' vs. registerCertifiedBAS sample_env 97 (header_rlp (linked_chain 4)) zero_address 4
      (new_relay_hub sample_sets zero_address zero_address) = Done hub
    \<and> updates sample_env 97 [[header_rlp (linked_chain 8), header_rlp (linked_chain 9)]] hub = Done hub'
    \<and> getLatestTransitionedEpoch hub' 97 = 2 \<and> getActiveValidators sample_sets hub' 97 = Done vs
    \<and> distinct vs \<and> set vs = {sample_address 0, sample_address 1, sample_address 2}"
proof -
  have listed: "validators_at linked_chain n e = map sample_address [0, 1, 2]" for n e
    by (simp only: validators_at_def linked_chain_sealed(2))
  have "epoch_proofs sample_codec sample_crypto chain_rlp (chain_client :: unit eth_client) linked_chain 4 1
      [header_rlp (linked_chain 8), header_rlp (linked_chain 9)]"
    using chain_client_proofs by (auto simp: epoch_proofs_def listed linked_chain_sealed(5) less_Suc_eq)
  moreover have "plain_addresses sample_codec"
    by (simp add: plain_addresses_def)
  ultimately show ?thesis
    using relayed_epochs_accepted [where env = sample_env and elems = id and e = 1 and epochLength = 4 and chain = linked_chain
        and epochs = "[[header_rlp (linked_chain 8), header_rlp (linked_chain 9)]]" and V = "set (map sample_address [0, 1, 2])"
        and verifier = zero_address and receiptProof = "\<lambda>_ _ _ _. Done True" and chainId = 97,
        OF sample_chain_laws _ _ _ linked_chain_honest chain_client_serves]
      linked_chain_sealed(1) sample_sets_laws card_length [of "map sample_address [0, 1, 2]"]
    by (simp add: listed) (simp add: sample_env_def)
qed

end
