(* ===== verification/Relaying.thy ===== *)
theory Relaying
  imports Acceptance Transition
begin

text \<open>
  The epoch transition of \<open>relayer/service.go\<close> (\<open>createEpochTransition\<close>) against the contract it sends its
  multicall to: what a transaction that the relayer has built does to \<open>contracts/RelayHub.sol\<close>. The
  dispatcher of the contract and its \<open>multicall\<close>, which it inherits from OpenZeppelin, are parameters.
\<close>

section \<open>Calls of the hub\<close>

text \<open>The dispatcher decodes the ABI encoding of a call; a multicall performs its calls in order on the
  hub itself and reverts with the first that reverts.\<close>

definition dispatch_laws ::
    "'a abi_lib \<Rightarrow> 'es hub_env \<Rightarrow> (bytes \<Rightarrow> 'es relay_hub \<Rightarrow> 'es relay_hub evm) \<Rightarrow>
     (bytes list \<Rightarrow> 'es relay_hub \<Rightarrow> 'es relay_hub evm) \<Rightarrow> bool" where
  "dispatch_laws A henv dispatch multicall \<longleftrightarrow>
     (\<forall>c proofs input hub. encodeFunctionCall A ''updateValidatorSet(uint256,bytes[])'' [VBig (int c), VBytesList proofs] = Ret input
        \<longrightarrow> c < 2 ^ 256 \<longrightarrow> dispatch input hub = updateValidatorSet henv c proofs hub)
     \<and> (\<forall>hub. multicall [] hub = Done hub)
     \<and> (\<forall>input inputs hub. multicall (input # inputs) hub = evm_bind (dispatch input hub) (multicall inputs))"

text \<open>The blocks that the relayer puts into the proofs of an epoch are sealed by validators of the epoch
  before.\<close>

definition sealers_known ::
    "codec_lib \<Rightarrow> crypto_lib \<Rightarrow> rlp_lib \<Rightarrow> 'w eth_client \<Rightarrow> (u64 \<Rightarrow> header) \<Rightarrow> u32 \<Rightarrow> bool" where
  "sealers_known cd C L client chain epochLength \<longleftrightarrow>
     (\<forall>e proofs w w'. createBlockProofs cd C L client ((e + 1) * ucast epochLength) (ucast epochLength) w = (Ret proofs, w')
        \<longrightarrow> (\<forall>k < length proofs. hdrCoinbase (chain ((e + 1) * ucast epochLength + word_of_nat k)) \<in> set (validators_at chain epochLength e)))"

lemma sealers_known_epoch_proofs:
  "sealers_known cd C L client chain epochLength \<Longrightarrow>
   createBlockProofs cd C L client ((e + 1) * ucast epochLength) (ucast epochLength) w = (Ret proofs, w') \<Longrightarrow>
   epoch_proofs cd C L client chain epochLength e proofs"
  unfolding sealers_known_def epoch_proofs_def by blast

section \<open>The inputs of a batch\<close>

text \<open>Every input of a batch is the call for one epoch, with the proofs of that epoch.\<close>

lemma batch_run_epochs:
  assumes "batch_run L source n ((e + 1) * ucast epochLength) w = (Ret inputs, w')"
    and "EpochLength (ncChainConfig source) = ucast epochLength"
    and "sealers_known (lbCodec L) (lbCrypto L) (lbRlp L) (ncClient source) chain epochLength"
  shows "\<exists>epochs. length epochs = length inputs \<and> length inputs = n
    \<and> (\<forall>k<n. epoch_proofs (lbCodec L) (lbCrypto L) (lbRlp L) (ncClient source) chain epochLength (e + word_of_nat k) (epochs ! k))
    \<and> list_all2 (\<lambda>proofs input. encodeFunctionCall (lbAbi L) ''updateValidatorSet(uint256,bytes[])''
        [VBig (ncChainId source), VBytesList proofs] = Ret input) epochs inputs"
  using assms(1)
proof (induction n arbitrary: e w inputs)
  case (Suc n)
  let ?start = "(e + 1) * ucast epochLength :: u64"
  obtain proofs v input v' rest where proofs: "createBlockProofs (lbCodec L) (lbCrypto L) (lbRlp L) (ncClient source) ?start (ucast epochLength) w = (Ret proofs, v)"
    and input: "encodeFunctionCall (lbAbi L) ''updateValidatorSet(uint256,bytes[])'' [VBig (ncChainId source), VBytesList proofs] = Ret input"
    and rest: "batch_run L source n (?start + ucast epochLength) v' = (Ret rest, w')" "inputs = input # rest"
    using Suc.prems assms(2) by (auto simp: batch_input_def io_inv)
  have "?start + ucast epochLength = (e + 1 + 1) * ucast epochLength"
    by (simp add: algebra_simps)
  then obtain epochs where IH: "length epochs = length rest" "length rest = n"
    "\<forall>k<n. epoch_proofs (lbCodec L) (lbCrypto L) (lbRlp L) (ncClient source) chain epochLength (e + 1 + word_of_nat k) (epochs ! k)"
    "list_all2 (\<lambda>proofs input. encodeFunctionCall (lbAbi L) ''updateValidatorSet(uint256,bytes[])''
        [VBig (ncChainId source), VBytesList proofs] = Ret input) epochs rest"
    using Suc.IH [of "e + 1" v' rest] rest(1) by auto
  have "epoch_proofs (lbCodec L) (lbCrypto L) (lbRlp L) (ncClient source) chain epochLength (e + word_of_nat k) ((proofs # epochs) ! k)"
    if "k < Suc n" for k
    using sealers_known_epoch_proofs [OF assms(3) proofs] IH(3) that by (cases k) (simp_all add: add.assoc)
  then show ?case
    using IH(1,2,4) input rest(2) by (intro exI [of _ "proofs # epochs"]) simp
qed (auto simp: io_inv)

lemma multicall_updates:
  assumes "dispatch_laws A henv dispatch multicall" and "c < 2 ^ 256"
    and "list_all2 (\<lambda>proofs input. encodeFunctionCall A ''updateValidatorSet(uint256,bytes[])''
        [VBig (int c), VBytesList proofs] = Ret input) epochs inputs"
  shows "multicall inputs hub = updates henv c epochs hub"
  using assms(3)
proof (induction epochs inputs arbitrary: hub rule: list_all2_induct)
  case Nil
  then show ?case
    using assms(1) by (simp add: dispatch_laws_def)
next
  case (Cons proofs epochs input inputs)
  have "multicall (input # inputs) hub = evm_bind (updateValidatorSet henv c proofs hub) (multicall inputs)"
    using assms(1,2) Cons.hyps(1) by (simp add: dispatch_laws_def)
  then show ?case
    using Cons.IH by (cases "updateValidatorSet henv c proofs hub") simp_all
qed

text \<open>As long as the epoch blocks of a batch are confirmed, their numbers do not wrap around.\<close>

lemma batch_no_wrap:
  fixes e latest :: u64 and epochLength :: u32
  assumes "(unat e + 1) * unat epochLength < 2 ^ 64" and "unat latest + unat epochLength < 2 ^ 64"
    and "\<forall>j<n. (e + 1) * ucast epochLength + word_of_nat j * ucast epochLength \<le> latest" and "unat e + 1 < 2 ^ 64"
  shows "(unat e + n + 1) * unat epochLength < 2 ^ 64"
  using assms(3)
proof (induction n)
  case (Suc n)
  let ?el = "ucast epochLength :: u64"
  have IH: "(unat e + n + 1) * unat epochLength < 2 ^ 64"
    using Suc by simp
  have "(e + 1) * ?el + word_of_nat n * ?el = word_of_nat ((unat e + n + 1) * unat epochLength)"
    by (simp add: algebra_simps)
  then have "unat ((e + 1) * ?el + word_of_nat n * ?el) = (unat e + n + 1) * unat epochLength"
    using IH by (simp add: unat_of_nat del: of_nat_mult of_nat_add)
  moreover have "unat ((e + 1) * ?el + word_of_nat n * ?el) \<le> unat latest"
    using Suc.prems by (simp add: word_le_nat_alt)
  ultimately have "(unat e + n + 1) * unat epochLength + unat epochLength < 2 ^ 64"
    using assms(2) by linarith
  then show ?case
    by (simp add: algebra_simps)
qed (use assms(1) in simp)

section \<open>Properties\<close>

text \<open>
  Property C1. What a successful epoch transition does to the hub: if the hub has followed an honest
  chain up to epoch \<open>e\<close> and the relayer's batched transition from the next epoch block on returns without an
  error, then the multicall that it has sent is accepted as a whole, and the hub has moved by exactly one
  epoch per input, with the validators of the last epoch active. It stops short of the confirmed epochs
  only where the gas of the dry run or the size of the inputs ends the batch. Assumed is that
  the sealers of the proofs that the node's blocks give are validators of the epoch before, and that at most
  256 addresses are ever validators.
\<close>

theorem createEpochTransition_advances_hub:
  assumes "chain_laws (lbCrypto L) pub (lbRlp L) E low_s" and "plain_addresses (lbCodec L)" and "set_laws (envSets henv) elems"
    and "dispatch_laws (lbAbi L) henv dispatch multicall"
    and "honest_chain E low_s (ucast epochLength) chain" and "serves (ncClient source) chainId chain"
    and "sealers_known (lbCodec L) (lbCrypto L) (lbRlp L) (ncClient source) chain epochLength"
    and "ncChainId source = int chainId" and "chainId < 2 ^ 64"
    and "EpochLength (ncChainConfig source) = ucast epochLength" and "epochLength \<noteq> 0"
    and "(unat e + 2) * unat epochLength < 2 ^ 64" and "unat latest + unat epochLength < 2 ^ 64"
    and "finite V" and "card V \<le> 256" and "\<And>e. set (validators_at chain epochLength e) \<subseteq> V"
    and "in_sync henv elems E V chainId epochLength chain e hub"
    and "GasLimit (ncChainConfig target) \<noteq> 0"
    and "createEpochTransition L source target ((e + 1) * ucast epochLength) latest w = (Ret (), w')"
  shows "\<exists>rhub est v n inputs w0 w1 tx w2 hub'. ncRelayHub target = Some rhub
    \<and> dry_run L source target rhub ((e + 1) * ucast epochLength) w = (Ret est, v)
    \<and> go_div (GasLimit (ncChainConfig target) - txGasReserve) est = Ret n
    \<and> batch_stop L source ((e + 1) * ucast epochLength) latest (sint n) (length inputs) (sum_list (map length inputs)) w0 w1
    \<and> Transactor_Multicall (hubTransactor rhub) (epoch_opts L source target) inputs w1 = (Ret tx, w2)
    \<and> waitTxToBeMined (ncClient target) (lbRuntime L) (tx_hash tx) w2 = (Ret (), w')
    \<and> multicall inputs hub = Done hub'
    \<and> in_sync henv elems E V chainId epochLength chain (e + word_of_nat (length inputs)) hub'"
proof -
  let ?start = "(e + 1) * ucast epochLength :: u64"
  have "0 < GasLimit (ncChainConfig target)"
    using assms(18) by (simp add: word_gt_0)
  then obtain tx w2 where tx: "batch_transaction L source target (epoch_opts L source target) ?start latest w = (Ret tx, w2)"
    and mined: "waitTxToBeMined (ncClient target) (lbRuntime L) (tx_hash tx) w2 = (Ret (), w')"
    using assms(19) by (auto simp: createEpochTransition_def Let_def io_bind_Ret_iff)
  obtain rhub est v n N inputs w1 where rhub: "ncRelayHub target = Some rhub" "dry_run L source target rhub ?start w = (Ret est, v)"
    "go_div (GasLimit (ncChainConfig target) - txGasReserve) est = Ret n"
    and loop: "batch_loop L source ?start latest (sint n) 0 0 [] v = (Ret (N, inputs), w1)"
    and call: "Transactor_Multicall (hubTransactor rhub) (epoch_opts L source target) inputs w1 = (Ret tx, w2)"
    using batch_transaction_Ret [OF tx] by blast
  obtain w0 where run: "batch_run L source (length inputs) ?start v = (Ret inputs, w0)"
    and confirmed: "\<forall>j<length inputs. ?start + word_of_nat j * ucast epochLength \<le> latest"
    and stop: "batch_stop L source ?start latest (sint n) (length inputs) (sum_list (map length inputs)) w0 w1"
    using batch_loop_sound [OF loop] assms(10) by auto
  obtain epochs where epochs: "length epochs = length inputs"
    "\<forall>k<length inputs. epoch_proofs (lbCodec L) (lbCrypto L) (lbRlp L) (ncClient source) chain epochLength (e + word_of_nat k) (epochs ! k)"
    "list_all2 (\<lambda>proofs input. encodeFunctionCall (lbAbi L) ''updateValidatorSet(uint256,bytes[])''
        [VBig (int chainId), VBytesList proofs] = Ret input) epochs inputs"
    using batch_run_epochs [OF run assms(10,7)] assms(8) by auto
  have "(unat e + 1) * unat epochLength < 2 ^ 64"
    by (rule le_less_trans [OF mult_le_mono1 assms(12)]) simp
  then have "(unat e + length epochs + 1) * unat epochLength < 2 ^ 64"
    using batch_no_wrap [OF _ assms(13) confirmed epoch_words(8) [OF assms(11,12)]] epochs(1) by simp
  moreover have "\<forall>k<length epochs. epoch_proofs (lbCodec L) (lbCrypto L) (lbRlp L) (ncClient source) chain epochLength (e + word_of_nat k) (epochs ! k)"
    using epochs(1,2) by simp
  ultimately obtain hub' where "updates henv chainId epochs hub = Done hub'"
    "in_sync henv elems E V chainId epochLength chain (e + word_of_nat (length epochs)) hub'"
    using updates_in_sync [OF assms(1-3,5,6,9,11,14-17)] by blast
  moreover have "multicall inputs hub = updates henv chainId epochs hub"
    using multicall_updates [OF assms(4) _ epochs(3)] assms(9) by simp
  ultimately show ?thesis
    using rhub stop call mined epochs(1) by (intro exI conjI) simp_all
qed

section \<open>A sample run\<close>

text \<open>An encoding of calls that can be decoded: the number in 32 bytes, and each byte of a proof after a one,
  with a zero at the end of the proof.\<close>

definition pack_bytes :: "bytes \<Rightarrow> bytes" where
  "pack_bytes bs = concat (map (\<lambda>b. [1, b]) bs) @ [0]"

fun pack_arg :: "go_val \<Rightarrow> bytes" where
  "pack_arg (VBig i) = be_fixed 32 (nat i)"
| "pack_arg (VBytesList bs) = concat (map pack_bytes bs)"
| "pack_arg v = []"

fun unpack :: "bytes \<Rightarrow> bytes \<Rightarrow> bytes list" where
  "unpack acc [] = []"
| "unpack acc [x] = [acc]"
| "unpack acc (x # y # rest) = (if x = 0 then acc # unpack [] (y # rest) else unpack (acc @ [y]) rest)"

definition call_abi :: "string abi_lib" where
  "call_abi = \<lparr>abiNewType = (\<lambda>t i. Ret t), abiMethodID = (\<lambda>name raw input. [248, 116, 66, 30]),
     abiPack = (\<lambda>input args. Ret (concat (map pack_arg args)))\<rparr>"

definition sample_dispatch :: "bytes \<Rightarrow> address list relay_hub \<Rightarrow> address list relay_hub evm" where
  "sample_dispatch input hub =
     updateValidatorSet sample_env (be_val (take 32 (drop 4 input))) (unpack [] (drop 36 input)) hub"

primrec call_all :: "bytes list \<Rightarrow> address list relay_hub \<Rightarrow> address list relay_hub evm" where
  "call_all [] hub = Done hub"
| "call_all (input # inputs) hub = evm_bind (sample_dispatch input hub) (call_all inputs)"

lemma unpack_bytes: "unpack acc (concat (map (\<lambda>b. [1, b]) bs) @ 0 # rest) = (acc @ bs) # unpack [] rest"
  by (induction bs arbitrary: acc) (cases rest; simp)+

lemma unpack_pack: "unpack [] (concat (map pack_bytes proofs)) = proofs"
  by (induction proofs) (simp_all add: pack_bytes_def unpack_bytes)

lemma call_abi_encode: "encodeFunctionCall call_abi ''updateValidatorSet(uint256,bytes[])'' [VBig c, VBytesList proofs]
    = Ret ([248, 116, 66, 30] @ be_fixed 32 (nat c) @ concat (map pack_bytes proofs))"
proof -
  have "encodeFunctionCall call_abi ''updateValidatorSet(uint256,bytes[])'' args = Ret ([248, 116, 66, 30] @ concat (map pack_arg args))"
    if "length args = 2" for args
    using that by (simp add: encodeFunctionCall_def go_slice_def mustNewArguments_def go_index_def Let_def eval_nat_numeral
        call_abi_def del: pack_arg.simps)
  then show ?thesis
    by (simp del: be_fixed.simps)
qed

lemma sample_dispatch_call:
  assumes "c < 2 ^ 256"
  shows "sample_dispatch ([248, 116, 66, 30] @ be_fixed 32 c @ concat (map pack_bytes proofs)) hub = updateValidatorSet sample_env c proofs hub"
proof -
  have split: "take 32 (be_fixed 32 c @ bs) = be_fixed 32 c" "drop 32 (be_fixed 32 c @ bs) = bs" for bs
    by simp_all
  have "drop 36 ([248, 116, 66, 30] @ be_fixed 32 c @ bs) = drop 32 (be_fixed 32 c @ bs)" for bs
    by simp
  moreover have "be_val (be_fixed 32 c) = c"
    using assms unfolding be_val_fixed by simp
  ultimately show ?thesis
    unfolding sample_dispatch_def by (simp only: split unpack_pack) simp
qed

lemma call_all_laws: "dispatch_laws call_abi sample_env sample_dispatch call_all"
  unfolding dispatch_laws_def call_abi_encode nat_int using sample_dispatch_call by (simp add: outcome.inject del: be_fixed.simps)

text \<open>The relayer of the sample chain, with epochs of four blocks, sends the second epoch to a hub that has
  the first one.\<close>

definition relay_source :: "nat nodeConfig" where
  "relay_source = sample_node chain_client 4"

definition relay_sample :: "((bytes \<times> bytes) list, (lru_key \<times> ref) list, string, nat) relay_libs" where
  "relay_sample = sample_libs\<lparr>lbRlp := chain_rlp, lbAbi := call_abi\<rparr>"

lemma relay_source_simps [simp]:
  "ncClient relay_source = chain_client" "ncChainId relay_source = 97" "EpochLength (ncChainConfig relay_source) = 4"
  "ncConfig relay_source = sample_config []"
  by (simp_all add: relay_source_def sample_node_def sample_chain_def)

lemma relay_sample_simps [simp]:
  "lbCodec relay_sample = sample_codec" "lbCrypto relay_sample = sample_crypto" "lbRlp relay_sample = chain_rlp"
  "lbAbi relay_sample = call_abi" "lbRuntime relay_sample = lbRuntime sample_libs" "lbSign relay_sample = lbSign sample_libs"
  by (simp_all add: relay_sample_def sample_libs_def)

lemma linked_header_short: "length (header_rlp (linked_chain i)) \<le> 1060"
proof -
  obtain parent where parent: "length parent = 32" "linked_chain i = chain_header parent (int (unat i)) [0, 1, 2] (int (unat i) mod 2)"
    using sample_chain_form unfolding linked_chain_def by blast
  have "int (unat i) < 2 ^ 64"
    using uint_lt2p [of i] by simp
  then show ?thesis
    using chain_header_length(2) [OF parent(1), of "int (unat i)" "[0, 1, 2]"] parent(2) by simp
qed

lemma length_pack_bytes: "length (pack_bytes bs) = 2 * length bs + 1"
  by (simp add: pack_bytes_def length_concat comp_def sum_list_triv)

lemma relay_input:
  "\<exists>input. batch_input relay_sample relay_source 8 w = (Ret input, w) \<and> length input \<le> txMaxInput"
  using linked_header_short [of 8] linked_header_short [of 9]
  by (simp add: batch_input_def io_bind_eval(1) chain_client_proofs call_abi_encode io_lift_def length_pack_bytes txMaxInput_def)

lemma relay_dry_run:
  "dry_run relay_sample relay_source (sample_target g) Transition.sample_hub 8 w = (Ret 1000000, w)"
  by (simp add: dry_run_def io_bind_eval(1) chain_client_proofs Transactor_UpdateValidatorSet_def Transition.sample_hub_def
      io_ret_def sample_tx_def)

lemma relay_run:
  "createEpochTransition relay_sample relay_source (sample_target 10000000) 8 11 w = (Ret (), Suc w)"
proof -
  have n: "go_div (10000000 - txGasReserve) 1000000 = Ret 9"
    by (simp add: go_div_def txGasReserve_def trunc_div_def)
  obtain input where "batch_input relay_sample relay_source 8 w = (Ret input, w)" "length input \<le> txMaxInput"
    using relay_input by blast
  then have loop: "batch_loop relay_sample relay_source 8 11 9 0 0 [] w = (Ret (9, [input]), w)"
    by (simp add: batch_loop.simps io_bind_eval(1) io_ret_def)
  have "batch_transaction relay_sample relay_source (sample_target 10000000)
      (epoch_opts relay_sample relay_source (sample_target 10000000)) 8 11 w = (Ret sample_tx, Suc w)"
    using batch_transaction_after_dry_run [of "sample_target 10000000", OF _ relay_dry_run, of 11]
    by (simp add: n io_bind_eval(1) loop io_map_def Transactor_Multicall_def Transition.sample_hub_def injectSigner_def
        new_transact_opts_def)
  then show ?thesis
    by (simp add: createEpochTransition_def io_bind_eval(1) word_gt_0)
qed

lemma sample_env_verifier: "envVerifier sample_env f = parlia_verifier sample_evm (\<lambda>_ _ _ _. Done True)"
  by (simp add: sample_env_def)

lemma linked_validators [simp]: "validators_at linked_chain n e = map sample_address [0, 1, 2]"
  by (simp only: validators_at_def linked_chain_sealed(2))

lemma linked_sealers: "hdrCoinbase (linked_chain i) \<in> set (map sample_address [0, 1, 2])"
proof -
  have "uint i mod 2 = 0 \<or> uint i mod 2 = 1"
    by presburger
  then show ?thesis
    by (auto simp: linked_chain_sealed(5))
qed

theorem createEpochTransition_advances_hub_witness:
  "\<exists>hub inputs hub'. registerCertifiedBAS sample_env 97 (header_rlp (linked_chain 4)) zero_address 4
      (new_relay_hub sample_sets zero_address zero_address) = Done hub
    \<and> inputs \<noteq> [] \<and> call_all inputs hub = Done hub'
    \<and> getLatestTransitionedEpoch hub' 97 = 1 + word_of_nat (length inputs)"
proof -
  let ?V = "set (map sample_address [0, 1, 2])"
  have V: "finite ?V" "card ?V \<le> 256" "\<And>e. set (validators_at linked_chain 4 e) \<subseteq> ?V"
    using card_length [of "map sample_address [0, 1, 2]"] by simp_all
  have sets: "set_laws (envSets sample_env) id"
    using sample_sets_laws by simp
  have first: "sealed_header sample_crypto chain_rlp (\<lambda>_. True) 97 (linked_chain (1 * ucast (4 :: u32)))" "unat (1 :: u64) * unat (4 :: u32) < 2 ^ 64"
    by (simp_all add: linked_chain_sealed(1))
  obtain hub where hub: "registerCertifiedBAS sample_env 97 (header_rlp (linked_chain 4)) zero_address 4
      (new_relay_hub sample_sets zero_address zero_address) = Done hub"
    "in_sync sample_env id sample_evm ?V 97 4 linked_chain 1 hub"
    using register_in_sync [OF sample_chain_laws sets sample_env_verifier linked_chain_honest _ _ V first, of zero_address zero_address zero_address]
    by auto
  have known: "sealers_known sample_codec sample_crypto chain_rlp chain_client linked_chain 4"
    unfolding sealers_known_def linked_validators using linked_sealers by blast
  obtain rhub est n inputs w0 w1 hub' where run: "ncRelayHub (sample_target 10000000) = Some rhub"
    "\<exists>v. dry_run relay_sample relay_source (sample_target 10000000) rhub 8 0 = (Ret est, v)"
    "go_div (GasLimit (ncChainConfig (sample_target 10000000)) - txGasReserve) est = Ret n"
    "batch_stop relay_sample relay_source 8 11 (sint n) (length inputs) (sum_list (map length inputs)) w0 w1"
    "call_all inputs hub = Done hub'" "in_sync sample_env id sample_evm ?V 97 4 linked_chain (1 + word_of_nat (length inputs)) hub'"
    using createEpochTransition_advances_hub [of relay_sample sample_pub sample_evm "\<lambda>_. True" sample_env id sample_dispatch call_all 4
        linked_chain relay_source 97 1 11 ?V hub "sample_target 10000000" 0 1]
      sample_chain_laws sets call_all_laws linked_chain_honest chain_client_serves known V hub(2) relay_run [of 0]
    by (simp add: plain_addresses_def) blast
  have "est = 1000000"
    using run(1,2) relay_dry_run [of 10000000 0] by simp
  then have "n = 9"
    using run(3) by (simp add: go_div_def txGasReserve_def trunc_div_def)
  then have "inputs \<noteq> []"
    using run(4) relay_input [of w0] by (auto simp: batch_stop_def Let_def)
  then show ?thesis
    using hub(1) run(5,6) by (auto simp: in_sync_def Let_def)
qed

end
