(* ===== verification/RlpReader.thy ===== *)
theory RlpReader
  imports ContractRlp
begin

text \<open>
  RLP in memory (\<open>contracts/libraries/RLPReader.sol\<close>): the functions that the receipt proofs use. The
  library reads a \<open>bytes memory\<close> array through pointers; here a pointer counts from the start of the
  array's data, and the checked additions are of such pointers. The library does not check that an item lies
  within the array: what it reads behind the end is memory all the same, so the memory is part of the model.
\<close>

lemma evm_bind_cong [fundef_cong]: "m = m' \<Longrightarrow> (\<And>x. m' = Done x \<Longrightarrow> f x = g x) \<Longrightarrow> evm_bind m f = evm_bind m' g"
  by (cases m') auto

section \<open>Memory\<close>

text \<open>
  The state is the memory in use, from the start of the array's data to the free memory pointer. Objects are
  added at its end. Nothing is assumed of what the contract and the compiler put there: \<open>smPad\<close> is what lies
  between the memory and a new array of bytes, \<open>smNew\<close> what any other new object has come to contain, \<open>smItem\<close>
  the memory from the position of a list on after an item of it was stored, and \<open>smFree\<close> what is found behind
  the free memory pointer.
\<close>

record sol_memory =
  smPad :: "bytes \<Rightarrow> bytes"
  smNew :: "bytes \<Rightarrow> bytes"
  smItem :: "nat \<Rightarrow> bytes \<Rightarrow> bytes"
  smFree :: "bytes \<Rightarrow> nat \<Rightarrow> u8"

definition allocate :: "sol_memory \<Rightarrow> bytes \<Rightarrow> bytes" where
  "allocate S m = m @ smNew S m"

text \<open>A word as \<open>mstore\<close> writes it, and a new array: its length and its zero bytes.\<close>

definition word_bytes :: "nat \<Rightarrow> bytes" where
  "word_bytes w = be_fixed 32 w"

definition new_array :: "sol_memory \<Rightarrow> bytes \<Rightarrow> bytes \<Rightarrow> bytes" where
  "new_array S m result = m @ smPad S m @ word_bytes (length result) @ result"

definition mem_byte :: "sol_memory \<Rightarrow> bytes \<Rightarrow> nat \<Rightarrow> u8" where
  "mem_byte S m i = (if i < length m then m ! i else smFree S m (i - length m))"

definition mem_slice :: "sol_memory \<Rightarrow> bytes \<Rightarrow> nat \<Rightarrow> nat \<Rightarrow> bytes" where
  "mem_slice S m p n = map (mem_byte S m) [p..<p + n]"

definition mload :: "sol_memory \<Rightarrow> bytes \<Rightarrow> nat \<Rightarrow> nat" where
  "mload S m ptr = be_val (mem_slice S m ptr 32)"

section \<open>The library\<close>

record RLPItem =
  item_len :: nat
  item_ptr :: nat

definition byte0_mem :: "sol_memory \<Rightarrow> bytes \<Rightarrow> nat \<Rightarrow> nat" where
  "byte0_mem S m ptr = mload S m ptr div 2 ^ 248"

definition payloadOffset_mem :: "sol_memory \<Rightarrow> bytes \<Rightarrow> nat \<Rightarrow> nat" where
  "payloadOffset_mem S m ptr =
     (let b = byte0_mem S m ptr in
      if b < STRING_SHORT_START then 0
      else if b < STRING_LONG_START \<or> (b \<ge> LIST_SHORT_START \<and> b < LIST_LONG_START) then 1
      else if b < LIST_SHORT_START then b - (STRING_LONG_START - 1) + 1
      else b - (LIST_LONG_START - 1) + 1)"

definition long_length_mem :: "sol_memory \<Rightarrow> bytes \<Rightarrow> nat \<Rightarrow> nat \<Rightarrow> nat" where
  "long_length_mem S m ptr byteLen =
     (let dataLen = mload S m (evm_add ptr 1) div 256 ^ evm_sub 32 byteLen in evm_add dataLen (evm_add byteLen 1))"

definition itemLength_mem :: "sol_memory \<Rightarrow> bytes \<Rightarrow> nat \<Rightarrow> nat" where
  "itemLength_mem S m ptr =
     (let b = byte0_mem S m ptr in
      if b < STRING_SHORT_START then 1
      else if b < STRING_LONG_START then b - STRING_SHORT_START + 1
      else if b < LIST_SHORT_START then long_length_mem S m ptr (evm_sub b 0xb7)
      else if b < LIST_LONG_START then b - LIST_SHORT_START + 1
      else long_length_mem S m ptr (evm_sub b 0xf7))"

text \<open>\<open>copy\<close>: whole words, then the leading bytes of a last word; the mask keeps what follows them.\<close>

function copy :: "sol_memory \<Rightarrow> bytes \<Rightarrow> nat \<Rightarrow> nat \<Rightarrow> nat \<Rightarrow> bytes" where
  "copy S m src dest len =
     (if len \<ge> 32 then copy S (mem_write m dest (word_bytes (mload S m src))) (src + 32) (dest + 32) (len - 32)
      else if len > 0 then mem_write m dest (take len (word_bytes (mload S m src)))
      else m)"
  by pat_completeness auto
termination
  by (relation "measure (\<lambda>(_, _, _, _, len). len)") auto

declare copy.simps [simp del]

definition toRlpItem :: "bytes \<Rightarrow> RLPItem" where
  "toRlpItem arr = \<lparr>item_len = length arr, item_ptr = 0\<rparr>"

definition isList :: "sol_memory \<Rightarrow> bytes \<Rightarrow> RLPItem \<Rightarrow> bool" where
  "isList S m item \<longleftrightarrow> item_len item \<noteq> 0 \<and> \<not> byte0_mem S m (item_ptr item) < LIST_SHORT_START"

definition payloadLocation :: "sol_memory \<Rightarrow> bytes \<Rightarrow> RLPItem \<Rightarrow> (nat \<times> nat) evm" where
  "payloadLocation S m item =
     (let offset = payloadOffset_mem S m (item_ptr item) in
      evm_bind (uadd (item_ptr item) offset) (\<lambda>memPtr.
      evm_bind (usub (item_len item) offset) (\<lambda>len. Done (memPtr, len))))"

text \<open>Functions that allocate return the memory too; the array that they return is the last thing in it.\<close>

definition toRlpBytes :: "sol_memory \<Rightarrow> bytes \<Rightarrow> RLPItem \<Rightarrow> (bytes \<times> bytes) evm" where
  "toRlpBytes S m item =
     evm_bind (new_bytes (item_len item)) (\<lambda>result.
     let m = new_array S m result in
     if length result = 0 then Done (result, m)
     else let ptr = length m - length result; m = copy S m (item_ptr item) ptr (item_len item) in Done (drop ptr m, m))"

definition toBytes :: "sol_memory \<Rightarrow> bytes \<Rightarrow> RLPItem \<Rightarrow> (bytes \<times> bytes) evm" where
  "toBytes S m item =
     evm_bind (require (item_len item > 0) []) (\<lambda>_.
     evm_bind (payloadLocation S m item) (\<lambda>(memPtr, len).
     evm_bind (new_bytes len) (\<lambda>result.
     let m = new_array S m result; destPtr = length m - length result; m = copy S m memPtr destPtr len in
     Done (drop destPtr m, m))))"

definition toUintStrict :: "sol_memory \<Rightarrow> bytes \<Rightarrow> RLPItem \<Rightarrow> nat evm" where
  "toUintStrict S m item =
     evm_bind (require (item_len item = 33) []) (\<lambda>_.
     evm_bind (uadd (item_ptr item) 1) (\<lambda>memPtr. Done (mload S m memPtr)))"

text \<open>A read is a read of calldata that consist of the memory and enough of what follows it.\<close>

definition mem_view :: "sol_memory \<Rightarrow> bytes \<Rightarrow> nat \<Rightarrow> bytes" where
  "mem_view S m n = m @ map (smFree S m) [0..<n]"

lemma mem_slice_view: "p + k \<le> length m + n \<Longrightarrow> mem_slice S m p k = cd_slice (mem_view S m n) p k"
proof (rule nth_equalityI)
  fix i assume "p + k \<le> length m + n" and "i < length (mem_slice S m p k)"
  moreover have "i < length m - p \<longleftrightarrow> p + i < length m" "\<not> p + i < length m \<Longrightarrow> p - length m + i - (length m - p) = p + i - length m"
    by arith+
  ultimately show "mem_slice S m p k ! i = cd_slice (mem_view S m n) p k ! i"
    by (cases "p + i < length m") (simp_all add: mem_slice_def mem_byte_def mem_view_def cd_slice_def nth_append)
qed (simp add: mem_slice_def)

lemma mload_view: "p + 32 \<le> length m + n \<Longrightarrow> mload S m p = calldataload (mem_view S m n) p"
  by (simp add: mload_def calldataload_def mem_slice_view)

lemma length_mem_slice [simp]: "length (mem_slice S m p n) = n"
  by (simp add: mem_slice_def)

lemma byte0_mem_view: "byte0_mem S m p = byte0 (mem_view S m (p + 64)) p"
  using mload_view [of p m "p + 64" S] by (simp add: byte0_mem_def byte0_def)

lemma payloadOffset_mem_view: "payloadOffset_mem S m p = payloadOffset (mem_view S m (p + 64)) p"
  by (simp add: payloadOffset_mem_def payloadOffset_def byte0_mem_view)

lemma calldataload_less: "calldataload cd p < 2 ^ 256"
proof -
  have "be_val (cd_slice cd p 32) < 256 ^ 32"
    using be_val_less [of "cd_slice cd p 32"] by simp
  then show ?thesis
    by (simp add: calldataload_def)
qed

lemma mload_less: "mload S m p < 2 ^ 256"
  using calldataload_less mload_view [of p m "p + 32" S] by simp

lemma byte0_mem_less: "byte0_mem S m p < 256"
  using mload_less [of S m p] by (simp add: byte0_mem_def less_mult_imp_div_less)

text \<open>The length of a long item: some leading bytes of the word after the first byte, and these.\<close>

lemma long_length_mem_eq:
  assumes "0 < k" and "k \<le> 8" and "p < 2 ^ 128"
  shows "long_length_mem S m p k = be_val (mem_slice S m (Suc p) k) + k + 1"
    and "long_length_mem S m p k = long_length (mem_view S m (p + 64)) p k"
proof -
  let ?v = "mem_view S m (p + 64)"
  have pow: "(2 :: nat) ^ (8 * (32 - k)) = 256 ^ (32 - k)"
    by (simp add: power_mult)
  have sub: "evm_sub 32 k = 32 - k" "evm_mul 8 (32 - k) = 8 * (32 - k)" "8 * (32 - k) < 256" "evm_add p 1 = Suc p" "evm_add k 1 = Suc k"
    using assms by (simp_all add: evm_sub_le evm_mul_def evm_add_def)
  have load: "mload S m (Suc p) = calldataload ?v (Suc p)" "mem_slice S m (Suc p) k = cd_slice ?v (Suc p) k"
    using assms(2) by (simp_all add: mload_view mem_slice_view)
  have "k \<le> 32"
    using assms(2) by simp
  then have shr: "calldataload ?v (Suc p) div 256 ^ (32 - k) = be_val (cd_slice ?v (Suc p) k)"
    using calldataload_shr [of k ?v "Suc p"] sub(3) pow by (simp add: evm_shr_def)
  show "long_length_mem S m p k = long_length ?v p k"
    using sub pow by (simp add: long_length_mem_def long_length_def load(1) evm_shr_def)
  have "be_val (cd_slice ?v (Suc p) k) < 256 ^ k"
    using be_val_less [of "cd_slice ?v (Suc p) k"] by simp
  also have "(256 :: nat) ^ k \<le> 256 ^ 8"
    using assms(2) by (intro power_increasing) simp_all
  finally show "long_length_mem S m p k = be_val (mem_slice S m (Suc p) k) + k + 1"
    using sub shr assms(2) by (simp add: long_length_mem_def load evm_add_def)
qed

text \<open>The first byte of an item decides on its kind.\<close>

lemma first_byte_cases:
  assumes "b < (256 :: nat)"
  obtains "b < 0xb8" | k where "b = 0xb7 + k" "0 < k" "k \<le> 8" | "0xc0 \<le> b" "b < 0xf8" | k where "b = 0xf7 + k" "0 < k" "k \<le> 8"
proof -
  have "b < 0xb8 \<or> (0xc0 \<le> b \<and> b < 0xf8) \<or> b = 0xb7 + (b - 0xb7) \<and> 0 < b - 0xb7 \<and> b - 0xb7 \<le> 8
      \<or> b = 0xf7 + (b - 0xf7) \<and> 0 < b - 0xf7 \<and> b - 0xf7 \<le> 8"
    using assms by arith
  then show ?thesis
    using that by blast
qed

lemma itemLength_mem_view: "p < 2 ^ 128 \<Longrightarrow> itemLength_mem S m p = itemLength (mem_view S m (p + 64)) p"
  by (rule first_byte_cases [OF byte0_mem_less [of S m p]])
     (simp_all add: itemLength_mem_def itemLength_def byte0_mem_view [symmetric] rlp_starts evm_sub_le long_length_mem_eq(2) Let_def)

lemma evm_add_pos: "0 < y \<Longrightarrow> x + y < 2 ^ 256 \<Longrightarrow> 0 < evm_add x y"
  by (simp add: evm_add_def)

lemma long_length_pos:
  assumes "0 < byteLen" and "byteLen \<le> 8"
  shows "0 < long_length_mem S m ptr byteLen"
proof -
  have "(2 :: nat) ^ 256 = 256 ^ byteLen * 256 ^ (32 - byteLen)"
    using assms(2) by (simp add: power_add [symmetric])
  then have "mload S m (evm_add ptr 1) div 256 ^ (32 - byteLen) < 256 ^ byteLen"
    using mload_less [of S m "evm_add ptr 1"] by (simp add: less_mult_imp_div_less)
  also have "(256 :: nat) ^ byteLen \<le> 256 ^ 8"
    using assms(2) by (intro power_increasing) simp_all
  finally show ?thesis
    using assms unfolding long_length_mem_def Let_def by (simp add: evm_sub_le evm_add_def)
qed

lemma itemLength_pos: "0 < itemLength_mem S m ptr"
  by (rule first_byte_cases [OF byte0_mem_less [of S m ptr]])
     (simp_all add: itemLength_mem_def rlp_starts evm_sub_le long_length_pos Let_def)

function numItems_loop :: "sol_memory \<Rightarrow> bytes \<Rightarrow> nat \<Rightarrow> nat \<Rightarrow> nat \<Rightarrow> nat evm" where
  "numItems_loop S m currPtr endPtr items =
     (if currPtr < endPtr then
        evm_bind (uadd currPtr (itemLength_mem S m currPtr)) (\<lambda>nextPtr. numItems_loop S m nextPtr endPtr (Suc items))
      else Done items)"
  by pat_completeness auto
termination
  by (relation "measure (\<lambda>(_, _, currPtr, endPtr, _). endPtr - currPtr)") (auto simp: uadd_Done_iff itemLength_pos intro!: diff_less_mono2)

declare numItems_loop.simps [simp del]

definition numItems :: "sol_memory \<Rightarrow> bytes \<Rightarrow> RLPItem \<Rightarrow> nat evm" where
  "numItems S m item =
     (if item_len item = 0 then Done 0
      else evm_bind (uadd (item_ptr item) (payloadOffset_mem S m (item_ptr item))) (\<lambda>currPtr.
           evm_bind (uadd (item_ptr item) (item_len item)) (\<lambda>endPtr.
           numItems_loop S m currPtr endPtr 0)))"

text \<open>The second loop of \<open>toList\<close>, over the number of items. Each round adds an \<open>RLPItem\<close> to the memory and
  stores where it is in the list, which lies behind the first \<open>k\<close> bytes.\<close>

primrec items_loop :: "sol_memory \<Rightarrow> nat \<Rightarrow> bytes \<Rightarrow> nat \<Rightarrow> nat \<Rightarrow> (RLPItem list \<times> bytes) evm" where
  "items_loop S k m memPtr 0 = Done ([], m)"
| "items_loop S k m memPtr (Suc n) =
     (let dataLen = itemLength_mem S m memPtr in
      evm_bind (uadd memPtr dataLen) (\<lambda>nextPtr.
      evm_bind (items_loop S k (take k m @ smItem S k m) nextPtr n) (\<lambda>(rest, m).
      Done (\<lparr>item_len = dataLen, item_ptr = memPtr\<rparr> # rest, m))))"

definition toList :: "sol_memory \<Rightarrow> bytes \<Rightarrow> RLPItem \<Rightarrow> (RLPItem list \<times> bytes) evm" where
  "toList S m item =
     evm_bind (require (isList S m item) []) (\<lambda>_.
     evm_bind (numItems S m item) (\<lambda>items.
     if items < 2 ^ 64 then
       let k = length m; m = allocate S m in
       evm_bind (uadd (item_ptr item) (payloadOffset_mem S m (item_ptr item))) (\<lambda>memPtr.
       items_loop S k m memPtr items)
     else Revert BadAllocation))"

section \<open>Copying\<close>

lemma word_bytes_load: "word_bytes (mload S m p) = mem_slice S m p 32"
  using be_fixed_val [of "mem_slice S m p 32"] unfolding word_bytes_def mload_def by (simp del: be_fixed.simps)

lemma mem_slice_split: "k \<le> n \<Longrightarrow> mem_slice S m p n = mem_slice S m p k @ mem_slice S m (p + k) (n - k)"
proof -
  assume "k \<le> n"
  then have "[p..<p + n] = [p..<p + k] @ [p + k..<p + n]"
    using upt_add_eq_append [of p "p + k" "n - k"] by simp
  then show ?thesis
    using \<open>k \<le> n\<close> by (simp add: mem_slice_def)
qed

lemma mem_slice_take: "k \<le> n \<Longrightarrow> take k (mem_slice S m p n) = mem_slice S m p k"
  by (simp add: mem_slice_split)

lemma mem_slice_more: "p + n \<le> length m \<Longrightarrow> mem_slice S (m @ r) p n = mem_slice S m p n"
  by (auto simp: mem_slice_def mem_byte_def nth_append)

lemma mem_slice_prefix: "p + n \<le> d \<Longrightarrow> d \<le> length m \<Longrightarrow> mem_slice S (take d m @ r) p n = mem_slice S m p n"
  using mem_slice_more [of p n "take d m" S r] mem_slice_more [of p n "take d m" S "drop d m"] by simp

text \<open>A copy may read what it has written itself, as long as every word is complete when it is read.\<close>

lemma copy_eq:
  "src + min 32 len \<le> dest \<Longrightarrow> dest + len = length m \<Longrightarrow>
   \<exists>x. copy S m src dest len = take dest m @ x \<and> length x = len \<and> x = mem_slice S (take dest m @ x) src len"
proof (induction S m src dest len rule: copy.induct)
  case (1 S m src dest len)
  show ?case
  proof (cases "32 \<le> len")
    case True
    let ?y = "mem_slice S m src 32"
    let ?m = "mem_write m dest ?y"
    have m: "dest + 32 + (len - 32) = length ?m" "take (dest + 32) ?m = take dest m @ ?y"
      using True "1.prems" by (simp_all add: mem_write_def)
    have src: "src + 32 + min 32 (len - 32) \<le> dest + 32"
      using True "1.prems"(1) by simp
    obtain x where x: "copy S ?m (src + 32) (dest + 32) (len - 32) = (take dest m @ ?y) @ x" "length x = len - 32"
      "x = mem_slice S ((take dest m @ ?y) @ x) (src + 32) (len - 32)"
      using "1.IH" [OF True, unfolded word_bytes_load, OF src m(1)] unfolding m(2) by blast
    have "mem_slice S (take dest m @ ?y @ x) src 32 = ?y"
      using True "1.prems" by (intro mem_slice_prefix) simp_all
    then have "?y @ x = mem_slice S (take dest m @ ?y @ x) src len"
      using mem_slice_split [OF True, of S "take dest m @ ?y @ x" src] x(3) by simp
    then show ?thesis
      using True x(1,2) by (intro exI [of _ "?y @ x"]) (simp add: copy.simps [of S m src] word_bytes_load)
  next
    case False
    let ?x = "mem_slice S m src len"
    have "copy S m src dest len = take dest m @ ?x"
      using False "1.prems" by (simp add: copy.simps [of S m src] word_bytes_load mem_slice_take mem_write_def) (simp add: mem_slice_def)
    moreover have "mem_slice S (take dest m @ ?x) src len = ?x"
      using False "1.prems" by (intro mem_slice_prefix) simp_all
    ultimately show ?thesis
      by (intro exI [of _ ?x]) simp
  qed
qed

lemma copy_behind:
  assumes "length result = len" and "src + len \<le> length m \<or> src + 32 \<le> length m"
  shows "\<exists>x. copy S (m @ result) src (length m) len = m @ x \<and> length x = len \<and> x = mem_slice S (m @ x) src len"
proof -
  have "src + min 32 len \<le> length m"
    using assms(2) by arith
  then show ?thesis
    using copy_eq [of src len "length m" "m @ result" S] assms(1) by simp
qed

text \<open>The copy of what lies before the new array.\<close>

lemma copy_new:
  assumes "length result = len" and "src + len \<le> length m"
  shows "copy S (new_array S m result) src (length (new_array S m result) - len) len =
    m @ (smPad S m @ word_bytes len) @ mem_slice S m src len"
proof -
  let ?m = "m @ smPad S m @ word_bytes len"
  have split: "new_array S m result = ?m @ result" "length (new_array S m result) - len = length ?m"
    using assms(1) by (simp_all add: new_array_def)
  obtain x where x: "copy S (?m @ result) src (length ?m) len = ?m @ x" "x = mem_slice S (?m @ x) src len"
    using copy_behind [OF assms(1), of src ?m S] assms(2) by auto
  have "mem_slice S (?m @ x) src len = mem_slice S m src len"
    using mem_slice_more [OF assms(2), of S "smPad S m @ word_bytes len @ x"] by simp
  then show ?thesis
    using x unfolding split by (simp add: assms(1))
qed

text \<open>What lies in memory stays there.\<close>

lemma lies_slice_mem:
  assumes "lies m p x" and "x \<noteq> []"
  shows "mem_slice S m p (length x) = x"
proof -
  have bound: "p + length x \<le> length m"
    using lies_bound [OF assms] .
  then have "mem_slice S m p (length x) = take (length x) (drop p m)"
    by (intro nth_equalityI) (auto simp: mem_slice_def mem_byte_def)
  then show ?thesis
    using assms(1) by (simp add: lies_def)
qed

lemma lies_more: "lies m p x \<Longrightarrow> lies (m @ r) p x"
proof (cases "x = []")
  case False
  assume "lies m p x"
  then show ?thesis
    using lies_bound [of m p x] False by (auto simp: lies_def)
qed (simp add: lies_def)

lemma lies_view: "lies m p x \<Longrightarrow> lies (mem_view S m n) p x"
  unfolding mem_view_def by (rule lies_more)

lemma slice_lies: "p + n \<le> length m \<Longrightarrow> lies m p (mem_slice S m p n)"
  by (auto simp: lies_def mem_slice_def mem_byte_def intro: nth_equalityI)

text \<open>An item that begins in memory is in the memory with its copy, even when it reaches on into the copy.\<close>

lemma toRlpBytes_Done:
  assumes "toRlpBytes S m item = Done (x, m')" and "item_ptr item \<le> length m"
  shows "lies m' (item_ptr item) x" and "item_len item = length x" and "length x < 2 ^ 64" and "\<exists>r. m' = m @ r"
proof -
  let ?len = "item_len item"
  let ?m = "m @ smPad S m @ word_bytes ?len"
  have len: "?len < 2 ^ 64"
    using assms(1) by (auto simp: toRlpBytes_def evm_inv new_bytes_def split: if_splits)
  obtain y where y: "copy S (?m @ replicate ?len 0) (item_ptr item) (length ?m) ?len = ?m @ y" "length y = ?len"
    "y = mem_slice S (?m @ y) (item_ptr item) ?len"
    using copy_behind [of "replicate ?len 0" ?len "item_ptr item" ?m S] assms(2) by (auto simp: word_bytes_def)
  have "x = y \<and> m' = ?m @ y"
  proof (cases "?len = 0")
    case True
    then show ?thesis
      using assms(1) y(2) by (simp add: toRlpBytes_def new_bytes_def new_array_def)
  next
    case False
    then show ?thesis
      using assms(1) len y(1) by (auto simp: toRlpBytes_def new_bytes_def new_array_def)
  qed
  moreover have "item_ptr item + ?len \<le> length (?m @ y)"
    using assms(2) y(2) by simp
  ultimately show "lies m' (item_ptr item) x" "item_len item = length x" "length x < 2 ^ 64" "\<exists>r. m' = m @ r"
    using slice_lies y(2,3) len by (metis, simp, simp, simp)
qed

lemma toRlpBytes_inside:
  assumes "item_len item < 2 ^ 64" and "item_ptr item + item_len item \<le> length m"
  shows "\<exists>r. toRlpBytes S m item = Done (mem_slice S m (item_ptr item) (item_len item), m @ r)"
proof (cases "item_len item = 0")
  case True
  then show ?thesis
    by (simp add: toRlpBytes_def new_bytes_def new_array_def mem_slice_def)
next
  case False
  let ?result = "replicate (item_len item) 0"
  have "copy S (new_array S m ?result) (item_ptr item) (length (new_array S m ?result) - item_len item) (item_len item) =
      m @ (smPad S m @ word_bytes (item_len item)) @ mem_slice S m (item_ptr item) (item_len item)"
    by (rule copy_new) (use assms(2) in simp_all)
  then show ?thesis
    using assms(1) False by (simp add: toRlpBytes_def new_bytes_def) (simp add: new_array_def)
qed

section \<open>Reading encoded items\<close>

text \<open>A string of a size that occurs, at a pointer that occurs.\<close>

definition item_at :: "bytes \<Rightarrow> nat \<Rightarrow> bytes \<Rightarrow> bool" where
  "item_at m p x \<longleftrightarrow> lies m p x \<and> p + length x < 2 ^ 128 \<and> length x < 2 ^ 64"

lemma item_at_more: "item_at m p x \<Longrightarrow> item_at (m @ r) p x"
  by (simp add: item_at_def lies_more)

lemma item_at_append: "item_at m p (x @ y) \<Longrightarrow> item_at m p x \<and> item_at m (p + length x) y"
  by (simp add: item_at_def lies_append)

text \<open>An encoded list of any length; its prefix is what precedes the items.\<close>

definition list_prefix :: "bytes list \<Rightarrow> nat" where
  "list_prefix xs = length (rlp_list xs) - length (concat xs)"

lemma length_rlp_list: "length (rlp_list xs) = list_prefix xs + length (concat xs)"
  by (simp add: list_prefix_def rlp_list_def Let_def)

lemma rlp_list_nonempty: "rlp_list xs \<noteq> []"
  by (simp add: rlp_list_def Let_def)

lemma rlp_list_read_any:
  assumes lies: "lies arr p (rlp_list xs)" and small: "length (rlp_list xs) < 2 ^ 64" "p < 2 ^ 128"
  shows "payloadOffset arr p = list_prefix xs" and "itemLength arr p = length (rlp_list xs)"
    and "lies arr (p + list_prefix xs) (concat xs)" and "\<not> byte0 arr p < LIST_SHORT_START"
proof -
  have "payloadOffset arr p = list_prefix xs \<and> itemLength arr p = length (rlp_list xs)
    \<and> lies arr (p + list_prefix xs) (concat xs) \<and> \<not> byte0 arr p < LIST_SHORT_START"
  proof (cases "length (concat xs) < 56")
    case True
    then have eq: "rlp_list xs = word_of_nat (0xc0 + length (concat xs)) # concat xs"
      by (simp add: rlp_list_def Let_def)
    have b: "byte0 arr p = 0xc0 + length (concat xs)"
      using lies byte0_lies [of arr p] True by (simp add: eq unat_of_nat del: of_nat_add)
    have "list_prefix xs = 1"
      by (simp add: list_prefix_def eq)
    moreover have "lies arr (Suc p) (concat xs)"
      using lies lies_Cons unfolding eq by blast
    ultimately show ?thesis
      using True b by (simp add: payloadOffset_def itemLength_def rlp_starts Let_def eq)
  next
    case False
    then have long: "56 \<le> length (concat xs)" "length (concat xs) < 2 ^ 64" "p < 2 ^ 128"
      using small by (simp_all add: length_rlp_list)
    let ?n = "be_min (length (concat xs))"
    have prefix: "list_prefix xs = Suc (length ?n)"
      by (simp add: list_prefix_def rlp_list_long [OF long(1)])
    have "length ?n \<le> 8"
      by (rule length_be_min_le) (use long(2) in simp)
    then have "\<not> byte0 arr p < LIST_SHORT_START"
      using lies byte0_lies [of arr p] by (simp add: rlp_list_long [OF long(1)] rlp_starts unat_of_nat del: of_nat_add)
    then show ?thesis
      using rlp_list_read [OF lies long] prefix by simp
  qed
  then show "payloadOffset arr p = list_prefix xs" "itemLength arr p = length (rlp_list xs)"
    "lies arr (p + list_prefix xs) (concat xs)" "\<not> byte0 arr p < LIST_SHORT_START"
    by simp_all
qed

lemma list_at_read:
  assumes "item_at m p (rlp_list xs)"
  shows "payloadOffset_mem S m p = list_prefix xs" and "itemLength_mem S m p = length (rlp_list xs)"
    and "item_at m (p + list_prefix xs) (concat xs)" and "\<not> byte0_mem S m p < LIST_SHORT_START"
proof -
  have at: "lies m p (rlp_list xs)" "length (rlp_list xs) < 2 ^ 64" "p < 2 ^ 128"
    using assms by (simp_all add: item_at_def)
  note read = rlp_list_read_any [OF lies_view [OF at(1), of S "p + 64"] at(2,3)]
  show "payloadOffset_mem S m p = list_prefix xs" "itemLength_mem S m p = length (rlp_list xs)" "\<not> byte0_mem S m p < LIST_SHORT_START"
    using read(1,2,4) at(3) by (simp_all add: payloadOffset_mem_view itemLength_mem_view byte0_mem_view)
  show "item_at m (p + list_prefix xs) (concat xs)"
    using rlp_list_read_any(3) [OF at] assms by (simp add: item_at_def length_rlp_list add.assoc)
qed

lemma string_at_read:
  assumes "item_at m p (rlp_string b)"
  shows "payloadOffset_mem S m p = rlp_prefix b" and "itemLength_mem S m p = length (rlp_string b)"
    and "item_at m (p + rlp_prefix b) b"
proof -
  have at: "lies m p (rlp_string b)" "length b < 2 ^ 64" "p < 2 ^ 128"
    using assms by (simp_all add: item_at_def length_rlp_string)
  note read = rlp_string_read [OF lies_view [OF at(1), of S "p + 64"] at(2,3)]
  show "payloadOffset_mem S m p = rlp_prefix b" "itemLength_mem S m p = length (rlp_string b)"
    using read(1,2) at(3) by (simp_all add: payloadOffset_mem_view itemLength_mem_view)
  show "item_at m (p + rlp_prefix b) b"
    using rlp_string_read(3) [OF at] assms by (simp add: item_at_def length_rlp_string add.assoc)
qed

text \<open>An item that the readers measure correctly wherever it lies in memory.\<close>

definition whole_item :: "bytes \<Rightarrow> bool" where
  "whole_item x \<longleftrightarrow> x \<noteq> [] \<and> (\<forall>S m p. item_at m p x \<longrightarrow> itemLength_mem S m p = length x)"

lemma rlp_list_item: "whole_item (rlp_list xs)"
  unfolding whole_item_def using list_at_read(2) rlp_list_nonempty by blast

lemma rlp_string_item: "whole_item (rlp_string b)"
  unfolding whole_item_def using string_at_read(2) rlp_string_nonempty by blast

text \<open>The items that \<open>toList\<close> returns.\<close>

primrec items_at :: "nat \<Rightarrow> bytes list \<Rightarrow> RLPItem list" where
  "items_at p [] = []"
| "items_at p (x # xs) = \<lparr>item_len = length x, item_ptr = p\<rparr> # items_at (p + length x) xs"

lemma length_items_at [simp]: "length (items_at p xs) = length xs"
  by (induction xs arbitrary: p) simp_all

lemma items_at_nth: "i < length xs \<Longrightarrow> item_at m p (concat xs) \<Longrightarrow>
    item_len (items_at p xs ! i) = length (xs ! i) \<and> item_at m (item_ptr (items_at p xs ! i)) (xs ! i)"
proof (induction xs arbitrary: p i)
  case (Cons x xs)
  then have "item_at m p x" "item_at m (p + length x) (concat xs)"
    using item_at_append by auto
  then show ?case
    using Cons by (cases i) simp_all
qed simp

lemma numItems_loop_read:
  assumes "item_at m p (concat xs)" and "\<forall>x\<in>set xs. whole_item x"
  shows "numItems_loop S m p (p + length (concat xs)) k = Done (k + length xs)"
  using assms
proof (induction xs arbitrary: p k)
  case Nil
  then show ?case
    by (simp add: numItems_loop.simps)
next
  case (Cons x xs)
  have at: "item_at m p x" "item_at m (p + length x) (concat xs)"
    using Cons.prems(1) item_at_append by auto
  then have x: "x \<noteq> []" "itemLength_mem S m p = length x" "p + length x < 2 ^ 256"
    using Cons.prems(2) by (simp_all add: whole_item_def item_at_def)
  then show ?case
    using Cons.IH [OF at(2), of "Suc k"] Cons.prems(2) by (simp add: numItems_loop.simps [of S m p] uadd_def add.assoc)
qed

lemma items_loop_read:
  assumes "item_at m p (concat xs)" and "\<forall>x\<in>set xs. whole_item x"
  shows "\<exists>r'. items_loop S (length m) (m @ r) p (length xs) = Done (items_at p xs, m @ r')"
  using assms
proof (induction xs arbitrary: r p)
  case (Cons x xs)
  have at: "item_at m p x" "item_at m (p + length x) (concat xs)"
    using Cons.prems(1) item_at_append by auto
  then have x: "itemLength_mem S (m @ r) p = length x" "p + length x < 2 ^ 256"
    using Cons.prems(2) item_at_more [OF at(1)] by (simp_all add: whole_item_def item_at_def)
  obtain r' where "items_loop S (length m) (m @ smItem S (length m) (m @ r)) (p + length x) (length xs) = Done (items_at (p + length x) xs, m @ r')"
    using Cons.IH [OF at(2)] Cons.prems(2) by (meson list.set_intros(2))
  then show ?case
    using x by (simp add: uadd_def Let_def)
qed simp

lemma whole_items_length: "\<forall>x\<in>set xs. whole_item x \<Longrightarrow> length xs \<le> length (concat xs)"
proof (induction xs)
  case (Cons x xs)
  then have "Suc 0 \<le> length x"
    by (simp add: whole_item_def Suc_le_eq)
  then show ?case
    using Cons by fastforce
qed simp

lemma toList_read:
  assumes at: "item_at m (item_ptr item) (rlp_list xs)" and "item_len item = length (rlp_list xs)"
    and whole: "\<forall>x\<in>set xs. whole_item x"
  shows "\<exists>r. toList S m item = Done (items_at (item_ptr item + list_prefix xs) xs, m @ r)"
proof -
  let ?p = "item_ptr item" and ?m = "m @ smNew S m"
  note read = list_at_read(1,2) [OF at, of S] list_at_read(3) [OF at] list_at_read(4) [OF at, of S]
  have len: "item_len item \<noteq> 0" "?p + item_len item = ?p + list_prefix xs + length (concat xs)"
    using assms(2) rlp_list_nonempty [of xs] by (simp, simp add: length_rlp_list)
  have bound: "?p + list_prefix xs < 2 ^ 256" "?p + item_len item < 2 ^ 256" "length xs < 2 ^ 64"
    using at assms(2) whole_items_length [OF whole] by (simp_all add: item_at_def length_rlp_list)
  have num: "numItems S m item = Done (length xs)"
    using numItems_loop_read [OF read(3) whole, of S 0] len bound read(1) unfolding numItems_def by (auto simp add: uadd_def simp flip: add.assoc)
  have offset: "payloadOffset_mem S ?m ?p = list_prefix xs"
    using list_at_read(1) [OF item_at_more [OF at]] .
  obtain r where "items_loop S (length m) ?m (?p + list_prefix xs) (length xs) = Done (items_at (?p + list_prefix xs) xs, m @ r)"
    using items_loop_read [OF read(3) whole] by blast
  then show ?thesis
    using num offset bound len(1) read(4) by (simp add: toList_def isList_def uadd_def Let_def allocate_def)
qed

lemma toBytes_read:
  assumes at: "item_at m (item_ptr item) (rlp_string b)" and "item_len item = length (rlp_string b)"
  shows "\<exists>r. toBytes S m item = Done (b, m @ r)"
proof -
  note read = string_at_read(1,2) [OF at] string_at_read(3) [OF at]
  let ?ptr = "item_ptr item + rlp_prefix b" and ?result = "replicate (length b) 0"
  have inside: "?ptr + length b \<le> length m"
    using lies_bound [of m "item_ptr item" "rlp_string b"] at rlp_string_nonempty [of b] by (simp add: item_at_def length_rlp_string)
  have "mem_slice S m ?ptr (length b) = b"
  proof (cases "b = []")
    case False
    then show ?thesis
      using lies_slice_mem [OF _ False] read(3) by (simp add: item_at_def)
  qed (simp add: mem_slice_def)
  then have "copy S (new_array S m ?result) ?ptr (length (new_array S m ?result) - length b) (length b) = m @ (smPad S m @ word_bytes (length b)) @ b"
    using copy_new [of ?result "length b" ?ptr m S] inside by simp
  moreover have "0 < item_len item"
    using assms(2) rlp_string_nonempty [of b] by simp
  moreover have "?ptr < 2 ^ 256" "length b < 2 ^ 64"
    using at by (simp_all add: item_at_def length_rlp_string)
  ultimately show ?thesis
    using read(1) assms(2)
    by (simp add: toBytes_def payloadLocation_def Let_def uadd_def usub_def new_bytes_def length_rlp_string) (simp add: new_array_def)
qed

lemma length_rlp_string_33: "length (rlp_string b) = 33 \<longleftrightarrow> length b = 32"
proof -
  have "length (rlp_string b) \<noteq> 33" if "56 \<le> length b"
    using that by (simp add: length_rlp_string)
  then show ?thesis
    by (cases "length b < 56") (auto simp: length_rlp_string rlp_prefix_eq)
qed

lemma toUintStrict_read:
  assumes at: "item_at m (item_ptr item) (rlp_string b)" and "item_len item = length (rlp_string b)"
  shows "toUintStrict S m item = (if length b = 32 then Done (be_val b) else Revert (Require []))"
proof (cases "length b = 32")
  case True
  have "item_at m (Suc (item_ptr item)) b"
    using string_at_read(3) [OF at] True by (simp add: rlp_prefix_eq)
  then have "mload S m (Suc (item_ptr item)) = be_val b"
    using lies_slice_mem [of m "Suc (item_ptr item)" b S] True unfolding mload_def by (metis item_at_def list.size(3) zero_neq_numeral)
  moreover have "Suc (item_ptr item) < 2 ^ 256"
    using at by (simp add: item_at_def)
  ultimately show ?thesis
    using True assms(2) length_rlp_string_33 [of b] by (simp add: toUintStrict_def uadd_def)
next
  case False
  then show ?thesis
    using assms(2) length_rlp_string_33 [of b] by (simp add: toUintStrict_def)
qed

section \<open>Where items begin\<close>

text \<open>Every item that \<open>toList\<close> finds in an array begins in the array, though the last one may end behind it:
  while items are added to memory, only the header of the last one can change.\<close>

lemma byte0_mem_slice: "byte0_mem S m p = unat (mem_byte S m p)"
proof -
  have "mem_slice S m p 32 = [mem_byte S m p] @ mem_slice S m (Suc p) 31"
    using mem_slice_split [of 1 32 S m p] by (simp add: mem_slice_def)
  moreover have "be_val (mem_slice S m (Suc p) 31) < 256 ^ 31"
    using be_val_less [of "mem_slice S m (Suc p) 31"] by simp
  ultimately show ?thesis
    by (simp add: byte0_mem_def mload_def)
qed

lemma itemLength_more:
  assumes "p + itemLength_mem S m p \<le> length m" and "p < 2 ^ 128"
  shows "itemLength_mem S (m @ r) p = itemLength_mem S m p"
proof -
  have "p < length m"
    using assms(1) itemLength_pos [of S m p] by simp
  then have first: "byte0_mem S (m @ r) p = byte0_mem S m p"
    by (simp add: byte0_mem_slice mem_byte_def nth_append)
  have long: "long_length_mem S (m @ r) p k = long_length_mem S m p k" if "p + long_length_mem S m p k \<le> length m" "0 < k" "k \<le> 8" for k
    using that long_length_mem_eq(1) [of k p S] assms(2) mem_slice_more [of "Suc p" k m S r] by simp
  show ?thesis
    by (rule first_byte_cases [OF byte0_mem_less [of S m p]])
       (use assms(1) long in \<open>simp_all add: itemLength_mem_def first rlp_starts evm_sub_le Let_def\<close>)
qed

lemma items_loop_begin:
  assumes "numItems_loop S arr p (length arr) k = Done (k + n)" and "items_loop S (length arr) (arr @ r) p n = Done (items, m)" and "length arr < 2 ^ 64"
  shows "\<forall>item\<in>set items. item_ptr item < length arr" and "\<exists>r'. m = arr @ r'"
proof -
  have "(\<forall>item\<in>set items. item_ptr item < length arr) \<and> (\<exists>r'. m = arr @ r')"
    using assms(1,2)
  proof (induction n arbitrary: p k r items)
    case (Suc n)
    have p: "p < length arr"
      using Suc.prems(1) by (subst (asm) numItems_loop.simps) (simp split: if_splits)
    then have next_arr: "numItems_loop S arr (p + itemLength_mem S arr p) (length arr) (Suc k) = Done (Suc k + n)"
      using Suc.prems(1) by (subst (asm) numItems_loop.simps) (auto simp: evm_inv)
    let ?q = "p + itemLength_mem S (arr @ r) p"
    obtain rest where rest: "items_loop S (length arr) (arr @ smItem S (length arr) (arr @ r)) ?q n = Done (rest, m)"
      "items = \<lparr>item_len = itemLength_mem S (arr @ r) p, item_ptr = p\<rparr> # rest"
      using Suc.prems(2) by (auto simp: evm_inv Let_def)
    show ?case
    proof (cases n)
      case 0
      then show ?thesis
        using rest p by auto
    next
      case (Suc n')
      then have "p + itemLength_mem S arr p < length arr"
        using next_arr by (subst (asm) numItems_loop.simps) (simp split: if_splits)
      then have "itemLength_mem S (arr @ r) p = itemLength_mem S arr p"
        using p assms(3) by (intro itemLength_more) simp_all
      then show ?thesis
        using Suc.IH [OF next_arr] rest p by simp
    qed
  qed auto
  then show "\<forall>item\<in>set items. item_ptr item < length arr" "\<exists>r'. m = arr @ r'"
    by simp_all
qed

lemma toList_begin:
  assumes "toList S arr (toRlpItem arr) = Done (items, m)" and "length arr < 2 ^ 64"
  shows "\<forall>item\<in>set items. item_ptr item < length arr" and "\<exists>r. m = arr @ r"
proof -
  have arr: "arr \<noteq> []"
    using assms(1) by (auto simp: toList_def isList_def toRlpItem_def evm_inv)
  obtain n where n: "numItems_loop S arr (payloadOffset_mem S arr 0) (length arr) 0 = Done n"
    "items_loop S (length arr) (arr @ smNew S arr) (payloadOffset_mem S (arr @ smNew S arr) 0) n = Done (items, m)"
    using assms(1) arr by (auto simp: toList_def numItems_def toRlpItem_def evm_inv allocate_def Let_def split: if_splits)
  have "payloadOffset_mem S (arr @ smNew S arr) 0 = payloadOffset_mem S arr 0"
    using arr by (simp add: payloadOffset_mem_def byte0_mem_slice mem_byte_def nth_append)
  then show "\<forall>item\<in>set items. item_ptr item < length arr" "\<exists>r. m = arr @ r"
    using items_loop_begin [of S arr "payloadOffset_mem S arr 0" 0 n] n assms(2) by simp_all
qed

text \<open>A list of one item that claims three more bytes than there are: the item is listed.\<close>

lemma toList_past_end: "\<exists>m. toList S [0xc1, 0x83] (toRlpItem [0xc1, 0x83]) = Done ([\<lparr>item_len = 4, item_ptr = 1\<rparr>], m)"
proof -
  have bytes: "byte0_mem S ([0xc1, 0x83] @ r) 0 = 0xc1" "byte0_mem S ([0xc1, 0x83] @ r) 1 = 0x83" for r
    by (simp_all add: byte0_mem_slice mem_byte_def)
  then have item: "itemLength_mem S ([0xc1, 0x83] @ r) 1 = 4" "payloadOffset_mem S ([0xc1, 0x83] @ r) 0 = 1" for r
    unfolding itemLength_mem_def payloadOffset_mem_def by (simp_all add: rlp_starts)
  have "numItems_loop S [0xc1, 0x83] 1 2 0 = Done 1"
    unfolding numItems_loop.simps [of _ _ 1] using item(1) [of "[]"] by (simp add: uadd_def numItems_loop.simps)
  then show ?thesis
    using bytes(1) [of "[]"] item(2) [of "[]"] item [of "smNew S [0xc1, 0x83]"]
    by (simp add: toList_def toRlpItem_def isList_def numItems_def uadd_def rlp_starts Let_def allocate_def flip: numeral_2_eq_2)
qed

end
