(* ===== verification/MerkleProof.thy ===== *)
theory MerkleProof
  imports RlpReader
begin

text \<open>
  Proofs of inclusion in a Merkle Patricia trie (\<open>contracts/libraries/MerklePatriciaProof.sol\<close>), against
  tries as the Ethereum documentation defines them: what the verifier accepts is in the trie that
  the root commits to, and the nodes on the way to a value are accepted. The hash is a parameter.
\<close>

section \<open>The verifier\<close>

definition getNthNibbleOfBytes :: "nat \<Rightarrow> bytes \<Rightarrow> u8 evm" where
  "getNthNibbleOfBytes n str =
     evm_bind (get_byte str (n div 2)) (\<lambda>b. Done (if n mod 2 = 0 then b div 0x10 else b mod 0x10))"

function nibble_loop :: "bytes \<Rightarrow> nat \<Rightarrow> nat \<Rightarrow> bytes \<Rightarrow> bytes evm" where
  "nibble_loop b offset i nibbles =
     (if i < length nibbles then
        evm_bind (getNthNibbleOfBytes (i - offset + 2) b) (\<lambda>x. nibble_loop b offset (Suc i) (nibbles[i := x]))
      else Done nibbles)"
  by pat_completeness auto
termination
  by (relation "measure (\<lambda>(_, _, i, nibbles). length nibbles - i)") auto

declare nibble_loop.simps [simp del]

definition getNibbleArray :: "bytes \<Rightarrow> bytes evm" where
  "getNibbleArray b =
     (if length b = 0 then Done []
      else evm_bind (getNthNibbleOfBytes 0 b) (\<lambda>hpNibble.
        if hpNibble = 1 \<or> hpNibble = 3 then
          evm_bind (new_bytes (length b * 2 - 1)) (\<lambda>nibbles.
          evm_bind (getNthNibbleOfBytes 1 b) (\<lambda>oddNibble.
          evm_bind (set_byte nibbles 0 oddNibble) (\<lambda>nibbles. nibble_loop b 1 1 nibbles)))
        else
          evm_bind (new_bytes (length b * 2 - 2)) (\<lambda>nibbles. nibble_loop b 0 0 nibbles)))"

function slice_loop :: "bytes \<Rightarrow> nat \<Rightarrow> nat \<Rightarrow> bytes \<Rightarrow> bytes evm" where
  "slice_loop path pathPtr i slicedPath =
     (if i < pathPtr + length slicedPath then
        evm_bind (get_byte path i) (\<lambda>pathNibble.
        evm_bind (set_byte slicedPath (i - pathPtr) pathNibble) (\<lambda>slicedPath. slice_loop path pathPtr (Suc i) slicedPath))
      else Done slicedPath)"
  by pat_completeness auto
termination
  by (relation "measure (\<lambda>(_, pathPtr, i, slicedPath). pathPtr + length slicedPath - i)")
    (auto simp: set_byte_def split: if_splits)

declare slice_loop.simps [simp del]

definition nibblesToTraverse :: "(bytes \<Rightarrow> hash) \<Rightarrow> bytes \<Rightarrow> bytes \<Rightarrow> nat \<Rightarrow> nat evm" where
  "nibblesToTraverse K encodedPartialPath path pathPtr =
     evm_bind (getNibbleArray encodedPartialPath) (\<lambda>partialPath.
     evm_bind (new_bytes (length partialPath)) (\<lambda>slicedPath.
     evm_bind (slice_loop path pathPtr pathPtr slicedPath) (\<lambda>slicedPath.
     Done (if K partialPath = K slicedPath then length partialPath else 0))))"

text \<open>One round of the loop of \<open>verify\<close> per node of the proof; \<open>bytes32(n)\<close> is a word as bytes. The memory
  begins with the array of the nodes; what \<open>nibblesToTraverse\<close> allocates, at least an array, is one new object.\<close>

primrec verify_loop ::
  "sol_memory \<Rightarrow> (bytes \<Rightarrow> hash) \<Rightarrow> hash \<Rightarrow> bytes \<Rightarrow> RLPItem list \<Rightarrow> bytes \<Rightarrow> hash \<Rightarrow> nat \<Rightarrow> bool evm" where
  "verify_loop S K value nibblePath [] m nodeKey pathPtr = Done False"
| "verify_loop S K value nibblePath (sibling # rest) m nodeKey pathPtr =
     (if pathPtr > length nibblePath then Done False
      else evm_bind (toRlpBytes S m sibling) (\<lambda>(node, m).
        if nodeKey \<noteq> K node then Done False
        else evm_bind (toList S m sibling) (\<lambda>(currentNodeList, m).
          if length currentNodeList = 17 then
            if pathPtr = length nibblePath then
              evm_bind (toBytes S m (currentNodeList ! 16)) (\<lambda>(v, m). Done (K v = value))
            else
              evm_bind (get_byte nibblePath pathPtr) (\<lambda>nextPathNibble.
              if nextPathNibble > 16 then Done False
              else evm_bind (toUintStrict S m (currentNodeList ! unat nextPathNibble)) (\<lambda>key.
                verify_loop S K value nibblePath rest m (word_bytes key) (pathPtr + 1)))
          else if length currentNodeList = 2 then
            evm_bind (toBytes S m (currentNodeList ! 0)) (\<lambda>(p, m).
            evm_bind (nibblesToTraverse K p nibblePath pathPtr) (\<lambda>traversed.
            let m = allocate S m in
            if pathPtr + traversed = length nibblePath then
              evm_bind (toBytes S m (currentNodeList ! 1)) (\<lambda>(v, m). Done (K v = value))
            else if traversed = 0 then Done False
            else evm_bind (toUintStrict S m (currentNodeList ! 1)) (\<lambda>key.
              verify_loop S K value nibblePath rest m (word_bytes key) (pathPtr + traversed))))
          else Done False)))"

definition verify :: "sol_memory \<Rightarrow> (bytes \<Rightarrow> hash) \<Rightarrow> hash \<Rightarrow> bytes \<Rightarrow> bytes \<Rightarrow> hash \<Rightarrow> bool evm" where
  "verify S K value path siblingsRlp root =
     evm_bind (toList S siblingsRlp (toRlpItem siblingsRlp)) (\<lambda>(siblings, m).
     evm_bind (getNibbleArray path) (\<lambda>nibblePath.
     if length nibblePath = 0 then Done False
     else verify_loop S K value nibblePath siblings (allocate S m) root 0))"

section \<open>Tries\<close>

text \<open>A trie in which every node is referred to by its hash, as it is when the values have more than 32
  bytes. A path is a list of nibbles; a branch whose value is empty has none.\<close>

datatype mpt =
    Leaf "u8 list" bytes
  | Extension "u8 list" mpt
  | Branch "mpt option list" bytes

fun lookup :: "mpt \<Rightarrow> u8 list \<Rightarrow> bytes option" where
  "lookup (Leaf ns v) path = (if path = ns then Some v else None)"
| "lookup (Extension ns t) path = (if take (length ns) path = ns then lookup t (drop (length ns) path) else None)"
| "lookup (Branch cs v) [] = (if v = [] then None else Some v)"
| "lookup (Branch cs v) (n # path) =
     (if unat n < length cs then (case cs ! unat n of None \<Rightarrow> None | Some t \<Rightarrow> lookup t path) else None)"

text \<open>Hex-prefix encoding of a path, and its reading.\<close>

fun pack_nibbles :: "u8 list \<Rightarrow> bytes" where
  "pack_nibbles (a # b # ns) = (16 * a + b) # pack_nibbles ns"
| "pack_nibbles ns = []"

definition hex_prefix :: "bool \<Rightarrow> u8 list \<Rightarrow> bytes" where
  "hex_prefix leaf ns =
     pack_nibbles ((if even (length ns) then [if leaf then 2 else 0, 0] else [if leaf then 3 else 1]) @ ns)"

definition nibbles_of :: "bytes \<Rightarrow> u8 list" where
  "nibbles_of b = concat (map (\<lambda>x. [x div 16, x mod 16]) b)"

definition hp_nibbles :: "bytes \<Rightarrow> u8 list" where
  "hp_nibbles b = (let ns = nibbles_of b in if hd ns = 1 \<or> hd ns = 3 then drop 1 ns else drop 2 ns)"

text \<open>The fields of a node and its encoding.\<close>

fun node_fields :: "(bytes \<Rightarrow> hash) \<Rightarrow> mpt \<Rightarrow> bytes list" where
  "node_fields K (Leaf ns v) = [hex_prefix True ns, v]"
| "node_fields K (Extension ns t) = [hex_prefix False ns, K (rlp_list (map rlp_string (node_fields K t)))]"
| "node_fields K (Branch cs v) =
     map (\<lambda>c. case c of None \<Rightarrow> [] | Some t \<Rightarrow> K (rlp_list (map rlp_string (node_fields K t)))) cs @ [v]"

definition node_rlp :: "(bytes \<Rightarrow> hash) \<Rightarrow> mpt \<Rightarrow> bytes" where
  "node_rlp K t = rlp_list (map rlp_string (node_fields K t))"

fun subtries :: "mpt \<Rightarrow> mpt list" where
  "subtries (Leaf ns v) = [Leaf ns v]"
| "subtries (Extension ns t) = Extension ns t # subtries t"
| "subtries (Branch cs v) = Branch cs v # concat (map (\<lambda>c. case c of None \<Rightarrow> [] | Some t \<Rightarrow> subtries t) cs)"

fun wf_node :: "mpt \<Rightarrow> bool" where
  "wf_node (Leaf ns v) \<longleftrightarrow> (\<forall>n\<in>set ns. n < 16) \<and> 32 < length v"
| "wf_node (Extension ns t) \<longleftrightarrow> (\<forall>n\<in>set ns. n < 16) \<and> ns \<noteq> [] \<and> (\<exists>cs v. t = Branch cs v)"
| "wf_node (Branch cs v) \<longleftrightarrow> length cs = 16"

text \<open>What the hash of a node pins down: the strings that the verifier compares by their hashes.\<close>

fun pinned :: "(bytes \<Rightarrow> hash) \<Rightarrow> mpt \<Rightarrow> bytes list" where
  "pinned K (Leaf ns v) = [node_rlp K (Leaf ns v), ns, v]"
| "pinned K (Extension ns t) = [node_rlp K (Extension ns t), ns, K (node_rlp K t)]"
| "pinned K (Branch cs v) = [node_rlp K (Branch cs v), v]"

definition commits :: "(bytes \<Rightarrow> hash) \<Rightarrow> mpt \<Rightarrow> bool" where
  "commits K T \<longleftrightarrow> (\<forall>t\<in>set (subtries T). wf_node t \<and> (\<forall>s\<in>set (pinned K t). \<forall>x. K x = K s \<longrightarrow> x = s))"

lemma subtries_self: "t \<in> set (subtries t)"
  by (cases t) simp_all

lemma commits_simps:
  "commits K (Extension ns t) \<Longrightarrow> commits K t"
  "commits K (Branch cs v) \<Longrightarrow> Some t \<in> set cs \<Longrightarrow> commits K t"
  by (force simp: commits_def)+

lemma commits_wf: "commits K t \<Longrightarrow> wf_node t"
  using subtries_self by (auto simp: commits_def)

lemma commits_pinned: "commits K t \<Longrightarrow> s \<in> set (pinned K t) \<Longrightarrow> K x = K s \<Longrightarrow> x = s"
  using subtries_self by (auto simp: commits_def)

lemma pinned_node: "node_rlp K t \<in> set (pinned K t)"
  by (cases t) simp_all

section \<open>Nibbles\<close>

lemma nibbles_of_simps [simp]: "nibbles_of [] = []" "nibbles_of (x # b) = x div 16 # x mod 16 # nibbles_of b"
  by (simp_all add: nibbles_of_def)

lemma length_nibbles_of [simp]: "length (nibbles_of b) = 2 * length b"
  by (induction b) simp_all

lemma nibbles_of_nth: "i < length b \<Longrightarrow> nibbles_of b ! (2 * i) = b ! i div 16 \<and> nibbles_of b ! Suc (2 * i) = b ! i mod 16"
  by (induction b arbitrary: i) (simp_all add: nth_Cons split: nat.splits)

lemma nibble_less: "(x :: u8) div 16 < 16" "(x :: u8) mod 16 < 16"
  using unsigned_less [of x, where 'a = nat] by (simp_all add: word_less_nat_alt unat_div unat_mod less_mult_imp_div_less)

lemma nibbles_of_less: "n \<in> set (nibbles_of b) \<Longrightarrow> n < 16"
  by (induction b) (auto simp: nibble_less)

lemma hp_nibbles_less: "n \<in> set (hp_nibbles b) \<Longrightarrow> n < 16"
  using nibbles_of_less [of n b] by (auto simp: hp_nibbles_def Let_def dest: in_set_dropD split: if_splits)

lemma getNthNibble_eq: "n < 2 * length b \<Longrightarrow> getNthNibbleOfBytes n b = Done (nibbles_of b ! n)"
proof -
  assume n: "n < 2 * length b"
  obtain i where i: "n = 2 * i \<or> n = Suc (2 * i)"
    by (metis oddE evenE Suc_eq_plus1)
  then have "i < length b"
    using n by auto
  then show ?thesis
    using i nibbles_of_nth [of i b] by (auto simp: getNthNibbleOfBytes_def get_byte_def)
qed

lemma nibble_loop_eq:
  "offset \<le> i \<Longrightarrow> i \<le> length nibbles \<Longrightarrow> length nibbles + 2 = 2 * length b + offset \<Longrightarrow>
   nibble_loop b offset i nibbles = Done (take i nibbles @ drop (i - offset + 2) (nibbles_of b))"
proof (induction b offset i nibbles rule: nibble_loop.induct)
  case (1 b offset i nibbles)
  show ?case
  proof (cases "i < length nibbles")
    case True
    let ?k = "i - offset + 2"
    have k: "?k < 2 * length b" "Suc i - offset + 2 = Suc ?k"
      using True "1.prems" by simp_all
    then have "drop ?k (nibbles_of b) = nibbles_of b ! ?k # drop (Suc ?k) (nibbles_of b)"
      by (simp add: Cons_nth_drop_Suc)
    moreover have "take (Suc i) (nibbles[i := nibbles_of b ! ?k]) = take i nibbles @ [nibbles_of b ! ?k]"
      using True by (simp add: take_Suc_conv_app_nth)
    ultimately show ?thesis
      using True "1.prems" k "1.IH" [OF True getNthNibble_eq [OF k(1)]]
      by (simp add: nibble_loop.simps [of b] getNthNibble_eq)
  next
    case False
    then show ?thesis
      using "1.prems" by (simp add: nibble_loop.simps [of b])
  qed
qed

lemma getNibbleArray_eq: "getNibbleArray b = evm_bind (new_bytes (length (hp_nibbles b))) (\<lambda>_. Done (hp_nibbles b))"
proof (cases b)
  case Nil
  then show ?thesis
    by (simp add: getNibbleArray_def hp_nibbles_def new_bytes_def)
next
  case (Cons x r)
  have first: "getNthNibbleOfBytes 0 b = Done (x div 16)" "getNthNibbleOfBytes 1 b = Done (x mod 16)"
    using getNthNibble_eq [of 0 b] getNthNibble_eq [of 1 b] Cons by simp_all
  show ?thesis
  proof (cases "x div 16 = 1 \<or> x div 16 = 3")
    case True
    let ?nibbles = "(replicate (2 * length b - 1) 0)[0 := x mod 16]"
    have "nibble_loop b 1 1 ?nibbles = Done (take 1 ?nibbles @ drop 2 (nibbles_of b))"
      using nibble_loop_eq [of 1 1 ?nibbles b] Cons by simp
    moreover have "take 1 ?nibbles @ drop 2 (nibbles_of b) = hp_nibbles b"
      using True Cons by (simp add: hp_nibbles_def)
    moreover have "length (hp_nibbles b) = length b * 2 - 1"
      using True Cons by (simp add: hp_nibbles_def)
    ultimately show ?thesis
      using True Cons first by (simp add: getNibbleArray_def new_bytes_def set_byte_def mult.commute)
  next
    case False
    then have hp: "hp_nibbles b = drop 2 (nibbles_of b)"
      using Cons by (simp add: hp_nibbles_def)
    then show ?thesis
      using False Cons first nibble_loop_eq [of 0 0 "replicate (2 * length b - 2) 0" b]
      by (simp add: getNibbleArray_def new_bytes_def mult.commute)
  qed
qed

lemma getNibbleArray_Done: "getNibbleArray b = Done ns \<longleftrightarrow> ns = hp_nibbles b \<and> length (hp_nibbles b) < 2 ^ 64"
  by (auto simp: getNibbleArray_eq new_bytes_def)

text \<open>Hex-prefix encoding is undone by the verifier's reading.\<close>

lemma nibble_pair:
  assumes "(a :: u8) < 16" and "b < 16"
  shows "(16 * a + b) div 16 = a" and "(16 * a + b) mod 16 = b"
proof -
  have small: "unat a < 16" "unat b < 16"
    using assms by (simp_all add: word_less_nat_alt)
  then have "unat (16 * a + b) = 16 * unat a + unat b"
    by (simp add: unat_word_ariths)
  then show "(16 * a + b) div 16 = a" "(16 * a + b) mod 16 = b"
    using small by (simp_all add: word_unat_eq_iff unat_div unat_mod)
qed

lemma nibbles_of_pack: "even (length ns) \<Longrightarrow> \<forall>n\<in>set ns. n < 16 \<Longrightarrow> nibbles_of (pack_nibbles ns) = ns"
  by (induction ns rule: pack_nibbles.induct) (simp_all add: nibble_pair)

lemma hp_nibbles_prefix: "\<forall>n\<in>set ns. n < 16 \<Longrightarrow> hp_nibbles (hex_prefix leaf ns) = ns"
  by (simp add: hp_nibbles_def hex_prefix_def nibbles_of_pack)

lemma length_pack_nibbles: "length (pack_nibbles ns) = length ns div 2"
  by (induction ns rule: pack_nibbles.induct) simp_all

lemma length_hex_prefix: "length (hex_prefix leaf ns) \<le> Suc (length ns)"
  by (simp add: hex_prefix_def length_pack_nibbles)

section \<open>Traversing a partial path\<close>

lemma slice_loop_eq:
  assumes "ptr \<le> i" and "i \<le> ptr + length sliced" and "ptr + length sliced \<le> length path"
  shows "slice_loop path ptr i sliced = Done (take (i - ptr) sliced @ take (ptr + length sliced - i) (drop i path))"
  using assms
proof (induction path ptr i sliced rule: slice_loop.induct)
  case (1 path ptr i sliced)
  show ?case
  proof (cases "i < ptr + length sliced")
    case True
    let ?s = "sliced[i - ptr := path ! i]"
    have i: "i < length path" "i - ptr < length sliced" "Suc i - ptr = Suc (i - ptr)"
      using True "1.prems" by simp_all
    have "ptr + length sliced - i = Suc (ptr + length sliced - Suc i)"
      using True by simp
    then have "take (ptr + length sliced - i) (drop i path) = path ! i # take (ptr + length sliced - Suc i) (drop (Suc i) path)"
      using i(1) by (simp add: Cons_nth_drop_Suc [symmetric])
    moreover have "take (Suc (i - ptr)) ?s = take (i - ptr) sliced @ [path ! i]"
      using i(2) by (simp add: take_Suc_conv_app_nth)
    moreover have "slice_loop path ptr (Suc i) ?s = Done (take (Suc i - ptr) ?s @ take (ptr + length ?s - Suc i) (drop (Suc i) path))"
      by (rule "1.IH" [OF True]) (use True "1.prems" i in \<open>simp_all add: get_byte_def set_byte_def\<close>)
    ultimately show ?thesis
      using True i by (simp add: slice_loop.simps [of path] get_byte_def set_byte_def)
  next
    case False
    then show ?thesis
      using "1.prems" by (simp add: slice_loop.simps [of path])
  qed
qed

lemma slice_loop_outside:
  "slice_loop path ptr i sliced = Done r \<Longrightarrow> i < ptr + length sliced \<Longrightarrow> ptr + length sliced \<le> length path"
proof (induction path ptr i sliced rule: slice_loop.induct)
  case (1 path ptr i sliced)
  obtain x s where step: "get_byte path i = Done x" "set_byte sliced (i - ptr) x = Done s" "slice_loop path ptr (Suc i) s = Done r"
    using "1.prems" unfolding slice_loop.simps [of path ptr i] by (auto simp: evm_inv)
  then have s: "length s = length sliced" "i < length path"
    by (auto simp: set_byte_def get_byte_def split: if_splits)
  show ?case
  proof (cases "Suc i < ptr + length s")
    case True
    then show ?thesis
      using "1.IH" [OF "1.prems"(2) step(1,2,3)] s(1) by simp
  next
    case False
    then show ?thesis
      using "1.prems"(2) s by simp
  qed
qed

text \<open>A partial path that the hash pins down is traversed as a whole or not at all; one that reaches past
  the end of the path reverts.\<close>

lemma nibblesToTraverse_Done:
  assumes "nibblesToTraverse K p path ptr = Done n" and "\<And>x. K x = K (hp_nibbles p) \<Longrightarrow> x = hp_nibbles p" and "ptr \<le> length path"
  shows "ptr + length (hp_nibbles p) \<le> length path"
    and "n = (if take (length (hp_nibbles p)) (drop ptr path) = hp_nibbles p then length (hp_nibbles p) else 0)"
proof -
  let ?ns = "hp_nibbles p"
  obtain s where s: "slice_loop path ptr ptr (replicate (length ?ns) 0) = Done s" "n = (if K ?ns = K s then length ?ns else 0)"
    using assms(1) by (auto simp: nibblesToTraverse_def getNibbleArray_Done new_bytes_def evm_inv)
  show inside: "ptr + length ?ns \<le> length path"
    using slice_loop_outside [OF s(1)] assms(3) by (cases "?ns = []") simp_all
  then have "s = take (length ?ns) (drop ptr path)"
    using slice_loop_eq [of ptr ptr "replicate (length ?ns) 0" path] s(1) by simp
  then show "n = (if take (length ?ns) (drop ptr path) = ?ns then length ?ns else 0)"
    using s(2) assms(2) by metis
qed

lemma nibblesToTraverse_eq:
  assumes "take (length (hp_nibbles p)) (drop ptr path) = hp_nibbles p" and "length path < 2 ^ 64" and "ptr \<le> length path"
  shows "nibblesToTraverse K p path ptr = Done (length (hp_nibbles p))"
proof -
  let ?ns = "hp_nibbles p"
  have "length ?ns = min (length ?ns) (length path - ptr)"
    using arg_cong [OF assms(1), of length] by simp
  then have inside: "ptr + length ?ns \<le> length path"
    using assms(3) by simp
  then show ?thesis
    using slice_loop_eq [of ptr ptr "replicate (length ?ns) 0" path] assms(1,2)
    by (simp add: nibblesToTraverse_def getNibbleArray_eq new_bytes_def)
qed

section \<open>Soundness and completeness\<close>

text \<open>A node of the trie in memory: its list has its fields.\<close>

definition node_at :: "(bytes \<Rightarrow> hash) \<Rightarrow> bytes \<Rightarrow> RLPItem \<Rightarrow> mpt \<Rightarrow> bool" where
  "node_at K m item t \<longleftrightarrow> item_len item = length (node_rlp K t) \<and> item_at m (item_ptr item) (node_rlp K t)"

lemma node_at_more: "node_at K m item t \<Longrightarrow> node_at K (m @ r) item t"
  by (simp add: node_at_def item_at_more)

definition fields_read :: "sol_memory \<Rightarrow> (bytes \<Rightarrow> hash) \<Rightarrow> bytes \<Rightarrow> RLPItem list \<Rightarrow> mpt \<Rightarrow> bool" where
  "fields_read S K m items t \<longleftrightarrow> length items = length (node_fields K t) \<and>
     (\<forall>i < length items. \<forall>r.
        (\<exists>r'. toBytes S (m @ r) (items ! i) = Done (node_fields K t ! i, m @ r @ r'))
        \<and> toUintStrict S (m @ r) (items ! i) =
            (if length (node_fields K t ! i) = 32 then Done (be_val (node_fields K t ! i)) else Revert (Require [])))"

lemma fields_readD:
  assumes "fields_read S K m items t" and "i < length items"
  shows "\<exists>r'. toBytes S (m @ r) (items ! i) = Done (node_fields K t ! i, m @ r @ r')"
    and "toUintStrict S (m @ r) (items ! i) =
      (if length (node_fields K t ! i) = 32 then Done (be_val (node_fields K t ! i)) else Revert (Require []))"
  using assms by (auto simp: fields_read_def)

lemma node_fields_read:
  assumes "node_at K m item t"
  obtains items r where "toList S m item = Done (items, m @ r)" and "fields_read S K m items t"
proof -
  let ?xs = "map rlp_string (node_fields K t)"
  have at: "item_at m (item_ptr item) (rlp_list ?xs)" "item_len item = length (rlp_list ?xs)"
    using assms by (simp_all add: node_at_def node_rlp_def)
  let ?items = "items_at (item_ptr item + list_prefix ?xs) ?xs"
  obtain r where list: "toList S m item = Done (?items, m @ r)"
    using toList_read [OF at] rlp_string_item by auto
  have field: "item_len (?items ! i) = length (rlp_string (node_fields K t ! i)) \<and> item_at m (item_ptr (?items ! i)) (rlp_string (node_fields K t ! i))"
    if "i < length (node_fields K t)" for i
    using items_at_nth [of i ?xs m] list_at_read(3) [OF at(1)] that by simp
  have "(\<exists>r'. toBytes S (m @ r) (?items ! i) = Done (node_fields K t ! i, m @ r @ r'))
      \<and> toUintStrict S (m @ r) (?items ! i) = (if length (node_fields K t ! i) = 32 then Done (be_val (node_fields K t ! i)) else Revert (Require []))"
    if i: "i < length (node_fields K t)" for i r
    using toBytes_read [OF item_at_more] toUintStrict_read [OF item_at_more] field [OF i] by simp
  then show ?thesis
    using that [OF list] by (simp add: fields_read_def)
qed

text \<open>A node of the proof that was copied out of memory lies there, and one that lies there is copied.\<close>

lemma node_at_copied:
  assumes "toRlpBytes S m item = Done (node_rlp K t, m')" and "item_ptr item \<le> length m" and "item_ptr item < 2 ^ 64"
  shows "node_at K m' item t" and "\<exists>r. m' = m @ r"
  using toRlpBytes_Done [OF assms(1,2)] assms(3) by (simp_all add: node_at_def item_at_def)

lemma node_at_copy:
  assumes "node_at K m item t"
  shows "\<exists>r. toRlpBytes S m item = Done (node_rlp K t, m @ r)"
proof -
  have at: "lies m (item_ptr item) (node_rlp K t)" "item_len item = length (node_rlp K t)" "item_len item < 2 ^ 64"
    using assms by (simp_all add: node_at_def item_at_def)
  have "node_rlp K t \<noteq> []"
    by (simp add: node_rlp_def rlp_list_nonempty)
  then have "item_ptr item + item_len item \<le> length m" "mem_slice S m (item_ptr item) (item_len item) = node_rlp K t"
    using lies_bound [OF at(1)] lies_slice_mem [OF at(1)] at(2) by simp_all
  then show ?thesis
    using toRlpBytes_inside [OF at(3), of m S] by simp
qed

text \<open>The verifier on the node of a trie that the key names: each kind of node in turn.\<close>

lemma word_bytes_val: "length b = 32 \<Longrightarrow> word_bytes (be_val b) = b"
  using be_fixed_val [of b] by (simp add: word_bytes_def del: be_fixed.simps)

definition within_memory :: "bytes \<Rightarrow> RLPItem list \<Rightarrow> bool" where
  "within_memory m items \<longleftrightarrow> (\<forall>item\<in>set items. item_ptr item \<le> length m \<and> item_ptr item < 2 ^ 64)"

lemma within_memory_Cons:
  "within_memory m (item # items) \<Longrightarrow> item_ptr item \<le> length m \<and> item_ptr item < 2 ^ 64 \<and> within_memory (m @ r) items"
  by (auto simp: within_memory_def)

lemma verify_loop_node:
  assumes "within_memory m (s # rest)"
    and "verify_loop S K value nib (s # rest) m (K (node_rlp K t)) ptr = Done True" and "commits K t"
  obtains items r r' where "ptr \<le> length nib" and "toRlpBytes S m s = Done (node_rlp K t, m @ r)"
    and "toList S (m @ r) s = Done (items, m @ r @ r')" and "fields_read S K (m @ r) items t"
proof -
  obtain node m' where node: "toRlpBytes S m s = Done (node, m')" "K (node_rlp K t) = K node" and ptr: "ptr \<le> length nib"
    using assms(2) by (auto simp: evm_inv split: if_splits)
  have "node = node_rlp K t"
    using commits_pinned [OF assms(3) pinned_node] node(2) by metis
  then obtain r where r: "toRlpBytes S m s = Done (node_rlp K t, m @ r)" "node_at K (m @ r) s t"
    using node_at_copied [of S m s K t m'] node(1) within_memory_Cons [OF assms(1)] by blast
  obtain items r' where "toList S (m @ r) s = Done (items, (m @ r) @ r')" "fields_read S K (m @ r) items t"
    by (rule node_fields_read [OF r(2)])
  then show ?thesis
    using that [OF ptr r(1)] by simp
qed

text \<open>A leaf or an extension.\<close>

lemma verify_loop_short:
  assumes "within_memory m (s # rest)"
    and "verify_loop S K value nib (s # rest) m (K (node_rlp K t)) ptr = Done True" and "commits K t"
    and "node_fields K t = [hex_prefix leaf ns, w]" and "\<forall>n\<in>set ns. n < 16" and "ns \<in> set (pinned K t)"
  shows "drop ptr nib = ns \<and> K w = value
    \<or> take (length ns) (drop ptr nib) = ns \<and> ptr + length ns < length nib \<and> length w = 32
        \<and> (\<exists>r. verify_loop S K value nib rest (m @ r) w (ptr + length ns) = Done True)"
proof -
  obtain items r r' where items: "ptr \<le> length nib" "toRlpBytes S m s = Done (node_rlp K t, m @ r)"
    "toList S (m @ r) s = Done (items, m @ r @ r')" "fields_read S K (m @ r) items t"
    by (rule verify_loop_node [OF assms(1-3)])
  have two: "length items = 2"
    using items(4) assms(4) by (simp add: fields_read_def)
  obtain r'' where path: "toBytes S (m @ r @ r') (items ! 0) = Done (hex_prefix leaf ns, m @ r @ r' @ r'')"
    using fields_readD(1) [OF items(4), of 0 r'] two assms(4) by auto
  let ?r = "r @ r' @ r'' @ smNew S (m @ r @ r' @ r'')"
  obtain x where field: "toBytes S (m @ ?r) (items ! 1) = Done (w, m @ ?r @ x)"
    using fields_readD(1) [OF items(4), of 1 "r' @ r'' @ smNew S (m @ r @ r' @ r'')"] two assms(4) by auto
  have strict: "toUintStrict S (m @ ?r) (items ! 1) = (if length w = 32 then Done (be_val w) else Revert (Require []))"
    using fields_readD(2) [OF items(4), of 1 "r' @ r'' @ smNew S (m @ r @ r' @ r'')"] two assms(4) by simp
  have hp: "hp_nibbles (hex_prefix leaf ns) = ns"
    using hp_nibbles_prefix assms(5) .
  obtain n where n: "nibblesToTraverse K (hex_prefix leaf ns) nib ptr = Done n"
    and run: "(if ptr + n = length nib then Done (K w = value) else if n = 0 then Done False
      else evm_bind (toUintStrict S (m @ ?r) (items ! 1)) (\<lambda>key. verify_loop S K value nib rest (m @ ?r) (word_bytes key) (ptr + n))) = Done True"
    using assms(2) items(1-3) two path field by (auto simp: evm_inv allocate_def Let_def cong: if_cong)
  have within: "ptr + length ns \<le> length nib" and n_eq: "n = (if take (length ns) (drop ptr nib) = ns then length ns else 0)"
    using nibblesToTraverse_Done [OF n _ items(1)] commits_pinned [OF assms(3,6)] by (simp_all only: hp)
  show ?thesis
  proof (cases "ptr + n = length nib")
    case True
    have "drop ptr nib = ns"
    proof (cases "take (length ns) (drop ptr nib) = ns")
      case False
      then show ?thesis
        using True n_eq within by simp
    qed (use True n_eq within in simp)
    then show ?thesis
      using run True by simp
  next
    case False
    then have "n \<noteq> 0" "length w = 32" "verify_loop S K value nib rest (m @ ?r) (word_bytes (be_val w)) (ptr + n) = Done True"
      using run strict by (auto split: if_splits)
    then show ?thesis
      using n_eq within False by (auto simp: word_bytes_val split: if_splits)
  qed
qed

lemma verify_loop_branch:
  assumes "within_memory m (s # rest)"
    and "verify_loop S K value nib (s # rest) m (K (node_rlp K t)) ptr = Done True" and "commits K t"
    and "t = Branch cs v" and "\<forall>n\<in>set nib. n < 16" and "\<forall>x. length (K x) = 32"
  shows "ptr = length nib \<and> K v = value
    \<or> (\<exists>u r. ptr < length nib \<and> unat (nib ! ptr) < 16 \<and> cs ! unat (nib ! ptr) = Some u
         \<and> verify_loop S K value nib rest (m @ r) (K (node_rlp K u)) (Suc ptr) = Done True)"
proof -
  have cs: "length cs = 16"
    using commits_wf [OF assms(3)] assms(4) by simp
  obtain items r r' where items: "ptr \<le> length nib" "toRlpBytes S m s = Done (node_rlp K t, m @ r)"
    "toList S (m @ r) s = Done (items, m @ r @ r')" "fields_read S K (m @ r) items t"
    by (rule verify_loop_node [OF assms(1-3)])
  have len: "length items = 17"
    using items(4) assms(4) cs by (simp add: fields_read_def)
  obtain x where "toBytes S (m @ r @ r') (items ! 16) = Done (v, m @ r @ r' @ x)"
    using fields_readD(1) [OF items(4), of 16 r'] len assms(4) cs by (auto simp: nth_append)
  note fields = len this
  show ?thesis
  proof (cases "ptr = length nib")
    case True
    then show ?thesis
      using assms(2) items(2,3) fields by simp
  next
    case False
    let ?n = "unat (nib ! ptr)"
    have ptr: "ptr < length nib"
      using False items(1) by simp
    then have "nib ! ptr < 16"
      using assms(5) nth_mem by blast
    then have n: "\<not> nib ! ptr > 16" "?n < 16"
      by (simp_all add: word_less_nat_alt)
    then obtain key where key: "toUintStrict S (m @ r @ r') (items ! ?n) = Done key"
      "verify_loop S K value nib rest (m @ r @ r') (word_bytes key) (Suc ptr) = Done True"
      using assms(2) items(1-3) fields ptr False by (auto simp: get_byte_def evm_inv)
    have "node_fields K t ! ?n = (case cs ! ?n of None \<Rightarrow> [] | Some u \<Rightarrow> K (node_rlp K u))"
      using n(2) cs by (simp add: assms(4) nth_append node_rlp_def cong: option.case_cong)
    then obtain u where "cs ! ?n = Some u" "key = be_val (K (node_rlp K u))"
      using fields_readD(2) [OF items(4), of ?n r'] key(1) n(2) len assms(6) by (auto split: option.splits if_splits)
    then show ?thesis
      using key(2) ptr n(2) assms(6) by (auto simp: word_bytes_val)
  qed
qed

lemma verify_loop_sound:
  assumes "\<forall>x. length (K x) = 32" and "length raw \<noteq> 32" and "raw \<noteq> []" and "\<forall>n\<in>set nib. n < 16"
    and "within_memory m siblings" and "verify_loop S K (K raw) nib siblings m (K (node_rlp K t)) ptr = Done True" and "commits K t"
  shows "lookup t (drop ptr nib) = Some raw"
  using assms(5-7)
proof (induction siblings arbitrary: t ptr m)
  case (Cons s rest)
  note wf = commits_wf [OF Cons.prems(3)] and pinned = commits_pinned [OF Cons.prems(3), where x = raw]
  have rest: "within_memory (m @ r) rest" for r
    using within_memory_Cons [OF Cons.prems(1)] by blast
  show ?case
  proof (cases t)
    case (Leaf ns v)
    then show ?thesis
      using verify_loop_short [OF Cons.prems, of True ns v] wf pinned [of v] by auto
  next
    case (Extension ns u)
    then obtain r where "take (length ns) (drop ptr nib) = ns"
      "verify_loop S K (K raw) nib rest (m @ r) (K (node_rlp K u)) (ptr + length ns) = Done True"
      using verify_loop_short [OF Cons.prems, of False ns "K (node_rlp K u)"] wf pinned [of "K (node_rlp K u)"] assms(1,2)
      by (auto simp: node_rlp_def)
    then show ?thesis
      using Cons.IH [OF rest] Cons.prems(3) commits_simps(1) Extension by (simp add: add.commute)
  next
    case (Branch cs v)
    have cs: "length cs = 16"
      using wf Branch by simp
    from verify_loop_branch [OF Cons.prems Branch assms(4,1)] show ?thesis
    proof (elim disjE exE conjE)
      assume "ptr = length nib" "K v = K raw"
      then show ?thesis
        using pinned [of v] Branch assms(3) by simp
    next
      fix u r assume u: "ptr < length nib" "unat (nib ! ptr) < 16" "cs ! unat (nib ! ptr) = Some u"
        "verify_loop S K (K raw) nib rest (m @ r) (K (node_rlp K u)) (Suc ptr) = Done True"
      then have "commits K u"
        using Cons.prems(3) Branch cs commits_simps(2) [of K cs v u] nth_mem [of "unat (nib ! ptr)" cs] by simp
      then show ?thesis
        using Cons.IH [OF rest u(4)] u(1-3) cs by (simp add: Branch Cons_nth_drop_Suc [symmetric])
    qed
  qed
qed simp

text \<open>The nodes on the way to a value. The values are in leaves when no key is a prefix of another.\<close>

fun proof_nodes :: "mpt \<Rightarrow> u8 list \<Rightarrow> mpt list" where
  "proof_nodes (Leaf ns v) path = [Leaf ns v]"
| "proof_nodes (Extension ns t) path = Extension ns t # proof_nodes t (drop (length ns) path)"
| "proof_nodes (Branch cs v) [] = [Branch cs v]"
| "proof_nodes (Branch cs v) (n # path) =
     Branch cs v # (if unat n < length cs then (case cs ! unat n of None \<Rightarrow> [] | Some t \<Rightarrow> proof_nodes t path) else [])"

fun plain_node :: "mpt \<Rightarrow> bool" where
  "plain_node (Branch cs v) \<longleftrightarrow> wf_node (Branch cs v) \<and> v = []"
| "plain_node t \<longleftrightarrow> wf_node t"

definition plain_trie :: "mpt \<Rightarrow> bool" where
  "plain_trie T \<longleftrightarrow> (\<forall>t\<in>set (subtries T). plain_node t)"

lemma plain_trie_simps:
  "plain_trie (Extension ns t) \<Longrightarrow> plain_trie t"
  "plain_trie (Branch cs v) \<Longrightarrow> Some t \<in> set cs \<Longrightarrow> plain_trie t"
  by (force simp: plain_trie_def)+

lemma plain_trie_node: "plain_trie t \<Longrightarrow> plain_node t"
  using subtries_self by (auto simp: plain_trie_def)

text \<open>One round on a node of the trie.\<close>

lemma verify_loop_short_eq:
  assumes "node_at K m s t" and "ptr \<le> length nib" and "length nib < 2 ^ 64"
    and "node_fields K t = [hex_prefix leaf ns, w]" and "\<forall>n\<in>set ns. n < 16" and "take (length ns) (drop ptr nib) = ns"
  shows "\<exists>r. verify_loop S K value nib (s # rest) m (K (node_rlp K t)) ptr =
    (if ptr + length ns = length nib then Done (K w = value) else if ns = [] then Done False
     else if length w = 32 then verify_loop S K value nib rest (m @ r) w (ptr + length ns) else Revert (Require []))"
proof -
  obtain r where copy: "toRlpBytes S m s = Done (node_rlp K t, m @ r)"
    using node_at_copy [OF assms(1)] by blast
  obtain items r' where items: "toList S (m @ r) s = Done (items, (m @ r) @ r')" "fields_read S K (m @ r) items t"
    by (rule node_fields_read [OF node_at_more [OF assms(1)]])
  have two: "length items = 2"
    using items(2) assms(4) by (simp add: fields_read_def)
  obtain r'' where path: "toBytes S (m @ r @ r') (items ! 0) = Done (hex_prefix leaf ns, m @ r @ r' @ r'')"
    using fields_readD(1) [OF items(2), of 0 r'] two assms(4) by auto
  let ?r = "r @ r' @ r'' @ smNew S (m @ r @ r' @ r'')"
  obtain x where field: "toBytes S (m @ ?r) (items ! 1) = Done (w, m @ ?r @ x)"
    using fields_readD(1) [OF items(2), of 1 "r' @ r'' @ smNew S (m @ r @ r' @ r'')"] two assms(4) by auto
  have strict: "toUintStrict S (m @ ?r) (items ! 1) = (if length w = 32 then Done (be_val w) else Revert (Require []))"
    using fields_readD(2) [OF items(2), of 1 "r' @ r'' @ smNew S (m @ r @ r' @ r'')"] two assms(4) by simp
  have hp: "hp_nibbles (hex_prefix leaf ns) = ns"
    using hp_nibbles_prefix assms(5) .
  have "nibblesToTraverse K (hex_prefix leaf ns) nib ptr = Done (length ns)"
    using nibblesToTraverse_eq [of "hex_prefix leaf ns" ptr nib K] assms(2,3,6) by (simp only: hp)
  then have "verify_loop S K value nib (s # rest) m (K (node_rlp K t)) ptr =
    (if ptr + length ns = length nib then Done (K w = value) else if ns = [] then Done False
     else if length w = 32 then verify_loop S K value nib rest (m @ ?r) w (ptr + length ns) else Revert (Require []))"
    using copy items(1) two path field strict assms(2) by (simp add: word_bytes_val allocate_def Let_def)
  then show ?thesis
    by blast
qed

lemma verify_loop_branch_eq:
  assumes "node_at K m s t" and "ptr < length nib" and "nib ! ptr < 16"
    and "t = Branch cs v" and "length cs = 16" and "cs ! unat (nib ! ptr) = Some u" and "length (K (node_rlp K u)) = 32"
  shows "\<exists>r. verify_loop S K value nib (s # rest) m (K (node_rlp K t)) ptr =
    verify_loop S K value nib rest (m @ r) (K (node_rlp K u)) (Suc ptr)"
proof -
  let ?n = "unat (nib ! ptr)"
  have n: "\<not> nib ! ptr > 16" "?n < 16"
    using assms(3) by (simp_all add: word_less_nat_alt)
  have field: "node_fields K t ! ?n = K (node_rlp K u)" "length (node_fields K t) = 17"
    using n(2) assms(5,6) by (simp_all add: assms(4) nth_append node_rlp_def)
  obtain r where copy: "toRlpBytes S m s = Done (node_rlp K t, m @ r)"
    using node_at_copy [OF assms(1)] by blast
  obtain items r' where items: "toList S (m @ r) s = Done (items, (m @ r) @ r')" "fields_read S K (m @ r) items t"
    by (rule node_fields_read [OF node_at_more [OF assms(1)]])
  have len: "length items = 17"
    using items(2) field(2) by (simp add: fields_read_def)
  then have "toUintStrict S (m @ r @ r') (items ! ?n) = Done (be_val (K (node_rlp K u)))"
    using fields_readD(2) [OF items(2), of ?n r'] n(2) field(1) assms(7) by simp
  then have "verify_loop S K value nib (s # rest) m (K (node_rlp K t)) ptr = verify_loop S K value nib rest (m @ r @ r') (K (node_rlp K u)) (Suc ptr)"
    using copy items(1) len assms(2,7) n(1) by (simp add: get_byte_def word_bytes_val)
  then show ?thesis
    by blast
qed

lemma nodes_at_more: "list_all2 (node_at K m) items ts \<Longrightarrow> list_all2 (node_at K (m @ r)) items ts"
  using node_at_more by (metis list_all2_mono)

lemma verify_loop_complete:
  assumes "\<forall>x. length (K x) = 32" and "\<forall>n\<in>set nib. n < 16" and "length nib < 2 ^ 64"
    and "lookup t (drop ptr nib) = Some v" and "plain_trie t" and "ptr \<le> length nib"
    and "list_all2 (node_at K m) siblings (proof_nodes t (drop ptr nib))"
  shows "verify_loop S K (K v) nib siblings m (K (node_rlp K t)) ptr = Done True"
  using assms(4-7)
proof (induction t "drop ptr nib" arbitrary: ptr siblings m rule: lookup.induct)
  case (1 ns v')
  note node = plain_trie_node [OF "1.prems"(2)]
  obtain s where s: "siblings = [s]" "node_at K m s (Leaf ns v')"
    using "1.prems"(4) by (auto simp: list_all2_Cons2)
  have ns: "drop ptr nib = ns" "v' = v"
    using "1.prems"(1) by (simp_all split: if_splits)
  then have "ptr + length ns = length nib"
    using "1.prems"(3) by auto
  then show ?case
    using verify_loop_short_eq [OF s(2) "1.prems"(3) assms(3), of True ns v' S "K v" "[]"] node ns by (simp add: s(1))
next
  case (2 ns t)
  note node = plain_trie_node [OF "2.prems"(2)]
  obtain s rest where s: "siblings = s # rest" "node_at K m s (Extension ns t)"
    and rest: "list_all2 (node_at K m) rest (proof_nodes t (drop (length ns) (drop ptr nib)))"
    using "2.prems"(4) by (auto simp: list_all2_Cons2)
  have ns: "take (length ns) (drop ptr nib) = ns" "lookup t (drop (length ns) (drop ptr nib)) = Some v"
    using "2.prems"(1) by (simp_all split: if_splits)
  have plain: "plain_trie t"
    using "2.prems"(2) plain_trie_simps(1) by blast
  have drop: "drop (length ns) (drop ptr nib) = drop (ptr + length ns) nib"
    by (simp add: add.commute)
  have "length ns = min (length ns) (length nib - ptr)"
    using arg_cong [OF ns(1), of length] by simp
  then have within: "ptr + length ns \<le> length nib"
    using "2.prems"(3) by simp
  have "ptr + length ns \<noteq> length nib"
    using ns(2) node plain_trie_node [OF plain] by (auto simp: drop)
  then obtain r where "verify_loop S K (K v) nib siblings m (K (node_rlp K (Extension ns t))) ptr =
      verify_loop S K (K v) nib rest (m @ r) (K (node_rlp K t)) (ptr + length ns)"
    using verify_loop_short_eq [OF s(2) "2.prems"(3) assms(3), of False ns "K (node_rlp K t)" S "K v" rest] node ns(1) assms(1)
    by (auto simp: s(1) node_rlp_def)
  also have "\<dots> = Done True"
    using "2.hyps" [OF ns(1) drop] ns(2) plain within nodes_at_more [OF rest] unfolding drop by blast
  finally show ?case .
next
  case (3 cs v')
  then show ?case
    using plain_trie_node [OF "3.prems"(2)] by (simp split: if_splits)
next
  case (4 cs v' n path)
  note node = plain_trie_node [OF "4.prems"(2)]
  have cs: "length cs = 16"
    using node by simp
  have ptr: "ptr < length nib"
    using "4.hyps"(2) by (metis drop_all list.discI not_le)
  then have path: "nib ! ptr = n" "drop (Suc ptr) nib = path"
    using "4.hyps"(2) by (simp_all add: Cons_nth_drop_Suc [symmetric])
  then have "n < 16"
    using assms(2) nth_mem [OF ptr] by blast
  then have idx: "unat n < length cs"
    using cs by (simp add: word_less_nat_alt)
  have "lookup (Branch cs v') (n # path) = Some v"
    using "4.prems"(1) by (simp only: "4.hyps"(2))
  then obtain u where u: "cs ! unat n = Some u" "lookup u path = Some v"
    using idx by (auto split: option.splits)
  then have plain: "plain_trie u"
    using "4.prems"(2) plain_trie_simps(2) idx nth_mem by metis
  have "list_all2 (node_at K m) siblings (proof_nodes (Branch cs v') (n # path))"
    using "4.prems"(4) by (simp only: "4.hyps"(2))
  then obtain s rest where s: "siblings = s # rest" "node_at K m s (Branch cs v')" and rest: "list_all2 (node_at K m) rest (proof_nodes u path)"
    using u(1) idx by (auto simp: list_all2_Cons2)
  obtain r where "verify_loop S K (K v) nib siblings m (K (node_rlp K (Branch cs v'))) ptr =
      verify_loop S K (K v) nib rest (m @ r) (K (node_rlp K u)) (Suc ptr)"
    using verify_loop_branch_eq [OF s(2) ptr _ refl cs, of u S "K v" rest] path(1) \<open>n < 16\<close> u(1) assms(1) unfolding s(1) by blast
  also have "\<dots> = Done True"
    using "4.hyps"(1) [OF idx u(1) path(2) [symmetric]] u(2) plain ptr nodes_at_more [OF rest] path(2) by simp
  finally show ?case .
qed

text \<open>Soundness: if the root is the hash of a trie whose node encodings, paths and values the hash pins down,
  and the verifier accepts the hash of a string of neither 0 nor 32 bytes, whatever the proof is, then
  the trie has this string at the path.\<close>

lemma verify_sound:
  assumes "\<forall>x. length (K x) = 32" and "commits K T" and "length siblingsRlp < 2 ^ 64"
    and "length raw \<noteq> 32" and "raw \<noteq> []"
    and "verify S K (K raw) path siblingsRlp (K (node_rlp K T)) = Done True"
  shows "lookup T (hp_nibbles path) = Some raw"
proof -
  obtain siblings m where list: "toList S siblingsRlp (toRlpItem siblingsRlp) = Done (siblings, m)"
    and run: "verify_loop S K (K raw) (hp_nibbles path) siblings (allocate S m) (K (node_rlp K T)) 0 = Done True"
    using assms(6) by (auto simp: verify_def evm_inv getNibbleArray_Done split: if_splits)
  have "within_memory (allocate S m) siblings"
    using toList_begin [OF list assms(3)] assms(3) by (fastforce simp: within_memory_def allocate_def)
  then show ?thesis
    using verify_loop_sound [OF assms(1,4,5) _ _ run assms(2)] hp_nibbles_less by auto
qed

text \<open>An array in memory that is a list of nodes.\<close>

lemma toList_nodes:
  assumes "length (rlp_list (map (node_rlp K) ts)) < 2 ^ 64"
  obtains items r where "toList S (rlp_list (map (node_rlp K) ts)) (toRlpItem (rlp_list (map (node_rlp K) ts))) =
      Done (items, rlp_list (map (node_rlp K) ts) @ r)"
    and "list_all2 (node_at K (rlp_list (map (node_rlp K) ts))) items ts"
proof -
  let ?xs = "map (node_rlp K) ts"
  let ?arr = "rlp_list ?xs"
  have at: "item_at ?arr (item_ptr (toRlpItem ?arr)) ?arr" "item_len (toRlpItem ?arr) = length ?arr"
    using assms by (simp_all add: item_at_def lies_def toRlpItem_def)
  obtain r where list: "toList S ?arr (toRlpItem ?arr) = Done (items_at (list_prefix ?xs) ?xs, ?arr @ r)"
    using toList_read [OF at] rlp_list_item by (auto simp: node_rlp_def toRlpItem_def)
  have "item_at ?arr (list_prefix ?xs) (concat ?xs)"
    using list_at_read(3) [OF at(1)] by (simp add: toRlpItem_def)
  then have "list_all2 (node_at K ?arr) (items_at (list_prefix ?xs) ?xs) ts"
    using items_at_nth [of _ ?xs] by (auto simp: list_all2_conv_all_nth node_at_def)
  then show ?thesis
    using that [OF list] by blast
qed

text \<open>Completeness: in a trie whose values are in its leaves, the nodes on the way from the root to a value, as
  an RLP list, are a proof that the verifier accepts.\<close>

lemma verify_complete:
  assumes "\<forall>x. length (K x) = 32" and "plain_trie T" and "lookup T ns = Some v" and "ns \<noteq> []"
    and "\<forall>n\<in>set ns. n < 16" and "length ns < 2 ^ 64"
    and "length (rlp_list (map (node_rlp K) (proof_nodes T ns))) < 2 ^ 64"
  shows "verify S K (K v) (hex_prefix leaf ns) (rlp_list (map (node_rlp K) (proof_nodes T ns))) (K (node_rlp K T)) = Done True"
proof -
  obtain items r where list: "toList S (rlp_list (map (node_rlp K) (proof_nodes T ns))) (toRlpItem (rlp_list (map (node_rlp K) (proof_nodes T ns)))) =
      Done (items, rlp_list (map (node_rlp K) (proof_nodes T ns)) @ r)"
    and "list_all2 (node_at K (rlp_list (map (node_rlp K) (proof_nodes T ns)))) items (proof_nodes T ns)"
    by (rule toList_nodes [OF assms(7)])
  then have "list_all2 (node_at K (rlp_list (map (node_rlp K) (proof_nodes T ns)) @ x)) items (proof_nodes T (drop 0 ns))" for x
    using nodes_at_more by simp
  then show ?thesis
    using list verify_loop_complete [OF assms(1,5,6), of T 0 v] assms(2-4,6) hp_nibbles_prefix [OF assms(5)]
    by (simp add: verify_def getNibbleArray_eq new_bytes_def allocate_def)
qed

text \<open>At an extension that ends the path, the verifier compares with the reference to the child instead of
  going on to the child: the hash of the child is accepted as a value, a value of the child is not.\<close>

lemma verify_at_extension_end:
  assumes "\<forall>x. length (K x) = 32" and "\<forall>n\<in>set ns. n < 16" and "ns \<noteq> []" and "length ns < 2 ^ 64"
    and "length (rlp_list (map (node_rlp K) [Extension ns u])) < 2 ^ 64"
  shows "verify S K value (hex_prefix leaf ns) (rlp_list (map (node_rlp K) [Extension ns u])) (K (node_rlp K (Extension ns u)))
    = Done (K (K (node_rlp K u)) = value)"
proof -
  obtain items r where list: "toList S (rlp_list (map (node_rlp K) [Extension ns u])) (toRlpItem (rlp_list (map (node_rlp K) [Extension ns u]))) =
      Done (items, rlp_list (map (node_rlp K) [Extension ns u]) @ r)"
    and nodes: "list_all2 (node_at K (rlp_list (map (node_rlp K) [Extension ns u]))) items [Extension ns u]"
    by (rule toList_nodes [OF assms(5)])
  obtain item where item: "items = [item]" "node_at K (rlp_list (map (node_rlp K) [Extension ns u]) @ x) item (Extension ns u)" for x
    using nodes node_at_more by (auto simp: list_all2_Cons2)
  have "verify_loop S K value ns items (rlp_list (map (node_rlp K) [Extension ns u]) @ x) (K (node_rlp K (Extension ns u))) 0 = Done (K (K (node_rlp K u)) = value)" for x
    using verify_loop_short_eq [OF item(2) _ assms(4), of 0 False ns "K (node_rlp K u)" S "value" "[]"] assms(2) unfolding item(1)
    by (simp add: node_rlp_def)
  then show ?thesis
    using list assms(3,4) hp_nibbles_prefix [OF assms(2)] by (simp add: verify_def getNibbleArray_eq new_bytes_def allocate_def)
qed

section \<open>A sample trie\<close>

text \<open>Two values of different lengths under a branch, and a hash that tells their strings from all others: the
  first byte is the length of a string that the trie pins down, plus one, and zero otherwise.\<close>

definition sample_value :: "nat \<Rightarrow> bytes" where
  "sample_value i = replicate (40 + i) 7"

definition sample_trie_of :: "mpt" where
  "sample_trie_of = Branch ([Some (Leaf [1] (sample_value 0))] @ replicate 7 None
     @ [Some (Leaf [1] (sample_value 1))] @ replicate 7 None) []"

definition tagged :: "bytes list \<Rightarrow> bytes \<Rightarrow> hash" where
  "tagged known x = (if x \<in> set known then word_of_nat (Suc (length x)) else 0) # drop 1 (sample_fit 32 x)"

lemma length_tagged: "length (tagged known x) = 32"
  by (simp add: tagged_def)

lemma tagged_pins:
  assumes "s \<in> set known" and "inj_on length (set known)" and "\<forall>k\<in>set known. length k < 255" and "tagged known x = tagged known s"
  shows "x = s"
proof -
  have tag: "unat (word_of_nat (Suc n) :: u8) = Suc n" if "n < 255" for n
    using that by (simp add: unat_of_nat del: of_nat_Suc)
  have eq: "(if x \<in> set known then word_of_nat (Suc (length x)) else 0 :: u8) = word_of_nat (Suc (length s))"
    using assms(1,4) by (simp add: tagged_def)
  have "x \<in> set known \<and> length x = length s"
    using arg_cong [OF eq, of unat] tag assms(1,3) by (auto simp del: of_nat_Suc split: if_splits)
  then show ?thesis
    using assms(1,2) by (auto dest: inj_onD)
qed

text \<open>The nodes of the sample trie; the encoding of a leaf does not depend on the hash.\<close>

definition sample_leaf :: "nat \<Rightarrow> bytes" where
  "sample_leaf i = rlp_list (map rlp_string [hex_prefix True [1], sample_value i])"

definition sample_ref :: "nat \<Rightarrow> bytes" where
  "sample_ref i = word_of_nat (Suc (length (sample_leaf i))) # drop 1 (sample_fit 32 (sample_leaf i))"

definition sample_branch :: bytes where
  "sample_branch = rlp_list (map rlp_string (sample_ref 0 # replicate 7 [] @ sample_ref 1 # replicate 7 [] @ [[]]))"

definition known_strings :: "bytes list" where
  "known_strings = [[], [1], sample_value 0, sample_value 1, sample_leaf 0, sample_leaf 1, sample_branch]"

definition sample_hash :: "bytes \<Rightarrow> hash" where
  "sample_hash = tagged known_strings"

lemma be_min_81: "be_min 81 = [81]" "be_min 0 = []"
  by (simp_all add: be_min.simps)

lemma known_lengths: "map length known_strings = [0, 1, 40, 41, 43, 44, 83]"
  by (simp add: known_strings_def sample_value_def sample_leaf_def sample_branch_def sample_ref_def rlp_list_def rlp_string_def
      hex_prefix_def be_min_81)

lemma sample_hash_pins: "s \<in> set known_strings \<Longrightarrow> sample_hash x = sample_hash s \<Longrightarrow> x = s"
proof -
  have "distinct (map length known_strings)" and small: "\<forall>n\<in>set (map length known_strings). n < 255"
    unfolding known_lengths by simp_all
  then have "inj_on length (set known_strings)" "\<forall>k\<in>set known_strings. length k < 255"
    by (simp_all add: distinct_map)
  then show "s \<in> set known_strings \<Longrightarrow> sample_hash x = sample_hash s \<Longrightarrow> x = s"
    unfolding sample_hash_def using tagged_pins by blast
qed

lemma sample_hash_length: "length (sample_hash x) = 32"
  by (simp add: sample_hash_def length_tagged)

lemma sample_nodes:
  "node_rlp K (Leaf [1] (sample_value i)) = sample_leaf i" "node_rlp sample_hash sample_trie_of = sample_branch"
proof -
  show leaf: "node_rlp K (Leaf [1] (sample_value i)) = sample_leaf i" for K i
    by (simp add: node_rlp_def sample_leaf_def)
  have "sample_hash (sample_leaf i) = sample_ref i" if "i < 2" for i
    using that by (auto simp: sample_hash_def tagged_def sample_ref_def known_strings_def less_Suc_eq eval_nat_numeral)
  then show "node_rlp sample_hash sample_trie_of = sample_branch"
    using leaf by (simp add: node_rlp_def sample_trie_of_def sample_branch_def replicate_app_Cons_same)
qed

lemma sample_trie_facts:
  "commits sample_hash sample_trie_of" "plain_trie sample_trie_of"
  "lookup sample_trie_of [0, 1] = Some (sample_value 0)" "lookup sample_trie_of [8, 1] = Some (sample_value 1)"
proof -
  have subtries: "set (subtries sample_trie_of) = {sample_trie_of, Leaf [1] (sample_value 0), Leaf [1] (sample_value 1)}"
    by (auto simp: sample_trie_of_def)
  have wf: "wf_node t \<and> plain_node t" if "t \<in> set (subtries sample_trie_of)" for t
    using that unfolding subtries by (auto simp: sample_trie_of_def sample_value_def)
  obtain cs where cs: "sample_trie_of = Branch cs []"
    by (simp add: sample_trie_of_def)
  have "set (pinned sample_hash sample_trie_of) \<subseteq> set known_strings"
    using sample_nodes(2) unfolding cs by (simp add: known_strings_def)
  moreover have "set (pinned sample_hash (Leaf [1] (sample_value i))) \<subseteq> set known_strings" if "i = 0 \<or> i = 1" for i
    using that by (auto simp: sample_nodes(1) known_strings_def)
  ultimately have "set (pinned sample_hash t) \<subseteq> set known_strings" if "t \<in> set (subtries sample_trie_of)" for t
    using that unfolding subtries by blast
  then show "commits sample_hash sample_trie_of"
    using wf sample_hash_pins unfolding commits_def by blast
  show "plain_trie sample_trie_of"
    using wf by (simp add: plain_trie_def)
  show "lookup sample_trie_of [0, 1] = Some (sample_value 0)" "lookup sample_trie_of [8, 1] = Some (sample_value 1)"
    by (simp_all add: sample_trie_of_def nth_append nth_Cons')
qed

end
