(* ===== verification/ReceiptProofs.thy ===== *)
theory ReceiptProofs
  imports HubSafety MerkleProof
begin

text \<open>
  Proofs of receipts: \<open>checkReceiptProof\<close> of \<open>contracts/RelayHub.sol\<close> with the Parlia verifier, from the block
  proofs to the trie of receipts. A receipt is accepted when the trie that the first block commits to has
  it, whatever bytes are submitted, but nobody has to vouch for a block of epoch zero.
\<close>

section \<open>The verifier's part\<close>

text \<open>\<open>ParliaBlockVerifier.checkReceiptProof\<close>: path and proof are copied from the calldata into arrays. The
  memory behind the proof is the parameter \<open>S\<close>, of which nothing is assumed.\<close>

definition checkReceiptProof_parlia :: "evm_lib \<Rightarrow> sol_memory \<Rightarrow> bytes \<Rightarrow> hash \<Rightarrow> bytes \<Rightarrow> bytes \<Rightarrow> bool evm" where
  "checkReceiptProof_parlia E S rawReceipt receiptRoot proofSiblings proofPath =
     evm_bind (new_bytes (length proofPath)) (\<lambda>_.
     evm_bind (new_bytes (length proofSiblings)) (\<lambda>_.
     verify S (evKeccak256 E) (evKeccak256 E rawReceipt) proofPath proofSiblings receiptRoot))"

text \<open>The hash of the contracts has 32 bytes.\<close>

lemma chain_laws_hash: "chain_laws C pub L E low_s \<Longrightarrow> \<forall>x. length (evKeccak256 E x) = 32"
  using chain_lawsD(1,3) by (fastforce simp: crypto_laws_def recover_laws_def)

lemma checkReceiptProof_parlia_sound:
  assumes "\<forall>x. length (evKeccak256 E x) = 32" and "commits (evKeccak256 E) T"
    and "receiptRoot = evKeccak256 E (node_rlp (evKeccak256 E) T)" and "rawReceipt \<noteq> []" and "length rawReceipt \<noteq> 32"
    and "checkReceiptProof_parlia E S rawReceipt receiptRoot proofSiblings proofPath = Done True"
  shows "lookup T (hp_nibbles proofPath) = Some rawReceipt"
proof -
  have "verify S (evKeccak256 E) (evKeccak256 E rawReceipt) proofPath proofSiblings (evKeccak256 E (node_rlp (evKeccak256 E) T)) = Done True"
    "length proofSiblings < 2 ^ 64"
    using assms(3,6) by (auto simp: checkReceiptProof_parlia_def evm_inv new_bytes_def split: if_splits)
  then show ?thesis
    using verify_sound [OF assms(1,2)] assms(4,5) by blast
qed

text \<open>The proof of a value: the nodes on the way to it.\<close>

abbreviation value_proof :: "evm_lib \<Rightarrow> mpt \<Rightarrow> u8 list \<Rightarrow> bytes" where
  "value_proof E T ns \<equiv> rlp_list (map (node_rlp (evKeccak256 E)) (proof_nodes T ns))"

lemma checkReceiptProof_parlia_complete:
  assumes "\<forall>x. length (evKeccak256 E x) = 32" and "receiptRoot = evKeccak256 E (node_rlp (evKeccak256 E) T)" and "plain_trie T"
    and "lookup T ns = Some rawReceipt" and "ns \<noteq> []" and "\<forall>n\<in>set ns. n < 16" and "length ns < 2 ^ 63" and "length (value_proof E T ns) < 2 ^ 64"
  shows "checkReceiptProof_parlia E S rawReceipt receiptRoot (value_proof E T ns) (hex_prefix leaf ns) = Done True"
proof -
  have "length (hex_prefix leaf ns) < 2 ^ 64"
    using length_hex_prefix [of leaf ns] assms(7) by simp
  moreover have "length ns < 2 ^ 64"
    using assms(7) by simp
  ultimately show ?thesis
    using verify_complete [OF assms(1,3-6) _ assms(8)] assms(2,8) by (simp add: checkReceiptProof_parlia_def new_bytes_def)
qed

section \<open>The hub\<close>

text \<open>What the hub does with block proofs that encode sealed headers, each on top of the one before.\<close>

lemma checkReceiptProof_headers:
  assumes "chain_laws C pub L E low_s" and "chainId < 2 ^ 64"
    and "b = registeredChains hub chainId" and "chainStatus b = Active" and "basEpochLength b \<noteq> 0"
    and "verifier_of env hub (verificationFunction b) = parlia_verifier E (checkReceiptProof_parlia E S)"
    and "good_headers C L low_s chainId (ucast (basEpochLength b)) (h # hs)" and "linked E (h # hs)" and "length (h # hs) < 2 ^ 40"
    and "e = word_of_int (hdrNumber h) div ucast (basEpochLength b)"
  shows "checkReceiptProof env hub chainId (map header_rlp (h # hs)) rawReceipt proofSiblings proofPath =
     evm_bind (if 0 < e then
                 evm_bind (checkValidatorsAndQuorumReached (envSets env) hub chainId (map hdrCoinbase (h # hs)) (e - 1)) (\<lambda>reached.
                 require reached ''quorum not reached'')
               else Done ()) (\<lambda>_.
     checkReceiptProof_parlia E S rawReceipt (hdrReceiptHash h) proofSiblings proofPath)"
proof -
  let ?checker = "checkValidatorsAndQuorumReached (envSets env) hub"
  have "verifyBlockAndReachedQuorum E chainId (map header_rlp (h # hs)) (basEpochLength b) ?checker =
     evm_bind (if 0 < e then evm_bind (?checker chainId (map hdrCoinbase (h # hs)) (e - 1)) (\<lambda>reached.
                 require reached ''quorum not reached'') else Done ()) (\<lambda>_. Done (sol_header_of E h))"
    unfolding verifyBlockAndReachedQuorum_def assms(10)
    using verify_blocks_eq [OF assms(1,2) _ assms(7-9), of ?checker] assms(5) by (simp add: Let_def evm_bind_assoc)
  moreover have "shReceiptsRoot (sol_header_of E h) = hdrReceiptHash h"
    by (simp add: sol_header_of_def)
  ultimately show ?thesis
    using assms(3,4,6) by (simp add: checkReceiptProof_def Let_def parlia_verifier_def evm_bind_assoc)
qed

text \<open>A block of an epoch before the first boundary that the sealer has signed.\<close>

lemma early_header:
  assumes "sealed_header C L low_s chainId h" and "0 < hdrNumber h" and "hdrNumber h < uint epochLength"
  shows "good_headers C L low_s chainId epochLength [h]" and "word_of_int (hdrNumber h) div epochLength = 0"
proof -
  have "hdrNumber h < 2 ^ 64"
    using assms(3) uint_lt2p [of epochLength] by simp
  then have n: "uint (word_of_int (hdrNumber h) :: u64) = hdrNumber h"
    using assms(2) by (simp add: uint_word_of_int take_bit_int_eq_self)
  then show "word_of_int (hdrNumber h) div epochLength = 0"
    using assms(3) by (simp add: div_word_less word_less_def)
  have "uint ((word_of_int (hdrNumber h) :: u64) mod epochLength) = hdrNumber h"
    using n assms(2,3) by (simp add: uint_mod)
  then have "\<not> epoch_header epochLength h"
    using assms(2) unfolding epoch_header_def by (metis less_irrefl unsigned_0)
  then show "good_headers C L low_s chainId epochLength [h]"
    using assms(1,2) by (simp add: good_headers_def)
qed

section \<open>A sample chain\<close>

text \<open>The sample packages with the hash of the sample trie, and headers that commit to this trie.\<close>

definition receipt_crypto :: crypto_lib where
  "receipt_crypto = sample_crypto\<lparr>keccak256 := sample_hash\<rparr>"

definition receipt_evm :: evm_lib where
  "receipt_evm = sample_evm\<lparr>evKeccak256 := sample_hash\<rparr>"

definition sample_memory :: sol_memory where
  "sample_memory = \<lparr>smPad = (\<lambda>m. replicate (length m) 1), smNew = (\<lambda>_. replicate 64 2), smItem = (\<lambda>_ _. replicate 64 3), smFree = (\<lambda>_ _. 0)\<rparr>"

definition receipt_env :: "address list hub_env" where
  "receipt_env = sample_env\<lparr>envEvm := receipt_evm, envVerifier := (\<lambda>_. parlia_verifier receipt_evm (checkReceiptProof_parlia receipt_evm sample_memory))\<rparr>"

definition receipt_header :: "int \<Rightarrow> header" where
  "receipt_header n = (chain_header (replicate 32 0) n [] 1)\<lparr>hdrReceiptHash := sample_hash sample_branch\<rparr>"

lemma sample_hash_drop: "drop 12 (sample_hash x) = drop 12 (sample_fit 32 x)"
  by (simp add: sample_hash_def tagged_def)

lemma receipt_laws: "chain_laws receipt_crypto sample_pub chain_rlp receipt_evm (\<lambda>_. True)"
  unfolding receipt_crypto_def receipt_evm_def by (rule sample_chain_laws_hash [OF sample_hash_length sample_hash_drop])

lemma receipt_evm_hash [simp]: "evKeccak256 receipt_evm = sample_hash"
  by (simp add: receipt_evm_def)

lemma receipt_env_simps [simp]:
  "envSets receipt_env = sample_sets"
  "verifier_of receipt_env hub f = parlia_verifier receipt_evm (checkReceiptProof_parlia receipt_evm sample_memory)"
  by (simp_all add: receipt_env_def verifier_of_def sample_env_def)

lemma length_rlp_list_lengths: "map length xs = map length ys \<Longrightarrow> length (rlp_list xs) = length (rlp_list ys)"
  by (simp add: rlp_list_def length_concat Let_def)

lemma receipt_header_simps [simp]:
  "hdrNumber (receipt_header n) = n" "hdrReceiptHash (receipt_header n) = sample_hash sample_branch"
  "hdrCoinbase (receipt_header n) = sample_address 1" "whole_validators (receipt_header n)"
proof -
  show "whole_validators (receipt_header n)"
    using chain_header_listed(2) [of "replicate 32 0" n "[]" 1] by (simp add: receipt_header_def whole_validators_def)
qed (simp_all add: receipt_header_def chain_header_def sample_header_def)

lemma receipt_header_length: "length (header_rlp (receipt_header n)) = length (header_rlp (chain_header (replicate 32 0) n [] 1))"
  unfolding rlp_of_def
  by (rule length_rlp_list_lengths)
     (simp add: header_payloads_def before_extra_def after_extra_def receipt_header_def chain_header_def sample_header_def
        length_rlp_string rlp_prefix_eq sample_hash_length)

lemma receipt_header_sealed:
  assumes "0 \<le> n" and "n < 2 ^ 64"
  shows "sealed_header receipt_crypto chain_rlp (\<lambda>_. True) chainId (receipt_header n)"
proof -
  have wf: "wf_header (chain_header (replicate 32 0) n [] 1)"
    by (rule chain_header_wf) (use assms in simp_all)
  then have "wf_header (receipt_header n)"
    using receipt_header_length [of n] by (simp add: wf_header_def receipt_header_def sample_hash_length)
  then show ?thesis
    unfolding receipt_crypto_def
    by (rule sample_sealed_header [where pre = "replicate 32 0" and signer = 1])
       (simp_all add: sample_hash_length sample_hash_drop receipt_header_def chain_header_def sample_header_def)
qed

text \<open>The sample hub knows no validators, so that every sealer reaches its quorum.\<close>

lemma receipt_quorum: "checkValidatorsAndQuorumReached sample_sets sample_hub 97 vs e = Done True"
proof -
  have h: "validatorHistories sample_hub 97 = (new_history sample_sets)\<lparr>latestKnownEpoch := 5\<rparr>"
    by (simp add: sample_hub_def)
  have "indices id (validatorHistories sample_hub 97) e (set vs) = {}"
    unfolding h by (simp add: indices_def)
  moreover have "unat (validatorCount (validatorHistories sample_hub 97) e) = 0"
    unfolding h by (simp add: new_history_def)
  ultimately show ?thesis
    using checkValidatorsAndQuorumReached_eq [OF sample_sets_laws, of sample_hub 97 vs e] sample_hub_inv
    by (simp add: hub_inv_def Let_def)
qed

lemma receipt_root: "sample_hash sample_branch = evKeccak256 receipt_evm (node_rlp (evKeccak256 receipt_evm) sample_trie_of)"
  by (simp add: sample_nodes(2))

lemma receipt_value_proof: "length (value_proof receipt_evm sample_trie_of [0, 1]) < 2 ^ 64"
proof -
  have "proof_nodes sample_trie_of [0, 1] = [sample_trie_of, Leaf [1] (sample_value 0)]"
    by (simp add: sample_trie_of_def)
  then have "value_proof receipt_evm sample_trie_of [0, 1] = rlp_list [sample_branch, sample_leaf 0]"
    by (simp add: sample_nodes)
  moreover have "length sample_branch = 83" "length (sample_leaf 0) = 43"
    using known_lengths by (simp_all add: known_strings_def)
  ultimately show ?thesis
    using length_be_min_le [of 126 1] by (simp add: rlp_list_def)
qed

lemma receipt_blocks:
  "good_headers receipt_crypto chain_rlp (\<lambda>_. True) 97 (ucast (basEpochLength (registeredChains sample_hub 97))) [receipt_header 1000]"
  "linked receipt_evm [receipt_header 1000]" "word_of_int (hdrNumber (receipt_header 1000)) div ucast (basEpochLength (registeredChains sample_hub 97)) = (5 :: u64)"
  using receipt_header_sealed [of 1000 97] by (simp_all add: good_headers_def linked_def sample_hub_def)

lemma receipt_chain:
  "chainStatus (registeredChains sample_hub 97) = Active" "basEpochLength (registeredChains sample_hub 97) = 200"
  "basEpochLength (registeredChains sample_hub 97) \<noteq> 0"
  by (simp_all add: sample_hub_def)

section \<open>Properties\<close>



text \<open>
  Property C12. An honest receipt proof is accepted: with block proofs whose sealers reach the quorum (which
  nobody asks for in epoch zero), the nodes on the way to a value in the trie that the first block commits to,
  as an RLP list, prove that value, if the trie has its values in its leaves, as a trie of receipts does.
\<close>

theorem checkReceiptProof_accepts:
  assumes "chain_laws C pub L E low_s" and "chainId < 2 ^ 64"
    and "b = registeredChains hub chainId" and "chainStatus b = Active" and "basEpochLength b \<noteq> 0"
    and "verifier_of env hub (verificationFunction b) = parlia_verifier E (checkReceiptProof_parlia E S)"
    and "good_headers C L low_s chainId (ucast (basEpochLength b)) (h # hs)" and "linked E (h # hs)" and "length (h # hs) < 2 ^ 40"
    and "e = word_of_int (hdrNumber h) div ucast (basEpochLength b)"
    and "0 < e \<Longrightarrow> checkValidatorsAndQuorumReached (envSets env) hub chainId (map hdrCoinbase (h # hs)) (e - 1) = Done True"
    and "hdrReceiptHash h = evKeccak256 E (node_rlp (evKeccak256 E) T)" and "plain_trie T"
    and "lookup T ns = Some rawReceipt" and "ns \<noteq> []" and "\<forall>n\<in>set ns. n < 16" and "length ns < 2 ^ 63"
    and "length (value_proof E T ns) < 2 ^ 64"
  shows "checkReceiptProof env hub chainId (map header_rlp (h # hs)) rawReceipt
    (value_proof E T ns) (hex_prefix leaf ns) = Done True"
  unfolding checkReceiptProof_headers [OF assms(1-10)]
  using checkReceiptProof_parlia_complete [OF chain_laws_hash [OF assms(1)] assms(12-18)] assms(11) by (cases "0 < e") simp_all

theorem checkReceiptProof_accepts_witness:
  "checkReceiptProof receipt_env sample_hub 97 [header_rlp (receipt_header 1000)] (sample_value 0)
     (value_proof receipt_evm sample_trie_of [0, 1]) (hex_prefix False [0, 1]) = Done True"
  using checkReceiptProof_accepts [where env = receipt_env and leaf = False, OF receipt_laws _ refl receipt_chain(1,3) _ receipt_blocks(1,2) _
      receipt_blocks(3) [symmetric] _ _ sample_trie_facts(2,3) _ _ _ receipt_value_proof] receipt_quorum receipt_root by simp

text \<open>
  Property C10. Anybody can forge receipts. For every active chain of the hub and every trie of values: a
  header that commits to the trie, has a number below the epoch length and is sealed by any key at all (its
  coinbase is the address of that key) proves every value of the trie, whoever the validators are.
\<close>

theorem checkReceiptProof_forged:
  assumes "chain_laws C pub L E low_s" and "chainId < 2 ^ 64"
    and "b = registeredChains hub chainId" and "chainStatus b = Active"
    and "verifier_of env hub (verificationFunction b) = parlia_verifier E (checkReceiptProof_parlia E S)"
    and "sealed_header C L low_s chainId h" and "0 < hdrNumber h" and "hdrNumber h < uint (basEpochLength b)"
    and "hdrReceiptHash h = evKeccak256 E (node_rlp (evKeccak256 E) T)" and "plain_trie T"
    and "lookup T ns = Some rawReceipt" and "ns \<noteq> []" and "\<forall>n\<in>set ns. n < 16" and "length ns < 2 ^ 63"
    and "length (value_proof E T ns) < 2 ^ 64"
  shows "checkReceiptProof env hub chainId [header_rlp h] rawReceipt
    (value_proof E T ns) (hex_prefix leaf ns) = Done True"
proof -
  let ?el = "ucast (basEpochLength b) :: u64"
  have el: "uint ?el = uint (basEpochLength b)"
    by (metis uint_nat unat_ucast_64)
  then have "basEpochLength b \<noteq> 0"
    using assms(7,8) by auto
  moreover have "linked E [h]" "length [h] < 2 ^ 40"
    by (simp_all add: linked_def)
  ultimately have run: "checkReceiptProof env hub chainId (map header_rlp [h]) rawReceipt proofSiblings proofPath =
      checkReceiptProof_parlia E S rawReceipt (hdrReceiptHash h) proofSiblings proofPath" for proofSiblings proofPath
    using checkReceiptProof_headers [OF assms(1-4) _ assms(5) early_header(1) [OF assms(6,7)] _ _ refl]
      early_header(2) [OF assms(6,7), of ?el] assms(8) el by simp
  then show ?thesis
    using checkReceiptProof_parlia_complete [OF chain_laws_hash [OF assms(1)] assms(9-15)] by simp
qed

theorem checkReceiptProof_forged_witness:
  "checkReceiptProof receipt_env sample_hub 97 [header_rlp (receipt_header 1)] (sample_value 0)
     (value_proof receipt_evm sample_trie_of [0, 1]) (hex_prefix False [0, 1]) = Done True"
  using checkReceiptProof_forged [where env = receipt_env and leaf = False, OF receipt_laws _ refl receipt_chain(1) _ receipt_header_sealed _ _ _
      sample_trie_facts(2,3) _ _ _ receipt_value_proof] receipt_root by (simp add: receipt_chain)

end
