(* ===== verification/Spec2Isabelle.thy ===== *)
theory Spec2Isabelle
  imports Relayer HubABI CatchUp HubGaps Relaying ReceiptProofs
begin

text \<open>
  A verification development for the relayer of the BAS relay hub, the Go program under \<open>relayer/\<close>, and for
  the contracts under \<open>contracts/\<close> that its proofs go to: the hub and its Parlia verifier.

  The program. Two chains, root and child, each have a RelayHub contract that stores validator sets of
  the other chain. The relayer watches both chains; when the first block of a new epoch of one chain
  (the source) is confirmed, it proves the new validator set to the hub on the other (the target). It has
  two ways: by confirmations (\<open>createEpochTransition\<close>, a list of sealed headers with a quorum of
  signers, several epochs in one multicall) and by checkpoint (\<open>createCheckpointTransition\<close>, the
  signatures of a quorum of relayers over a Merkle root of the epoch). Relayers exchange signatures
  over gRPC streams (\<open>server.go\<close>), connected to the service by an event emitter and a cache of proofs.

  The theories, in the order of their imports, with the code they model:

  \<^item> Prelude: machine types, outcomes of a Go call (\<open>Ret\<close>, \<open>Fail\<close>, \<open>Panic\<close>, \<open>Exit\<close>), effectful calls as
    functions of a world (\<open>io\<close>), calls that may not return (\<open>lio\<close>), slices, maps with an unspecified
    iteration order, signed division, and the locale \<open>invariant_system\<close>.
  \<^item> Ethereum: headers, blocks, and the operations of go-ethereum and of the runtime as records of
    parameters, with the laws of their documentation and sample instances for the examples.
  \<^item> GoFloat, Common: \<open>common.go\<close>; \<open>math.Floor\<close> of chains of binary64 divisions is exact below \<open>2^50\<close>.
  \<^item> Config: \<open>config.go\<close>, \<open>viper.go\<close>, \<open>signer.go\<close>.
  \<^item> Binding: \<open>abigen/basrelayhub.go\<close>, construction, calls and transactions.
  \<^item> Events: the same file, the two events: iterators over past logs, subscriptions to new ones, parsers,
    with the locales \<open>log_iterator\<close> and \<open>log_watcher\<close> that both events interpret.
  \<^item> HubABI: the same file, the interface of the contract (\<open>RelayHubMetaData\<close>), as a list of declarations; the
    binding and the relayer's batched calls are checked against it.
  \<^item> Parlia: \<open>parlia.go\<close>, the seal of a header and the validators it lists.
  \<^item> Node: \<open>nodeConfig\<close> and \<open>toNodeConfig\<close> of \<open>service.go\<close>, and the run of consecutive blocks that the
    specifications speak about.
  \<^item> BlockProofs: \<open>proof.go\<close>. The loop is characterised from both sides: what a returned list guarantees,
    and which blocks make it return.
  \<^item> Checkpoint: \<open>checkpoint.go\<close>, with the locale \<open>signature_book\<close> for the signatures of a proof.
  \<^item> Service: \<open>service.go\<close>, first part: proofs in a heap, the cache, the collector, the fetcher; the step
    relation \<open>service_step\<close> of everything that happens to the service and its invariant; \<open>emitter.go\<close>.
  \<^item> Transition: \<open>service.go\<close>, the two transitions on the state \<open>sys\<close> of service and world.
  \<^item> EpochWorker: \<open>service.go\<close>, the worker, \<open>backgroundWorker\<close> and \<open>Start\<close>. CatchUp: the worker between
    the fetcher and the hub.
  \<^item> Proto, Server: \<open>proto/\<close> and \<open>server.go\<close>, with the locale \<open>wire_format\<close> for what is sent and read back.
  \<^item> Network: any number of relayers, composed from the functions of Checkpoint, Service and Server over
    streams that keep the order and may lose messages; the step relation \<open>net_step\<close> and its invariant.
    Agreement: a second invariant, on the origin of what is stored.
  \<^item> Relayer: \<open>main.go\<close>.
  \<^item> Solidity: values and revertible calls of a contract (\<open>evm\<close>), checked and wrapping arithmetic, byte arrays
    in memory, calldata. ContractRlp: \<open>libraries/RLP.sol\<close>, which reads RLP items in calldata, with the encoding
    itself as the reference.
  \<^item> ContractVerifier: \<open>verifiers/PoSaBlockVerifier.sol\<close>, one header: the walk over its items, the bytes that were
    signed, the sealer, the validators. ParliaVerifier: \<open>verifiers/ParliaBlockVerifier.sol\<close>, lists of headers.
    SealedBlocks: what the verifier has established of arbitrary submitted bytes that it accepts.
  \<^item> ContractHub: \<open>RelayHub.sol\<close>, all functions except the listing of the active validators, which is in
    HubValidators with \<open>ctz\<close> of \<open>libraries/BitUtils.sol\<close> and with the bitmaps as sets of addresses.
  \<^item> HubSafety: the reachable states of the hub (\<open>hub_step\<close>), what a transition guarantees. HubGaps: the ways
    around the quorum, and the checkpoints of the relayers' network at the hub.
  \<^item> Acceptance: the proofs of BlockProofs at the hub, over any number of epochs. Relaying: the multicalls of
    Transition at the hub.
  \<^item> RlpReader: \<open>libraries/RLPReader.sol\<close>, RLP items in memory, which is explicit: a list
    of bytes that grows with every new object, with what lies behind it as a parameter. MerkleProof: \<open>libraries/MerklePatriciaProof.sol\<close>, with
    Merkle Patricia tries (\<open>mpt\<close>), their nodes and their lookup as the reference. ReceiptProofs:
    \<open>checkReceiptProof\<close> of the Parlia verifier and of the hub.

  Correspondence of state and operations. A Go struct is a record, a pointer shared between
  goroutines (a checkpoint proof) a reference into the heap of the service record; a method that
  changes its receiver returns the changed record. A call that reads or changes the outside world
  (RPC, clock, channel) is a function of the world \<open>'w\<close>, of which nothing is assumed; where a proof
  needs a law of a package, the law is a named predicate (\<open>codec_laws\<close>, \<open>crypto_laws\<close>, \<open>lru_laws\<close>,
  \<open>link_laws\<close>, \<open>send_laws\<close>, \<open>range_order\<close>, \<open>net_laws\<close>, \<open>hub_moves\<close>,
  \<open>convert_laws\<close>, \<open>returns_declared\<close>) with an instance that meets it. Log messages are
  omitted. A contract is a record of its storage; a function returns the new storage or reverts, which
  leaves it as it was. Bytes are lists, calldata is one list with offsets into it, lengths and offsets are
  natural numbers with the checks or the wrap-around of 256 bits written out, \<open>uint64\<close> is a word. The laws
  on this side: the encoding of headers (\<open>rlp_laws\<close>), hashing and recovery as on the other side, for
  signatures in canonical form (\<open>recover_laws\<close>, \<open>signature_laws\<close>), arguments in calldata
  (\<open>calldata_laws\<close>), OpenZeppelin's sets and bitmaps (\<open>set_laws\<close>); \<open>chain_laws\<close> collects those that tie the
  two sides together, and \<open>plain_addresses\<close> says that an address is its twenty bytes. The dispatcher of the hub
  and OpenZeppelin's multicall are parameters of Relaying (\<open>dispatch_laws\<close>), which further assumes of the chain
  that the blocks in the relayer's proofs are sealed by validators of the epoch before (\<open>sealers_known\<close>). Of
  the hash MerkleProof assumes that it pins down the strings of one given trie (\<open>commits\<close>).

  Interfaces. \<open>invariant_system\<close> is interpreted by the relay service (\<open>svc\<close>) and by the network of
  relayers (\<open>net\<close>, \<open>agree\<close>); \<open>signature_book\<close> by the operations of a checkpoint proof (\<open>book\<close>), and merging
  rests on its facts; \<open>wire_format\<close> by the replies of a stream (\<open>wire\<close>), and the stream theorems rest on
  its facts; \<open>log_iterator\<close> by the iterators of both events (\<open>cr\<close>, \<open>vs\<close>) and \<open>log_watcher\<close> by their
  subscriptions (\<open>crw\<close>, \<open>vsw\<close>), from which the theorems on iterating and watching follow. The hub interprets
  \<open>invariant_system\<close> too (\<open>hub\<close>); \<open>transition_verifier\<close> is what it relies on from a verifier, who vouches
  for the signers that he passes to the quorum check, interpreted by the Parlia verifier (\<open>parlia\<close>, with
  \<open>parlia_vouched\<close>), and the guarantee of a transition rests on its fact.

  Concurrency. The locks of the code make each operation on the cache and on a proof atomic. The
  actions of other goroutines are lists of \<open>svc_action\<close> that the scheduler parameter supplies wherever
  a transition blocks (\<open>Emit\<close>, the \<open>select\<close> of the quorum loop) and before each number that a worker
  receives. A \<open>select\<close> of an iterator takes any of the cases that are ready, and logs arrive at any
  point between its calls (\<open>feed_event\<close>).

  Bounds and fuel. Block numbers are 64-bit words, and the loops over them terminate by the distance
  to their bound, without fuel. The wait for a quorum has no bound in the code and is a
  \<open>partial_function\<close>: \<open>None\<close> is a wait that does not end, and a theorem shows that it ends with its
  context. The fetcher, the listening loop and the worker run forever in the code: they take the
  number of rounds or the inputs they receive, and their theorems hold for every such number. The loops of
  the contracts run over lists, take one bit away in each round (\<open>collect_bucket\<close>) or advance a pointer towards
  its bound (\<open>numItems_loop\<close>, \<open>copy\<close>). Theorems about headers
  hold up to the 65535 bytes that the verifier admits, and for lists of fewer than \<open>2^40\<close> headers.

  What the groups of lemmas show. BlockProofs, Parlia: returned proofs are sealed, consecutive and
  minimal. Checkpoint, Service: signatures form a finite map; the cache never returns a proof because
  of its keys, with the consequences for merging and for the checkpoint transition. Transition: content,
  size and gas of a batch. EpochWorker: what one received number does, and the count of processed blocks.
  CatchUp: a worker whose attempts fail only finitely often reaches the epoch that enough of the received
  numbers confirm, and it acts on confirmed epochs only. Server: what one
  relayer sends another reads, in order. Network, Agreement: what one signs the others store, every
  signature stored anywhere is genuine, its signer stores the same proof, and no proof ever gets a
  second signature. Events: events are delivered in
  order and none is left out. HubABI: every call, transaction and log query is declared with its types, and
  what comes back as declared is returned without a panic. ContractRlp, ContractVerifier, ParliaVerifier: on the
  encoding of a header the verifier reads its fields, hashes the bytes that \<open>parliaRlp\<close> encodes and accepts
  what the relayer accepts. HubValidators, HubSafety: the bitmaps are sets, the quorum counts different
  validators, and every reachable hub lists what it has stored. Acceptance: what the relayer proves the hub
  accepts; Relaying: so a multicall that the relayer has sent moves the hub by one epoch per input. RlpReader: in
  memory, encoded items are listed and read back as they were encoded, and a copied item is in memory as it was
  copied, whatever lies behind the submitted array. SealedBlocks: accepted blocks are linked, and each was sealed
  by its coinbase. MerkleProof, ReceiptProofs: an accepted proof of a receipt is a lookup in the trie that the
  block commits to, the nodes on the way to a value are such a proof, and a block of epoch zero can be forged.
  Several theorems state defects of the code as it is: wrap-around of
  unsigned numbers, divisions by zero, panics, and in HubGaps the reset of a chain by an empty list of proofs,
  repeated signatures, a transition over epoch blocks that resets and checkpoints that are never accepted.

  Not modelled. Logging; the reflection and wire encoding of the protobuf package; the parsing of
  the contract's ABI text, which is an argument where it is parsed (its declarations are written out in HubABI);
  the verifier around a precompiled contract, the bridge with its parser of receipts and the test contracts; the
  functions of the two RLP libraries that the verifier does not call; gas, of which a contract has enough
  here; the JavaScript tooling. The relayer does not use the event iterators of the
  binding, which are modelled on their own.
\<close>

end
